(* ===== verification/Prelude.thy ===== *)
theory Prelude
  imports Main "HOL-Library.Word" "HOL-Library.Signed_Division" "HOL-Library.Char_ord"
    "HOL-Library.List_Lexorder"
begin

text \<open>
  Shared vocabulary of the development: Go's machine integers and durations, instants, result
  types, the collections of hints the component theories fill, and generic lemmas on lists and
  options.

  A Go \<open>int64\<close> (and \<open>time.Duration\<close>, which is one, counting nanoseconds) is an \<open>int\<close>
  kept in range by \<open>wrap64\<close>, applied wherever the source's arithmetic can leave the range;
  \<open>wrap64_sint\<close> shows that this is the two's complement reading of a 64-bit word. An instant
  (\<open>time.Time\<close>) is its number of nanoseconds since the epoch: the code compares, adds and
  subtracts instants and formats them through parameters.
\<close>

named_theorems config_defs "the constants of the configuration, unfolded to numbers"
named_theorems run_defs "definitions unfolded to execute an operation on its branches"
named_theorems frame "what an operation leaves unchanged"

section \<open>Integers, durations, instants\<close>

type_synonym time = int
type_synonym duration = int

definition wrap64 :: "int \<Rightarrow> int" where
  "wrap64 x = (x + 2 ^ 63) mod 2 ^ 64 - 2 ^ 63"

definition in_int64 :: "int \<Rightarrow> bool" where
  "in_int64 x \<longleftrightarrow> - (2 ^ 63) \<le> x \<and> x < 2 ^ 63"

lemma wrap64_sint: "wrap64 x = sint (word_of_int x :: 64 word)"
  by (simp add: wrap64_def sint_sbintrunc' signed_take_bit_eq_take_bit_shift take_bit_eq_mod)

lemma in_int64_wrap64 [simp]: "in_int64 (wrap64 x)"
  by (simp add: wrap64_def in_int64_def)

lemma wrap64_id: "in_int64 x \<Longrightarrow> wrap64 x = x"
  by (simp add: wrap64_def in_int64_def)

lemma wrap64_small [simp]: "- 9223372036854775808 \<le> x \<Longrightarrow> x < 9223372036854775808 \<Longrightarrow> wrap64 x = x"
  by (simp add: wrap64_def)

text \<open>\<open>time.Nanosecond\<close>, \<open>time.Millisecond\<close> and \<open>time.Second\<close>.\<close>

definition millisecond :: duration where [config_defs]: "millisecond = 1000000"
definition second :: duration where [config_defs]: "second = 1000000000"

section \<open>Lists and options\<close>

lemma find_Some_in_set: "List.find P xs = Some x \<Longrightarrow> x \<in> set xs \<and> P x"
  by (induction xs) (auto split: if_splits)

lemma distinct_filter_map: "distinct (map f xs) \<Longrightarrow> distinct (map f (filter P xs))"
  by (induction xs) auto

lemma length_filter_partition:
  "length (filter P xs) + length (filter (\<lambda>x. \<not> P x) xs) = length xs"
  by (induction xs) auto

lemma filter_eq_conv_all: "filter P xs = xs \<longleftrightarrow> (\<forall>x \<in> set xs. P x)"
  by (induction xs) (auto dest: filter_eq_ConsD simp: filter_id_conv)

text \<open>Membership in a list built step by step keeps what each step keeps.\<close>

lemma fold_invariant:
  assumes "\<And>x s. x \<in> set xs \<Longrightarrow> P s \<Longrightarrow> P (f x s)" and "P s"
  shows "P (fold f xs s)"
  using assms by (induction xs arbitrary: s) auto

lemma fold_frame:
  assumes "\<And>x s. x \<in> set xs \<Longrightarrow> g (f x s) = g s"
  shows "g (fold f xs s) = g s"
  using assms by (induction xs arbitrary: s) auto

lemma concat_singletons: "\<forall>j \<in> set js. f j = [q] \<Longrightarrow> concat (map f js) = replicate (length js) q"
  by (induction js) auto

text \<open>The log of a loop whose earlier rounds each wrote \<open>q\<close>, and whose last wrote it or nothing.\<close>

lemma concat_rounds:
  assumes "\<forall>j < k. f j = [q]"
  shows "concat (map f [0..<Suc k]) = replicate k q @ f k"
  using concat_singletons [of "[0..<k]" f q] assms by simp

lemma list_all2_sources: "list_all2 P xs ys \<Longrightarrow> y \<in> set ys \<Longrightarrow> \<exists>x \<in> set xs. P x y"
  by (induction rule: list_all2_induct) auto

lemma list_all2_targets: "list_all2 P xs ys \<Longrightarrow> x \<in> set xs \<Longrightarrow> \<exists>y \<in> set ys. P x y"
  by (induction rule: list_all2_induct) auto

end
