(* ===== verification/Go_Strings.thy ===== *)
theory Go_Strings
  imports Prelude
begin

text \<open>
  What the source uses of Go's \<open>strings\<close>, \<open>strconv\<close> and \<open>net/url\<close>. A Go string is a
  byte sequence, so it is a \<open>char list\<close> here. White space is Unicode's, recognised in its UTF-8
  encoding, as \<open>unicode.IsSpace\<close> does. \<open>to_upper\<close> and \<open>to_lower\<close> map the ASCII letters
  and the four non-ASCII runes whose image is an ASCII letter (dotless i and long s; dotted I and
  the Kelvin sign); other non-ASCII runes are kept, which no caller can observe: each compares
  the result with ASCII literals or searches an ASCII literal in it.
\<close>

section \<open>Characters\<close>

definition code :: "char \<Rightarrow> nat" where "code c = of_char c"

definition is_upper :: "char \<Rightarrow> bool" where "is_upper c \<longleftrightarrow> 65 \<le> code c \<and> code c \<le> 90"
definition is_lower :: "char \<Rightarrow> bool" where "is_lower c \<longleftrightarrow> 97 \<le> code c \<and> code c \<le> 122"
definition is_digit :: "char \<Rightarrow> bool" where "is_digit c \<longleftrightarrow> 48 \<le> code c \<and> code c \<le> 57"

definition is_word_char :: "char \<Rightarrow> bool" where
  "is_word_char c \<longleftrightarrow> is_upper c \<or> is_lower c \<or> is_digit c \<or> c = CHR ''_''"

text \<open>White space runes of one, two and three bytes.\<close>

definition is_space1 :: "char \<Rightarrow> bool" where
  "is_space1 c \<longleftrightarrow> code c = 32 \<or> 9 \<le> code c \<and> code c \<le> 13"

definition is_space2 :: "char \<Rightarrow> char \<Rightarrow> bool" where
  "is_space2 a b \<longleftrightarrow> code a = 0xC2 \<and> (code b = 0x85 \<or> code b = 0xA0)"

definition is_space3 :: "char \<Rightarrow> char \<Rightarrow> char \<Rightarrow> bool" where
  "is_space3 a b c \<longleftrightarrow>
     code a = 0xE1 \<and> code b = 0x9A \<and> code c = 0x80 \<or>
     code a = 0xE2 \<and> code b = 0x80 \<and>
       (0x80 \<le> code c \<and> code c \<le> 0x8A \<or> code c = 0xA8 \<or> code c = 0xA9 \<or> code c = 0xAF) \<or>
     code a = 0xE2 \<and> code b = 0x81 \<and> code c = 0x9F \<or>
     code a = 0xE3 \<and> code b = 0x80 \<and> code c = 0x80"

section \<open>Trimming and splitting at white space\<close>

text \<open>The rest of a string after one leading white space rune.\<close>

fun skip_space :: "string \<Rightarrow> string option" where
  "skip_space [] = None"
| "skip_space (a # s) =
     (if is_space1 a then Some s
      else case s of
        [] \<Rightarrow> None
      | b # s' \<Rightarrow>
          if is_space2 a b then Some s'
          else (case s' of [] \<Rightarrow> None | c # s'' \<Rightarrow> if is_space3 a b c then Some s'' else None))"

text \<open>The same from the end, on the reversed string.\<close>

fun skip_space_rev :: "string \<Rightarrow> string option" where
  "skip_space_rev [] = None"
| "skip_space_rev (c # s) =
     (if is_space1 c then Some s
      else case s of
        [] \<Rightarrow> None
      | b # s' \<Rightarrow>
          if is_space2 b c then Some s'
          else (case s' of [] \<Rightarrow> None | a # s'' \<Rightarrow> if is_space3 a b c then Some s'' else None))"

lemma skip_space_length: "skip_space s = Some r \<Longrightarrow> length r < length s"
  by (cases s rule: skip_space.cases) (auto split: if_splits list.splits)

lemma skip_space_rev_length: "skip_space_rev s = Some r \<Longrightarrow> length r < length s"
  by (cases s rule: skip_space_rev.cases) (auto split: if_splits list.splits)

function trim_left :: "string \<Rightarrow> string" where
  "trim_left s = (case skip_space s of None \<Rightarrow> s | Some r \<Rightarrow> trim_left r)"
  by pat_completeness auto
termination
  by (relation "measure length") (auto dest: skip_space_length)

function trim_left_rev :: "string \<Rightarrow> string" where
  "trim_left_rev s = (case skip_space_rev s of None \<Rightarrow> s | Some r \<Rightarrow> trim_left_rev r)"
  by pat_completeness auto
termination
  by (relation "measure length") (auto dest: skip_space_rev_length)

declare trim_left.simps [simp del] trim_left_rev.simps [simp del]

text \<open>\<open>strings.TrimSpace\<close>.\<close>

definition trim_space :: "string \<Rightarrow> string" where
  "trim_space s = rev (trim_left_rev (rev (trim_left s)))"

text \<open>\<open>strings.Fields\<close>: the maximal runs of non-space, the current one reversed in \<open>acc\<close>.\<close>

function str_fields_from :: "string \<Rightarrow> string \<Rightarrow> string list" where
  "str_fields_from acc s =
     (case skip_space s of
        Some r \<Rightarrow> (if acc = [] then str_fields_from [] r else rev acc # str_fields_from [] r)
      | None \<Rightarrow>
          (case s of
             [] \<Rightarrow> (if acc = [] then [] else [rev acc])
           | c # r \<Rightarrow> str_fields_from (c # acc) r))"
  by pat_completeness auto
termination
  by (relation "measure (\<lambda>(acc, s). length s)") (auto dest: skip_space_length)

declare str_fields_from.simps [simp del]

definition str_fields :: "string \<Rightarrow> string list" where
  "str_fields s = str_fields_from [] s"

text \<open>\<open>strings.Join(parts, " ")\<close>.\<close>

fun join :: "string \<Rightarrow> string list \<Rightarrow> string" where
  "join sep [] = []"
| "join sep [x] = x"
| "join sep (x # y # xs) = x @ sep @ join sep (y # xs)"

section \<open>Case mapping\<close>

definition ascii_upper :: "char \<Rightarrow> char" where
  "ascii_upper c = (if is_lower c then char_of (code c - 32) else c)"

definition ascii_lower :: "char \<Rightarrow> char" where
  "ascii_lower c = (if is_upper c then char_of (code c + 32) else c)"

fun to_upper :: "string \<Rightarrow> string" where
  "to_upper (a # b # s) =
     (if a = CHR 0xC4 \<and> b = CHR 0xB1 then CHR ''I'' # to_upper s
      else if a = CHR 0xC5 \<and> b = CHR 0xBF then CHR ''S'' # to_upper s
      else ascii_upper a # to_upper (b # s))"
| "to_upper [a] = [ascii_upper a]"
| "to_upper [] = []"

fun to_lower :: "string \<Rightarrow> string" where
  "to_lower (a # b # s) =
     (if a = CHR 0xC4 \<and> b = CHR 0xB0 then CHR ''i'' # to_lower s
      else case s of
        [] \<Rightarrow> [ascii_lower a, ascii_lower b]
      | c # s' \<Rightarrow>
          (if a = CHR 0xE2 \<and> b = CHR 0x84 \<and> c = CHR 0xAA then CHR ''k'' # to_lower s'
           else ascii_lower a # to_lower (b # s)))"
| "to_lower [a] = [ascii_lower a]"
| "to_lower [] = []"

lemma to_lower_Nil [simp]: "to_lower s = [] \<longleftrightarrow> s = []"
  by (cases s rule: to_lower.cases) (auto split: list.splits)

section \<open>Searching and splitting\<close>

fun has_prefix :: "string \<Rightarrow> string \<Rightarrow> bool" where
  "has_prefix s [] = True"
| "has_prefix [] (p # ps) = False"
| "has_prefix (c # s) (p # ps) = (c = p \<and> has_prefix s ps)"

definition has_suffix :: "string \<Rightarrow> string \<Rightarrow> bool" where
  "has_suffix s p = has_prefix (rev s) (rev p)"

definition trim_suffix :: "string \<Rightarrow> string \<Rightarrow> string" where
  "trim_suffix s p = (if has_suffix s p then take (length s - length p) s else s)"

text \<open>\<open>strings.Contains(s, sub)\<close>.\<close>

fun contains :: "string \<Rightarrow> string \<Rightarrow> bool" where
  "contains [] sub = (sub = [])"
| "contains (c # s) sub = (has_prefix (c # s) sub \<or> contains s sub)"

text \<open>\<open>strings.Cut(s, sep)\<close> for a non-empty separator.\<close>

fun cut :: "string \<Rightarrow> string \<Rightarrow> (string \<times> string) option" where
  "cut [] sep = None"
| "cut (c # s) sep =
     (if has_prefix (c # s) sep then Some ([], drop (length sep) (c # s))
      else map_option (\<lambda>(before, after). (c # before, after)) (cut s sep))"

text \<open>\<open>strings.Split\<close> and \<open>strings.SplitSeq\<close> at a one-byte separator.\<close>

fun split_on :: "char \<Rightarrow> string \<Rightarrow> string list" where
  "split_on d [] = [[]]"
| "split_on d (c # s) =
     (if c = d then [] # split_on d s
      else case split_on d s of [] \<Rightarrow> [[c]] | t # ts \<Rightarrow> (c # t) # ts)"

text \<open>The text after the last occurrence of a byte (\<open>strings.LastIndex\<close> and a slice).\<close>

fun after_last :: "char \<Rightarrow> string \<Rightarrow> string option" where
  "after_last d [] = None"
| "after_last d (c # s) =
     (case after_last d s of
        Some t \<Rightarrow> Some t
      | None \<Rightarrow> if c = d then Some s else None)"

text \<open>\<open>strings.TrimRight(s, cutset)\<close>.\<close>

definition trim_right_chars :: "char list \<Rightarrow> string \<Rightarrow> string" where
  "trim_right_chars cs s = rev (dropWhile (\<lambda>c. c \<in> set cs) (rev s))"

section \<open>Numbers\<close>

definition digit_val :: "char \<Rightarrow> int" where
  "digit_val c = int (code c) - 48"

fun digits_val :: "int \<Rightarrow> string \<Rightarrow> int" where
  "digits_val n [] = n"
| "digits_val n (c # s) = digits_val (10 * n + digit_val c) s"

text \<open>
  \<open>strconv.Atoi\<close>: an optional sign and decimal digits, \<open>None\<close> for a syntax error and for a value
  that does not fit a 64-bit \<open>int\<close>.
\<close>

definition atoi :: "string \<Rightarrow> int option" where
  "atoi s =
     (let (neg, ds) = (case s of [] \<Rightarrow> (False, [])
                       | c # r \<Rightarrow> if c = CHR ''-'' then (True, r)
                                  else if c = CHR ''+'' then (False, r) else (False, s));
          v = (if neg then - digits_val 0 ds else digits_val 0 ds)
      in if ds \<noteq> [] \<and> list_all is_digit ds \<and> in_int64 v then Some v else None)"

section \<open>Facts about trimming\<close>

lemma trim_left_None: "skip_space s = None \<Longrightarrow> trim_left s = s"
  by (subst trim_left.simps) simp

lemma trim_left_Some: "skip_space s = Some r \<Longrightarrow> trim_left s = trim_left r"
  by (subst trim_left.simps) simp

lemma trim_left_rev_None: "skip_space_rev s = None \<Longrightarrow> trim_left_rev s = s"
  by (subst trim_left_rev.simps) simp

lemma trim_left_rev_Some: "skip_space_rev s = Some r \<Longrightarrow> trim_left_rev s = trim_left_rev r"
  by (subst trim_left_rev.simps) simp

lemma skip_space_trim_left: "skip_space (trim_left s) = None"
proof (induction s rule: trim_left.induct)
  case (1 s)
  then show ?case by (cases "skip_space s") (auto simp: trim_left_None trim_left_Some)
qed

lemma skip_space_rev_trim_left_rev: "skip_space_rev (trim_left_rev s) = None"
proof (induction s rule: trim_left_rev.induct)
  case (1 s)
  then show ?case by (cases "skip_space_rev s") (auto simp: trim_left_rev_None trim_left_rev_Some)
qed

lemma skip_space_suffix: "skip_space s = Some r \<Longrightarrow> \<exists>p. p \<noteq> [] \<and> s = p @ r"
  by (cases s rule: skip_space.cases) (auto split: if_splits list.splits)

lemma skip_space_rev_suffix: "skip_space_rev s = Some r \<Longrightarrow> \<exists>p. p \<noteq> [] \<and> s = p @ r"
  by (cases s rule: skip_space_rev.cases) (auto split: if_splits list.splits)

lemma trim_left_suffix: "\<exists>p. s = p @ trim_left s"
proof (induction s rule: trim_left.induct)
  case (1 s)
  show ?case
  proof (cases "skip_space s")
    case None
    then show ?thesis by (simp add: trim_left_None)
  next
    case (Some r)
    then obtain p q where "s = p @ r" "r = q @ trim_left r"
      using 1 skip_space_suffix by blast
    with Some show ?thesis by (simp add: trim_left_Some) (metis append.assoc)
  qed
qed

lemma trim_left_rev_suffix: "\<exists>p. s = p @ trim_left_rev s"
proof (induction s rule: trim_left_rev.induct)
  case (1 s)
  show ?case
  proof (cases "skip_space_rev s")
    case None
    then show ?thesis by (simp add: trim_left_rev_None)
  next
    case (Some r)
    then obtain p q where "s = p @ r" "r = q @ trim_left_rev r"
      using 1 skip_space_rev_suffix by blast
    with Some show ?thesis by (simp add: trim_left_rev_Some) (metis append.assoc)
  qed
qed

lemma trim_space_sublist: "\<exists>p q. s = p @ trim_space s @ q"
proof -
  obtain p where "s = p @ trim_left s" using trim_left_suffix by blast
  moreover obtain q where "rev (trim_left s) = q @ trim_left_rev (rev (trim_left s))"
    using trim_left_rev_suffix by blast
  then have "trim_left s = trim_space s @ rev q"
    by (metis rev_append rev_rev_ident trim_space_def)
  ultimately show ?thesis by metis
qed

lemma trim_space_set: "set (trim_space s) \<subseteq> set s"
proof -
  obtain p q where "s = p @ trim_space s @ q" using trim_space_sublist by blast
  then have "set s = set p \<union> set (trim_space s) \<union> set q" by (metis Un_assoc set_append)
  then show ?thesis by blast
qed

lemma skip_space_prefix: "skip_space (p @ q) = None \<Longrightarrow> skip_space p = None"
  by (cases p rule: skip_space.cases) (auto split: if_splits list.splits)

lemma trim_space_ends:
  "skip_space (trim_space s) = None \<and> skip_space_rev (rev (trim_space s)) = None"
proof -
  obtain q where "rev (trim_left s) = q @ trim_left_rev (rev (trim_left s))"
    using trim_left_rev_suffix by blast
  then have "trim_left s = trim_space s @ rev q"
    by (metis rev_append rev_rev_ident trim_space_def)
  then have "skip_space (trim_space s) = None"
    using skip_space_trim_left [of s] skip_space_prefix by metis
  then show ?thesis by (simp add: trim_space_def skip_space_rev_trim_left_rev)
qed

lemma trim_space_id:
  "skip_space s = None \<Longrightarrow> skip_space_rev (rev s) = None \<Longrightarrow> trim_space s = s"
  by (simp add: trim_space_def trim_left_None trim_left_rev_None)

lemma trim_space_idem [simp]: "trim_space (trim_space s) = trim_space s"
  using trim_space_ends [of s] by (intro trim_space_id) auto

lemma trim_space_fixed:
  "trim_space s = s \<longleftrightarrow> skip_space s = None \<and> skip_space_rev (rev s) = None"
  using trim_space_ends [of s] trim_space_id [of s] by auto

lemma trim_space_Nil [simp]: "trim_space [] = []"
  by (simp add: trim_space_id)

text \<open>A byte that no white space rune contains shields what it touches.\<close>

definition no_space_byte :: "char \<Rightarrow> bool" where
  "no_space_byte c \<longleftrightarrow> 33 \<le> code c \<and> code c \<le> 126"

lemma no_space_byte_simps [simp]:
  assumes "no_space_byte c"
  shows "\<not> is_space1 c" "\<not> is_space2 c b" "\<not> is_space2 b c" "\<not> is_space3 c a b"
    "\<not> is_space3 a c b" "\<not> is_space3 a b c"
  using assms by (auto simp: no_space_byte_def is_space1_def is_space2_def is_space3_def)

lemma skip_space_shield: "no_space_byte c \<Longrightarrow> skip_space (c # s) = None"
  by (simp split: list.splits)

lemma skip_space_rev_shield:
  "r \<noteq> [] \<Longrightarrow> skip_space_rev r = None \<Longrightarrow> no_space_byte c \<Longrightarrow> skip_space_rev (r @ c # x) = None"
  by (cases r rule: skip_space_rev.cases) (auto split: if_splits list.splits)

lemma skip_space_rev_last: "no_space_byte c \<Longrightarrow> skip_space_rev (c # s) = None"
  by (simp split: list.splits)

section \<open>Facts about searching and splitting\<close>

lemma has_prefix_iff: "has_prefix s p \<longleftrightarrow> (\<exists>q. s = p @ q)"
  by (induction s p rule: has_prefix.induct) auto

lemma contains_iff: "contains s sub \<longleftrightarrow> (\<exists>p q. s = p @ sub @ q)"
proof (induction s)
  case Nil
  then show ?case by auto
next
  case (Cons c s)
  then show ?case
    by (auto simp: has_prefix_iff Cons_eq_append_conv)
qed

lemma cut_Some: "cut s sep = Some (a, b) \<Longrightarrow> s = a @ sep @ b"
  by (induction s arbitrary: a) (auto simp: has_prefix_iff split: if_splits)

lemma cut_None: "sep \<noteq> [] \<Longrightarrow> cut s sep = None \<longleftrightarrow> \<not> contains s sep"
  by (induction s) auto

lemma cut_append:
  assumes "d \<notin> set u"
  shows "cut (u @ d # sep @ b) (d # sep) = Some (u, b)"
  using assms by (induction u) (auto simp: has_prefix_iff)

lemma split_on_not_Nil [simp]: "split_on d s \<noteq> []"
  by (induction s) (auto split: list.splits)

lemma split_on_lines:
  "\<forall>l \<in> set ls. d \<notin> set l \<Longrightarrow> d \<notin> set t \<Longrightarrow>
     split_on d (concat (map (\<lambda>l. l @ [d]) ls) @ t) = ls @ [t]"
proof (induction ls)
  case Nil
  then have "d \<notin> set t" by simp
  then show ?case by (induction t) auto
next
  case (Cons l ls)
  have "d \<notin> set l \<Longrightarrow> split_on d (l @ d # s) = l # split_on d s" for l s
    by (induction l) auto
  with Cons show ?case by simp
qed

lemma join_split_on: "join [d] (split_on d s) = s"
proof (induction s)
  case Nil
  then show ?case by simp
next
  case (Cons c s)
  obtain t ts where t: "split_on d s = t # ts" by (cases "split_on d s") auto
  with Cons show ?case by (cases ts) auto
qed

lemma after_last_None: "after_last d s = None \<longleftrightarrow> d \<notin> set s"
  by (induction s) (auto split: option.splits)

lemma after_last_Some: "after_last d s = Some t \<longleftrightarrow> d \<notin> set t \<and> (\<exists>p. s = p @ d # t)"
proof (induction s)
  case Nil
  then show ?case by simp
next
  case (Cons c s)
  then show ?case
    using after_last_None [of d s]
    by (cases "after_last d s") (auto simp: Cons_eq_append_conv)
qed

text \<open>Trimming removes white space only.\<close>

lemma skip_space_keeps: "skip_space s = Some r \<Longrightarrow> no_space_byte c \<Longrightarrow> c \<in> set s \<Longrightarrow> c \<in> set r"
  by (cases s rule: skip_space.cases) (auto split: if_splits list.splits)

lemma skip_space_rev_keeps:
  "skip_space_rev s = Some r \<Longrightarrow> no_space_byte c \<Longrightarrow> c \<in> set s \<Longrightarrow> c \<in> set r"
  by (cases s rule: skip_space_rev.cases) (auto split: if_splits list.splits)

lemma trim_left_keeps: "no_space_byte c \<Longrightarrow> c \<in> set s \<Longrightarrow> c \<in> set (trim_left s)"
proof (induction s rule: trim_left.induct)
  case (1 s)
  then show ?case
    by (cases "skip_space s") (auto simp: trim_left_None trim_left_Some dest: skip_space_keeps)
qed

lemma trim_left_rev_keeps: "no_space_byte c \<Longrightarrow> c \<in> set s \<Longrightarrow> c \<in> set (trim_left_rev s)"
proof (induction s rule: trim_left_rev.induct)
  case (1 s)
  then show ?case
    by (cases "skip_space_rev s")
      (auto simp: trim_left_rev_None trim_left_rev_Some dest: skip_space_rev_keeps)
qed

lemma trim_space_keeps: "no_space_byte c \<Longrightarrow> c \<in> set s \<Longrightarrow> c \<in> set (trim_space s)"
  by (simp add: trim_space_def trim_left_keeps trim_left_rev_keeps)

lemma trim_space_not_blank: "no_space_byte c \<Longrightarrow> c \<in> set s \<Longrightarrow> trim_space s \<noteq> []"
  using trim_space_keeps [of c s] by force

section \<open>Facts about numbers\<close>

lemma digits_val_nonneg: "list_all is_digit s \<Longrightarrow> 0 \<le> n \<Longrightarrow> 0 \<le> digits_val n s"
  by (induction s arbitrary: n) (auto simp: digit_val_def is_digit_def)

lemma atoi_digits:
  assumes "s \<noteq> []" "list_all is_digit s" "digits_val 0 s < 2 ^ 63"
  shows "atoi s = Some (digits_val 0 s)"
proof (cases s)
  case (Cons c r)
  with assms(2) have "c \<noteq> CHR ''-''" "c \<noteq> CHR ''+''"
    by (auto simp: is_digit_def code_def)
  with Cons assms digits_val_nonneg [of s 0] show ?thesis
    by (simp add: atoi_def Let_def in_int64_def)
qed (use assms in simp)

lemma digits_val_3:
  assumes "list_all is_digit s" "length s \<le> 3"
  shows "digits_val 0 s < 1000"
proof -
  have "digits_val n s < (n + 1) * 10 ^ length s" if "list_all is_digit s" for n s
    using that
  proof (induction s arbitrary: n)
    case (Cons c s)
    then have "digits_val (10 * n + digit_val c) s < (10 * n + digit_val c + 1) * 10 ^ length s" by simp
    also have "\<dots> \<le> (10 * n + 10) * 10 ^ length s"
      using Cons.prems by (intro mult_right_mono) (auto simp: digit_val_def is_digit_def)
    finally show ?case by (simp add: algebra_simps)
  qed simp
  from this [OF assms(1), of 0] have "digits_val 0 s < 10 ^ length s" by simp
  also have "\<dots> \<le> 10 ^ 3" using assms(2) by (intro power_increasing) auto
  finally show ?thesis by simp
qed

end
