(* ===== verification/Go_Regexp.thy ===== *)
theory Go_Regexp
  imports Go_Strings
begin

text \<open>
  The part of Go's \<open>regexp\<close> the source uses: classes, sequences, alternatives, an optional
  part, greedy and lazy repetition of a class, captures, the anchors of a text and the ASCII word
  boundary. \<open>matches\<close> lists the matches from one position in the order in which Go's
  leftmost-first search prefers them; \<open>find_submatch\<close> is \<open>FindStringSubmatch\<close>: the preferred
  match at the leftmost position that has one. Matching works on bytes: every pattern of the
  source starts and ends its repetitions at ASCII bytes, which never occur inside a multi-byte rune.

  \<open>denotes\<close> is what a pattern means, with no order and no search; \<open>matches_denotes\<close> shows
  that the search finds exactly the denoted texts with their captures, and \<open>find_submatch_None\<close>
  and \<open>find_submatch_Some\<close> are what the parsers built on it use.
\<close>

datatype rx =
    Eps
  | Cls "char \<Rightarrow> bool"
  | Seq rx rx
  | Alt rx rx
  | Opt rx
  | Rep bool "char \<Rightarrow> bool" nat "nat option"   \<comment> \<open>greedy?, class, at least, at most\<close>
  | Grp nat rx
  | Bol
  | Eol
  | Wordb

type_synonym captures = "(nat \<times> string) list"
type_synonym rx_state = "char option \<times> string \<times> captures"   \<comment> \<open>byte before, rest, captured\<close>

definition opt_word :: "char option \<Rightarrow> bool" where
  "opt_word c \<longleftrightarrow> (case c of None \<Rightarrow> False | Some x \<Rightarrow> is_word_char x)"

fun head_opt :: "string \<Rightarrow> char option" where
  "head_opt [] = None"
| "head_opt (c # s) = Some c"

text \<open>The positions reached by reading 0, 1, 2, \<open>\<dots>\<close> bytes of a class.\<close>

fun run_positions :: "(char \<Rightarrow> bool) \<Rightarrow> char option \<Rightarrow> string \<Rightarrow> (char option \<times> string) list" where
  "run_positions P p [] = [(p, [])]"
| "run_positions P p (c # s) = (p, c # s) # (if P c then run_positions P (Some c) s else [])"

definition rep_positions ::
  "(char \<Rightarrow> bool) \<Rightarrow> nat \<Rightarrow> nat option \<Rightarrow> char option \<Rightarrow> string \<Rightarrow> (char option \<times> string) list" where
  "rep_positions P lo hi p s =
     drop lo (case hi of None \<Rightarrow> run_positions P p s | Some n \<Rightarrow> take (Suc n) (run_positions P p s))"

fun matches :: "rx \<Rightarrow> rx_state \<Rightarrow> rx_state list" where
  "matches Eps st = [st]"
| "matches (Cls P) (p, s, g) = (case s of [] \<Rightarrow> [] | c # s' \<Rightarrow> if P c then [(Some c, s', g)] else [])"
| "matches (Seq a b) st = concat (map (matches b) (matches a st))"
| "matches (Alt a b) st = matches a st @ matches b st"
| "matches (Opt a) st = matches a st @ [st]"
| "matches (Rep greedy P lo hi) (p, s, g) =
     (let ps = map (\<lambda>(q, r). (q, r, g)) (rep_positions P lo hi p s)
      in if greedy then rev ps else ps)"
| "matches (Grp k a) (p, s, g) =
     map (\<lambda>(q, r, g'). (q, r, (k, take (length s - length r) s) # g')) (matches a (p, s, g))"
| "matches Bol (p, s, g) = (if p = None then [(p, s, g)] else [])"
| "matches Eol (p, s, g) = (if s = [] then [(p, s, g)] else [])"
| "matches Wordb (p, s, g) = (if opt_word p \<noteq> opt_word (head_opt s) then [(p, s, g)] else [])"

fun find_from :: "rx \<Rightarrow> char option \<Rightarrow> string \<Rightarrow> captures option" where
  "find_from a p [] = (case matches a (p, [], []) of [] \<Rightarrow> None | (q, r, g) # _ \<Rightarrow> Some g)"
| "find_from a p (c # s) =
     (case matches a (p, c # s, []) of
        [] \<Rightarrow> find_from a (Some c) s
      | (q, r, g) # _ \<Rightarrow> Some g)"

definition find_submatch :: "rx \<Rightarrow> string \<Rightarrow> captures option" where
  "find_submatch a s = find_from a None s"

definition match_string :: "rx \<Rightarrow> string \<Rightarrow> bool" where
  "match_string a s \<longleftrightarrow> find_submatch a s \<noteq> None"

text \<open>A group that took no part in the match reads as the empty string, as in Go.\<close>

definition group :: "nat \<Rightarrow> captures \<Rightarrow> string" where
  "group k g = (case map_of g k of None \<Rightarrow> [] | Some t \<Rightarrow> t)"

text \<open>The classes \<open>\s\<close> (no vertical tab in Go) and \<open>[^\n]\<close>, which is also what a dot matches.\<close>

definition re_space :: "char \<Rightarrow> bool" where
  "re_space c \<longleftrightarrow> code c = 32 \<or> code c = 9 \<or> code c = 10 \<or> code c = 12 \<or> code c = 13"

definition not_newline :: "char \<Rightarrow> bool" where
  "not_newline c \<longleftrightarrow> c \<noteq> CHR 0x0A"

text \<open>Literals, and literals under \<open>(?i)\<close>, where s also folds with the long s.\<close>

fun lit :: "string \<Rightarrow> rx" where
  "lit [] = Eps"
| "lit (c # s) = Seq (Cls (\<lambda>x. x = c)) (lit s)"

definition fold_char :: "char \<Rightarrow> rx" where
  "fold_char c =
     (let ascii = Cls (\<lambda>x. ascii_lower x = ascii_lower c)
      in if ascii_lower c = CHR ''s'' then Alt ascii (lit [CHR 0xC5, CHR 0xBF])
         else if ascii_lower c = CHR ''k'' then Alt ascii (lit [CHR 0xE2, CHR 0x84, CHR 0xAA])
         else ascii)"

fun lit_fold :: "string \<Rightarrow> rx" where
  "lit_fold [] = Eps"
| "lit_fold (c # s) = Seq (fold_char c) (lit_fold s)"

fun seqs :: "rx list \<Rightarrow> rx" where
  "seqs [] = Eps"
| "seqs (a # as) = Seq a (seqs as)"

fun alts :: "rx list \<Rightarrow> rx" where
  "alts [] = Cls (\<lambda>_. False)"
| "alts [a] = a"
| "alts (a # b # as) = Alt a (alts (b # as))"

section \<open>What a pattern denotes\<close>

text \<open>
  \<open>denotes a p t q g\<close>: the text \<open>t\<close>, between the byte \<open>p\<close> and the rest \<open>q\<close>, is matched by \<open>a\<close>
  with the captures \<open>g\<close>, the later ones first.
\<close>

definition last_opt :: "char option \<Rightarrow> string \<Rightarrow> char option" where
  "last_opt p t = (if t = [] then p else Some (last t))"

fun denotes :: "rx \<Rightarrow> char option \<Rightarrow> string \<Rightarrow> string \<Rightarrow> captures \<Rightarrow> bool" where
  "denotes Eps p t q g = (t = [] \<and> g = [])"
| "denotes (Cls P) p t q g = ((\<exists>c. t = [c] \<and> P c) \<and> g = [])"
| "denotes (Seq a b) p t q g =
     (\<exists>u v g1 g2. t = u @ v \<and> g = g2 @ g1 \<and> denotes a p u (v @ q) g1 \<and>
        denotes b (last_opt p u) v q g2)"
| "denotes (Alt a b) p t q g = (denotes a p t q g \<or> denotes b p t q g)"
| "denotes (Opt a) p t q g = (denotes a p t q g \<or> t = [] \<and> g = [])"
| "denotes (Rep greedy P lo hi) p t q g =
     (list_all P t \<and> lo \<le> length t \<and> (case hi of None \<Rightarrow> True | Some n \<Rightarrow> length t \<le> n) \<and> g = [])"
| "denotes (Grp k a) p t q g = (\<exists>g'. g = (k, t) # g' \<and> denotes a p t q g')"
| "denotes Bol p t q g = (t = [] \<and> p = None \<and> g = [])"
| "denotes Eol p t q g = (t = [] \<and> q = [] \<and> g = [])"
| "denotes Wordb p t q g = (t = [] \<and> opt_word p \<noteq> opt_word (head_opt q) \<and> g = [])"

lemma last_opt_Nil [simp]: "last_opt p [] = p"
  by (simp add: last_opt_def)

lemma last_opt_Cons [simp]: "last_opt p (c # t) = last_opt (Some c) t"
  by (simp add: last_opt_def)

lemma last_opt_append [simp]: "last_opt p (t @ u) = last_opt (last_opt p t) u"
  by (simp add: last_opt_def)

subsection \<open>Repetition\<close>

lemma run_positions_upt:
  "run_positions P p s =
     map (\<lambda>k. (last_opt p (take k s), drop k s)) [0..<Suc (length (takeWhile P s))]"
proof (induction P p s rule: run_positions.induct)
  case (1 P p)
  then show ?case by simp
next
  case (2 P p c s)
  then show ?case by (simp add: map_upt_Suc del: upt_Suc)
qed

lemma list_all_takeWhile: "list_all P (take k s) \<and> k \<le> length s \<longleftrightarrow> k \<le> length (takeWhile P s)"
proof (induction s arbitrary: k)
  case Nil
  then show ?case by simp
next
  case (Cons c s)
  then show ?case by (cases k) auto
qed

lemma take_upt_0: "take n [0..<m] = [0..<min n m]"
  by (cases "n \<le> m") (auto simp: take_upt)

lemma set_rep_positions:
  "(q, r) \<in> set (rep_positions P lo hi p s) \<longleftrightarrow>
     (\<exists>t. s = t @ r \<and> q = last_opt p t \<and> list_all P t \<and> lo \<le> length t \<and>
        (case hi of None \<Rightarrow> True | Some n \<Rightarrow> length t \<le> n))" (is "_ \<longleftrightarrow> ?rhs")
proof -
  let ?N = "length (takeWhile P s)"
  have "(q, r) \<in> set (rep_positions P lo hi p s) \<longleftrightarrow>
     (\<exists>k. lo \<le> k \<and> k \<le> ?N \<and> (case hi of None \<Rightarrow> True | Some n \<Rightarrow> k \<le> n) \<and>
        q = last_opt p (take k s) \<and> r = drop k s)"
    by (cases hi)
      (auto simp: rep_positions_def run_positions_upt take_map drop_map take_upt_0 image_iff less_Suc_eq_le
        simp del: upt_Suc)
  also have "\<dots> \<longleftrightarrow> ?rhs"
  proof
    assume "\<exists>k. lo \<le> k \<and> k \<le> ?N \<and> (case hi of None \<Rightarrow> True | Some n \<Rightarrow> k \<le> n) \<and>
      q = last_opt p (take k s) \<and> r = drop k s"
    then obtain k where k: "lo \<le> k" "k \<le> ?N" "case hi of None \<Rightarrow> True | Some n \<Rightarrow> k \<le> n"
      "q = last_opt p (take k s)" "r = drop k s" by blast
    then have "list_all P (take k s)" "k \<le> length s" using list_all_takeWhile by blast+
    with k show ?rhs by (intro exI [of _ "take k s"]) (simp add: min_absorb2 split: option.splits)
  next
    assume ?rhs
    then obtain t where t: "s = t @ r" "q = last_opt p t" "list_all P t" "lo \<le> length t"
      "case hi of None \<Rightarrow> True | Some n \<Rightarrow> length t \<le> n" by blast
    then have "length t \<le> ?N" using list_all_takeWhile [of P "length t" s] by simp
    with t show "\<exists>k. lo \<le> k \<and> k \<le> ?N \<and> (case hi of None \<Rightarrow> True | Some n \<Rightarrow> k \<le> n) \<and>
      q = last_opt p (take k s) \<and> r = drop k s"
      by (intro exI [of _ "length t"]) simp
  qed
  finally show ?thesis .
qed

subsection \<open>The search finds exactly what a pattern denotes\<close>

theorem matches_denotes:
  "(q, r, g') \<in> set (matches a (p, s, g)) \<longleftrightarrow>
     (\<exists>t new. s = t @ r \<and> q = last_opt p t \<and> g' = new @ g \<and> denotes a p t r new)"
proof (induction a arbitrary: p s g q r g')
  case (Seq a b)
  have "(q, r, g') \<in> set (matches (Seq a b) (p, s, g)) \<longleftrightarrow>
     (\<exists>q1 r1 g1. (q1, r1, g1) \<in> set (matches a (p, s, g)) \<and> (q, r, g') \<in> set (matches b (q1, r1, g1)))"
    by auto
  also have "\<dots> \<longleftrightarrow> (\<exists>t new. s = t @ r \<and> q = last_opt p t \<and> g' = new @ g \<and> denotes (Seq a b) p t r new)"
    unfolding Seq.IH by fastforce
  finally show ?case .
next
  case (Cls P)
  then show ?case by (cases s) auto
next
  case (Alt a b)
  then show ?case by auto
next
  case (Opt a)
  then show ?case by auto
next
  case (Rep greedy P lo hi)
  have "(q, r, g') \<in> set (matches (Rep greedy P lo hi) (p, s, g)) \<longleftrightarrow>
     g' = g \<and> (q, r) \<in> set (rep_positions P lo hi p s)"
    by (cases greedy) (force simp: Let_def image_iff)+
  then show ?case by (auto simp: set_rep_positions)
next
  case (Grp k a)
  have "(q, r, g') \<in> set (matches (Grp k a) (p, s, g)) \<longleftrightarrow>
     (\<exists>g1. (q, r, g1) \<in> set (matches a (p, s, g)) \<and> g' = (k, take (length s - length r) s) # g1)"
    by (force simp: image_iff)
  then show ?case unfolding Grp.IH by auto
qed auto

lemma matches_Nil:
  "matches a (p, s, g) = [] \<longleftrightarrow> \<not> (\<exists>t r new. s = t @ r \<and> denotes a p t r new)"
proof -
  have "matches a (p, s, g) = [] \<longleftrightarrow> \<not> (\<exists>q r g'. (q, r, g') \<in> set (matches a (p, s, g)))"
    by (cases "matches a (p, s, g)") auto
  then show ?thesis unfolding matches_denotes by blast
qed

text \<open>The search tries the positions from left to right and stops at the first with a match.\<close>

definition found_in :: "rx \<Rightarrow> char option \<Rightarrow> string \<Rightarrow> bool" where
  "found_in a p s \<longleftrightarrow> (\<exists>u t q g. s = u @ t @ q \<and> denotes a (last_opt p u) t q g)"

lemma found_in_Nil: "found_in a p [] \<longleftrightarrow> (\<exists>t q g. [] = t @ q \<and> denotes a p t q g)"
  by (simp add: found_in_def)

lemma found_in_Cons:
  "found_in a p (c # s) \<longleftrightarrow>
     (\<exists>t q g. c # s = t @ q \<and> denotes a p t q g) \<or> found_in a (Some c) s"
proof (intro iffI)
  assume "found_in a p (c # s)"
  then obtain u t q g where "c # s = u @ t @ q" "denotes a (last_opt p u) t q g"
    unfolding found_in_def by blast
  then show "(\<exists>t q g. c # s = t @ q \<and> denotes a p t q g) \<or> found_in a (Some c) s"
    unfolding found_in_def by (cases u) auto
next
  assume "(\<exists>t q g. c # s = t @ q \<and> denotes a p t q g) \<or> found_in a (Some c) s"
  then show "found_in a p (c # s)"
  proof
    assume "\<exists>t q g. c # s = t @ q \<and> denotes a p t q g"
    then have "\<exists>t q g. c # s = [] @ t @ q \<and> denotes a (last_opt p []) t q g" by simp
    then show ?thesis unfolding found_in_def by blast
  next
    assume "found_in a (Some c) s"
    then obtain u t q g where "s = u @ t @ q" "denotes a (last_opt (Some c) u) t q g"
      unfolding found_in_def by blast
    then have "c # s = (c # u) @ t @ q \<and> denotes a (last_opt p (c # u)) t q g" by simp
    then show ?thesis unfolding found_in_def by blast
  qed
qed

lemma find_from_iff: "find_from a p s = None \<longleftrightarrow> \<not> found_in a p s"
proof (induction s arbitrary: p)
  case Nil
  have "find_from a p [] = None \<longleftrightarrow> matches a (p, [], []) = []"
    by (auto split: list.splits)
  also have "\<dots> \<longleftrightarrow> \<not> found_in a p []"
    unfolding matches_Nil found_in_Nil by blast
  finally show ?case .
next
  case (Cons c s)
  have "find_from a p (c # s) = None \<longleftrightarrow> matches a (p, c # s, []) = [] \<and> find_from a (Some c) s = None"
    by (simp split: list.splits prod.splits)
  also have "\<dots> \<longleftrightarrow> \<not> found_in a p (c # s)"
    unfolding matches_Nil Cons.IH found_in_Cons by blast
  finally show ?case .
qed

lemma find_from_Some:
  "find_from a p s = Some g \<Longrightarrow> \<exists>u t q. s = u @ t @ q \<and> denotes a (last_opt p u) t q g"
proof (induction s arbitrary: p)
  case Nil
  then obtain q r where "(q, r, g) \<in> set (matches a (p, [], []))"
    by (auto split: list.splits)
  then show ?case unfolding matches_denotes by auto
next
  case (Cons c s)
  show ?case
  proof (cases "matches a (p, c # s, [])")
    case Nil
    with Cons.prems have "find_from a (Some c) s = Some g" by simp
    then obtain u t q where "s = u @ t @ q" "denotes a (last_opt (Some c) u) t q g"
      using Cons.IH by blast
    then show ?thesis by (intro exI [of _ "c # u"] exI [of _ t] exI [of _ q]) simp
  next
    case (Cons st sts)
    with Cons.prems obtain q r where "(q, r, g) \<in> set (matches a (p, c # s, []))"
      by (auto split: prod.splits)
    then obtain t where "c # s = t @ r" "denotes a p t r g" unfolding matches_denotes by auto
    then show ?thesis by (intro exI [of _ "[]"] exI [of _ t] exI [of _ r]) simp
  qed
qed

text \<open>A pattern is not found exactly when it denotes no part of the text, and what is found is denoted.\<close>

theorem find_submatch_None:
  "find_submatch a s = None \<longleftrightarrow>
     \<not> (\<exists>u t q g. s = u @ t @ q \<and> denotes a (last_opt None u) t q g)"
  by (simp add: find_submatch_def find_from_iff found_in_def)

theorem find_submatch_Some:
  "find_submatch a s = Some g \<Longrightarrow> \<exists>u t q. s = u @ t @ q \<and> denotes a (last_opt None u) t q g"
  by (simp add: find_submatch_def find_from_Some)

text \<open>A denoted text at the front of the input is never skipped.\<close>

lemma find_submatch_front:
  assumes "denotes a None t q g"
  obtains t' q' g' where "find_submatch a (t @ q) = Some g'" "t @ q = t' @ q'" "denotes a None t' q' g'"
proof -
  from assms have "matches a (None, t @ q, []) \<noteq> []" by (auto simp: matches_Nil)
  then obtain c r g' sts where m: "matches a (None, t @ q, []) = (c, r, g') # sts"
    by (cases "matches a (None, t @ q, [])") auto
  then have "find_submatch a (t @ q) = Some g'"
    unfolding find_submatch_def by (cases "t @ q") simp_all
  moreover from m have "(c, r, g') \<in> set (matches a (None, t @ q, []))" by simp
  then obtain t' where "t @ q = t' @ r" "denotes a None t' r g'"
    unfolding matches_denotes by auto
  ultimately show ?thesis using that by blast
qed

lemma denotes_lit [simp]: "denotes (lit w) p t q g \<longleftrightarrow> t = w \<and> g = []"
  by (induction w arbitrary: p t q g) auto

lemma denotes_SeqI:
  "denotes a p u (v @ q) g1 \<Longrightarrow> denotes b (last_opt p u) v q g2 \<Longrightarrow> denotes (Seq a b) p (u @ v) q (g2 @ g1)"
  by auto

lemma denotes_Seq_Cls:
  assumes "P c" "denotes b (Some c) v q g"
  shows "denotes (Seq (Cls P) b) p (c # v) q g"
  using denotes_SeqI [of "Cls P" p "[c]" v q "[]" b g] assms by simp

end
