(* ===== verification/Config.thy ===== *)
theory Config
  imports Prelude
begin

text \<open>
  The named constants of \<open>internal/config/constants.go\<close>. Counts are \<open>nat\<close>; numbers that enter
  duration arithmetic are \<open>int\<close>. Nothing in the repository reads the two about retention.
\<close>

definition PollIntervalSec :: int where [config_defs]: "PollIntervalSec = 30"
definition PollCycleTimeoutSec :: int where [config_defs]: "PollCycleTimeoutSec = 25"
definition PublishPhaseBudgetSec :: int where [config_defs]: "PublishPhaseBudgetSec = 15"
definition PerPublishPutTimeoutSec :: int where [config_defs]: "PerPublishPutTimeoutSec = 3"
definition PublishPutMaxRetries :: nat where [config_defs]: "PublishPutMaxRetries = 1"
definition PublishPutRetryDelayMs :: int where [config_defs]: "PublishPutRetryDelayMs = 200"
definition PublishConcurrency :: nat where [config_defs]: "PublishConcurrency = 4"
definition NWSResponseMaxBytes :: nat where [config_defs]: "NWSResponseMaxBytes = 32 * 1024 * 1024"
definition SPCResponseMaxBytes :: nat where [config_defs]: "SPCResponseMaxBytes = 4 * 1024 * 1024"
definition HTTPClientTimeoutSec :: int where [config_defs]: "HTTPClientTimeoutSec = 30"
definition RetentionDays :: nat where [config_defs]: "RetentionDays = 30"
definition RetentionRunHourUTC :: nat where [config_defs]: "RetentionRunHourUTC = 4"
definition HTTPRetryMaxAttempts :: nat where [config_defs]: "HTTPRetryMaxAttempts = 3"
definition HTTPRetryBaseDelayMs :: int where [config_defs]: "HTTPRetryBaseDelayMs = 500"
definition HTTPRetryMaxDelayMs :: int where [config_defs]: "HTTPRetryMaxDelayMs = 2000"
definition HTTPRetryNextAttemptFloorMs :: int where [config_defs]: "HTTPRetryNextAttemptFloorMs = 250"
definition AlertsFetchBudgetPercent :: int where [config_defs]: "AlertsFetchBudgetPercent = 50"
definition SPCFetchBudgetPercent :: int where [config_defs]: "SPCFetchBudgetPercent = 20"
definition HealthPort :: nat where [config_defs]: "HealthPort = 8080"
definition HealthStalenessMultiplier :: int where [config_defs]: "HealthStalenessMultiplier = 3"

end
