(* ===== verification/Nws_Types.thy ===== *)
theory Nws_Types
  imports Go_Strings
begin

text \<open>
  The wire types of \<open>internal/nws/types.go\<close>. A nil map or slice reads like an empty one, so the
  \<open>parameters\<close> map is a partial map and slices are lists; a raw JSON message is its text.
\<close>

type_synonym params = "string \<Rightarrow> string list option"

record alert_geocode =
  SAME :: "string list"
  UGC :: "string list"

record alert_reference =
  ref_ID :: string
  Identifier :: string
  Sender :: string
  Sent :: string

record alert_properties =
  ID :: string
  Event :: string
  Severity :: string
  Urgency :: string
  Headline :: string
  Description :: string
  Instruction :: string
  AreaDesc :: string
  SenderName :: string
  Effective :: string
  Expires :: string
  Status :: string
  MessageType :: string
  Category :: string
  Response :: string
  Parameters :: params
  Geocode :: alert_geocode
  References :: "alert_reference list"

record alert =
  alert_ID :: string
  alert_Type :: string
  Properties :: alert_properties
  Geometry :: string

record alerts_response =
  response_Type :: string
  Features :: "alert list"

text \<open>A properties value with the fields a test case names, every other field empty.\<close>

definition blank_properties :: alert_properties where
  "blank_properties =
     \<lparr>ID = '''', Event = '''', Severity = '''', Urgency = '''', Headline = '''', Description = '''',
      Instruction = '''', AreaDesc = '''', SenderName = '''', Effective = '''', Expires = '''',
      Status = '''', MessageType = '''', Category = '''', Response = '''', Parameters = Map.empty,
      Geocode = \<lparr>SAME = [], UGC = []\<rparr>, References = []\<rparr>"

end
