(* ===== verification/Fips.thy ===== *)
theory Fips
  imports Go_Strings
begin

text \<open>
  The FIPS state table of \<open>internal/nws/fips.go\<close>: the state digits of a SAME code and the
  set of recognised abbreviations, which is derived from the table.
\<close>

definition fips_state_codes :: "(string \<times> string) list" where
  "fips_state_codes =
     [(''01'', ''AL''), (''02'', ''AK''), (''04'', ''AZ''), (''05'', ''AR''),
      (''06'', ''CA''), (''08'', ''CO''), (''09'', ''CT''), (''10'', ''DE''),
      (''11'', ''DC''), (''12'', ''FL''), (''13'', ''GA''), (''15'', ''HI''),
      (''16'', ''ID''), (''17'', ''IL''), (''18'', ''IN''), (''19'', ''IA''),
      (''20'', ''KS''), (''21'', ''KY''), (''22'', ''LA''), (''23'', ''ME''),
      (''24'', ''MD''), (''25'', ''MA''), (''26'', ''MI''), (''27'', ''MN''),
      (''28'', ''MS''), (''29'', ''MO''), (''30'', ''MT''), (''31'', ''NE''),
      (''32'', ''NV''), (''33'', ''NH''), (''34'', ''NJ''), (''35'', ''NM''),
      (''36'', ''NY''), (''37'', ''NC''), (''38'', ''ND''), (''39'', ''OH''),
      (''40'', ''OK''), (''41'', ''OR''), (''42'', ''PA''), (''44'', ''RI''),
      (''45'', ''SC''), (''46'', ''SD''), (''47'', ''TN''), (''48'', ''TX''),
      (''49'', ''UT''), (''50'', ''VT''), (''51'', ''VA''), (''53'', ''WA''),
      (''54'', ''WV''), (''55'', ''WI''), (''56'', ''WY''), (''60'', ''AS''),
      (''66'', ''GU''), (''69'', ''MP''), (''72'', ''PR''), (''78'', ''VI'')]"

definition valid_state_abbrevs :: "string set" where
  "valid_state_abbrevs = set (map snd fips_state_codes)"

definition is_valid_state_code :: "string \<Rightarrow> bool" where
  "is_valid_state_code s \<longleftrightarrow> s \<in> valid_state_abbrevs"

text \<open>\<open>None\<close> is the pair \<open>("", false)\<close> of the source.\<close>

definition state_for_same_code :: "string \<Rightarrow> string option" where
  "state_for_same_code same =
     (if length same < 3 then None else map_of fips_state_codes (take 2 (drop 1 same)))"

lemma distinct_fips_codes: "distinct (map fst fips_state_codes)"
  by code_simp

lemma distinct_fips_abbrevs: "distinct (map snd fips_state_codes)"
  by code_simp

lemma fips_shape:
  "list_all (\<lambda>(d, a). length d = 2 \<and> list_all is_digit d \<and> length a = 2 \<and> list_all is_upper a)
     fips_state_codes"
  by code_simp

lemma valid_state_shape:
  "is_valid_state_code s \<Longrightarrow> length s = 2 \<and> list_all is_upper s"
  using fips_shape by (auto simp: is_valid_state_code_def valid_state_abbrevs_def list_all_iff)

lemma state_for_same_code_valid: "state_for_same_code c = Some s \<Longrightarrow> is_valid_state_code s"
  by (force simp: state_for_same_code_def is_valid_state_code_def valid_state_abbrevs_def
      split: if_splits dest: map_of_SomeD)

lemma state_for_same_code_surj:
  assumes "is_valid_state_code s"
  shows "\<exists>d. length d = 2 \<and> list_all is_digit d \<and> (\<forall>p county. state_for_same_code (p # d @ county) = Some s)"
proof -
  from assms obtain d where d: "(d, s) \<in> set fips_state_codes"
    by (auto simp: is_valid_state_code_def valid_state_abbrevs_def)
  then have "length d = 2 \<and> list_all is_digit d" using fips_shape by (auto simp: list_all_iff)
  moreover from d have "map_of fips_state_codes d = Some s"
    by (simp add: distinct_fips_codes)
  ultimately show ?thesis
    by (intro exI [of _ d]) (simp add: state_for_same_code_def)
qed

end
