(* ===== verification/Vtec.thy ===== *)
theory Vtec
  imports Go_Regexp Nws_Types
begin

text \<open>
  The P-VTEC parser of \<open>internal/nws/vtec.go\<close>. The \<open>parameters\<close> map of an alert is a partial
  map; a nil map reads like an empty one. A parser that returns \<open>(nil, nil)\<close>, \<open>(nil, err)\<close> or
  \<open>(v, nil)\<close> returns \<open>Inr None\<close>, \<open>Inl err\<close> or \<open>Inr (Some v)\<close> here.
\<close>

record vtec =
  ProductClass :: string
  Action :: string
  Office :: string
  Phenomenon :: string
  Significance :: string
  ETN :: string

definition event_id :: "vtec \<Rightarrow> string" where
  "event_id v = Office v @ ''.'' @ Phenomenon v @ ''.'' @ Significance v @ ''.'' @ ETN v"

definition pvtec_re :: rx where
  "pvtec_re =
     seqs [lit ''/'', Grp 1 (Cls (\<lambda>c. c \<in> set ''OTEX'')), lit ''.'',
           Grp 2 (Rep True is_upper 3 (Some 3)), lit ''.'',
           Grp 3 (Rep True is_upper 4 (Some 4)), lit ''.'',
           Grp 4 (Rep True is_upper 2 (Some 2)), lit ''.'',
           Grp 5 (Cls is_upper), lit ''.'',
           Grp 6 (Rep True is_digit 4 (Some 4)), lit ''.'']"

datatype vtec_error = NoParseablePVTEC "string list"

definition vtec_of_groups :: "captures \<Rightarrow> vtec" where
  "vtec_of_groups m =
     \<lparr>ProductClass = group 1 m, Action = group 2 m, Office = group 3 m, Phenomenon = group 4 m,
      Significance = group 5 m, ETN = group 6 m\<rparr>"

text \<open>The loop over the entries: \<open>Inr v\<close> when it returned early, else \<open>Inl sawNonBlank\<close>.\<close>

fun vtec_loop :: "bool \<Rightarrow> string list \<Rightarrow> bool + vtec" where
  "vtec_loop saw [] = Inl saw"
| "vtec_loop saw (s # ss) =
     (let s' = trim_space s
      in if s' = '''' then vtec_loop saw ss
         else case find_submatch pvtec_re s' of
           None \<Rightarrow> vtec_loop True ss
         | Some m \<Rightarrow> Inr (vtec_of_groups m))"

definition parse_vtec :: "params \<Rightarrow> vtec_error + vtec option" where
  "parse_vtec params =
     (case params ''VTEC'' of
        None \<Rightarrow> Inr None
      | Some raw \<Rightarrow>
          if raw = [] then Inr None
          else case vtec_loop False raw of
            Inr v \<Rightarrow> Inr (Some v)
          | Inl sawNonBlank \<Rightarrow> if \<not> sawNonBlank then Inr None else Inl (NoParseablePVTEC raw))"

section \<open>P-VTEC texts\<close>

definition wf_vtec :: "vtec \<Rightarrow> bool" where
  "wf_vtec v \<longleftrightarrow>
     ProductClass v \<in> {''O'', ''T'', ''E'', ''X''} \<and>
     length (Action v) = 3 \<and> list_all is_upper (Action v) \<and>
     length (Office v) = 4 \<and> list_all is_upper (Office v) \<and>
     length (Phenomenon v) = 2 \<and> list_all is_upper (Phenomenon v) \<and>
     length (Significance v) = 1 \<and> list_all is_upper (Significance v) \<and>
     length (ETN v) = 4 \<and> list_all is_digit (ETN v)"

definition pvtec_text :: "vtec \<Rightarrow> string" where
  "pvtec_text v =
     ''/'' @ ProductClass v @ ''.'' @ Action v @ ''.'' @ Office v @ ''.'' @ Phenomenon v @ ''.'' @
     Significance v @ ''.'' @ ETN v @ ''.''"

definition vtec_groups :: "vtec \<Rightarrow> captures" where
  "vtec_groups v =
     [(6, ETN v), (5, Significance v), (4, Phenomenon v), (3, Office v), (2, Action v),
      (1, ProductClass v)]"

lemma vtec_of_vtec_groups [simp]: "vtec_of_groups (vtec_groups v) = v"
  by (simp add: vtec_of_groups_def vtec_groups_def group_def)

lemma denotes_pvtec:
  "denotes pvtec_re p t q g \<longleftrightarrow> (\<exists>v. wf_vtec v \<and> t = pvtec_text v \<and> g = vtec_groups v)"
proof
  assume "denotes pvtec_re p t q g"
  then obtain c a1 a2 a3 d a4 where parts:
      "t = ''/'' @ [c] @ ''.'' @ a1 @ ''.'' @ a2 @ ''.'' @ a3 @ ''.'' @ [d] @ ''.'' @ a4 @ ''.''"
      "g = [(6, a4), (5, [d]), (4, a3), (3, a2), (2, a1), (1, [c])]"
      "c \<in> set ''OTEX''" "list_all is_upper a1" "length a1 = 3" "list_all is_upper a2" "length a2 = 4"
      "list_all is_upper a3" "length a3 = 2" "is_upper d" "list_all is_digit a4" "length a4 = 4"
    unfolding pvtec_re_def by (auto simp del: set_simps)
  let ?v = "\<lparr>ProductClass = [c], Action = a1, Office = a2, Phenomenon = a3, Significance = [d], ETN = a4\<rparr>"
  have "wf_vtec ?v \<and> t = pvtec_text ?v \<and> g = vtec_groups ?v"
    using parts by (auto simp: wf_vtec_def pvtec_text_def vtec_groups_def)
  then show "\<exists>v. wf_vtec v \<and> t = pvtec_text v \<and> g = vtec_groups v" by blast
next
  assume "\<exists>v. wf_vtec v \<and> t = pvtec_text v \<and> g = vtec_groups v"
  then obtain v where v: "wf_vtec v" "t = pvtec_text v" "g = vtec_groups v" by blast
  then obtain d where d: "Significance v = [d]" by (auto simp: wf_vtec_def length_Suc_conv)
  from v d show "denotes pvtec_re p t q g"
    unfolding pvtec_re_def
    by (auto simp: wf_vtec_def pvtec_text_def vtec_groups_def)
qed

text \<open>The fields have fixed widths, so a P-VTEC text can be read in one way only.\<close>

lemma pvtec_text_unique:
  assumes "wf_vtec v" "wf_vtec w" "pvtec_text v @ q = pvtec_text w @ q'"
  shows "v = w"
proof -
  have "length (ProductClass v) = length (ProductClass w)"
    using assms(1,2) by (auto simp: wf_vtec_def)
  then show ?thesis
    using assms by (auto simp: wf_vtec_def pvtec_text_def intro!: vtec.equality)
qed

lemma event_id_unique:
  assumes "wf_vtec v" "wf_vtec w"
  shows "event_id v = event_id w \<longleftrightarrow>
     Office v = Office w \<and> Phenomenon v = Phenomenon w \<and> Significance v = Significance w \<and> ETN v = ETN w"
  using assms by (auto simp: wf_vtec_def event_id_def)

definition has_pvtec :: "string \<Rightarrow> bool" where
  "has_pvtec s \<longleftrightarrow> (\<exists>u v q. wf_vtec v \<and> s = u @ pvtec_text v @ q)"

lemma find_pvtec_None: "find_submatch pvtec_re s = None \<longleftrightarrow> \<not> has_pvtec s"
  by (auto simp: find_submatch_None denotes_pvtec has_pvtec_def)

lemma has_pvtec_code [code]: "has_pvtec s \<longleftrightarrow> \<not> Option.is_none (find_submatch pvtec_re s)"
  using find_pvtec_None [of s] by (simp add: Option.is_none_def)

lemma find_pvtec_Some:
  "find_submatch pvtec_re s = Some g \<Longrightarrow> \<exists>u v q. wf_vtec v \<and> s = u @ pvtec_text v @ q \<and> g = vtec_groups v"
  by (drule find_submatch_Some) (auto simp: denotes_pvtec)

lemma find_pvtec_front:
  assumes "wf_vtec v"
  shows "find_submatch pvtec_re (pvtec_text v @ q) = Some (vtec_groups v)"
proof -
  have "denotes pvtec_re None (pvtec_text v) q (vtec_groups v)"
    using assms by (auto simp: denotes_pvtec)
  then obtain t' q' g' where f: "find_submatch pvtec_re (pvtec_text v @ q) = Some g'"
    "pvtec_text v @ q = t' @ q'" "denotes pvtec_re None t' q' g'"
    by (rule find_submatch_front)
  then obtain w where "wf_vtec w" "t' = pvtec_text w" "g' = vtec_groups w"
    by (auto simp: denotes_pvtec)
  with f assms show ?thesis using pvtec_text_unique [of v w q q'] by simp
qed

lemma has_pvtec_not_blank: "has_pvtec s \<Longrightarrow> s \<noteq> ''''"
  by (auto simp: has_pvtec_def pvtec_text_def)

section \<open>The loop over the entries\<close>

lemma vtec_loop_Inl:
  "vtec_loop saw ss = Inl b \<longleftrightarrow>
     (\<forall>s \<in> set ss. \<not> has_pvtec (trim_space s)) \<and> b = (saw \<or> (\<exists>s \<in> set ss. trim_space s \<noteq> ''''))"
proof (induction saw ss rule: vtec_loop.induct)
  case (1 saw)
  then show ?case by auto
next
  case (2 saw s ss)
  show ?case
  proof (cases "trim_space s = ''''")
    case True
    with 2 show ?thesis by (auto simp: Let_def dest: has_pvtec_not_blank)
  next
    case False
    then show ?thesis
      using 2 find_pvtec_None [of "trim_space s"]
      by (cases "find_submatch pvtec_re (trim_space s)") (auto simp: Let_def)
  qed
qed

lemma vtec_loop_Inr:
  "vtec_loop saw ss = Inr v \<Longrightarrow>
     \<exists>pre s post u q. ss = pre @ s # post \<and> (\<forall>x \<in> set pre. \<not> has_pvtec (trim_space x)) \<and>
       wf_vtec v \<and> trim_space s = u @ pvtec_text v @ q"
proof (induction saw ss rule: vtec_loop.induct)
  case (1 saw)
  then show ?case by simp
next
  case (2 saw s ss)
  consider (skip) b where "vtec_loop b ss = Inr v" "\<not> has_pvtec (trim_space s)"
    | (hit) m where "find_submatch pvtec_re (trim_space s) = Some m" "v = vtec_of_groups m"
    using 2(3) find_pvtec_None [of "trim_space s"]
    by (auto simp: Let_def dest: has_pvtec_not_blank split: if_splits option.splits)
  then show ?case
  proof cases
    case skip
    then have "find_submatch pvtec_re (trim_space s) = None" by (simp add: find_pvtec_None)
    with skip have "\<exists>pre x post u q. ss = pre @ x # post \<and> (\<forall>y \<in> set pre. \<not> has_pvtec (trim_space y)) \<and>
       wf_vtec v \<and> trim_space x = u @ pvtec_text v @ q"
      using 2 by (auto simp: Let_def split: if_splits option.splits)
    then obtain pre x post u q where
      "ss = pre @ x # post" "\<forall>y \<in> set pre. \<not> has_pvtec (trim_space y)" "wf_vtec v"
      "trim_space x = u @ pvtec_text v @ q" by blast
    with skip show ?thesis
      by (intro exI [of _ "s # pre"] exI [of _ x] exI [of _ post] exI [of _ u] exI [of _ q]) simp
  next
    case hit
    from find_pvtec_Some [OF hit(1)] obtain u w q where
      "wf_vtec w" "trim_space s = u @ pvtec_text w @ q" "m = vtec_groups w" by blast
    with hit show ?thesis
      by (intro exI [of _ "[]"] exI [of _ s] exI [of _ ss] exI [of _ u] exI [of _ q]) simp
  qed
qed

lemma vtec_loop_skip:
  "(\<forall>x \<in> set pre. \<not> has_pvtec (trim_space x)) \<Longrightarrow>
     vtec_loop saw (pre @ ss) = vtec_loop (saw \<or> (\<exists>x \<in> set pre. trim_space x \<noteq> '''')) ss"
proof (induction pre arbitrary: saw)
  case Nil
  then show ?case by simp
next
  case (Cons x pre)
  then show ?case
    using find_pvtec_None [of "trim_space x"]
    by (cases "trim_space x = ''''") (simp_all add: Let_def)
qed

section \<open>Properties\<close>

text \<open>
  Every decoded P-VTEC has the fixed-width operational shape, and its text occurs in the
  first entry of the VTEC parameter that holds any P-VTEC; entries without one (blank, or a
  hydrologic H-VTEC) are passed over.
\<close>

theorem parse_vtec_sound:
  assumes "parse_vtec ps = Inr (Some v)"
  shows "wf_vtec v \<and> (\<exists>pre s post u q. ps ''VTEC'' = Some (pre @ s # post) \<and>
     (\<forall>x \<in> set pre. \<not> has_pvtec (trim_space x)) \<and> trim_space s = u @ pvtec_text v @ q)"
proof -
  from assms obtain raw where raw: "ps ''VTEC'' = Some raw" "vtec_loop False raw = Inr v"
    by (auto simp: parse_vtec_def split: option.splits sum.splits if_splits)
  from vtec_loop_Inr [OF raw(2)] raw(1) show ?thesis by blast
qed

text \<open>
  C29: parsing inverts printing. An entry that is the text of a well-formed P-VTEC followed by
  anything (the begin and end times), after entries that hold none, decodes to that P-VTEC.
\<close>

theorem parse_vtec_roundtrip:
  assumes "wf_vtec v" and "ps ''VTEC'' = Some (pre @ s # post)"
    and "\<forall>x \<in> set pre. \<not> has_pvtec (trim_space x)" and "trim_space s = pvtec_text v @ q"
  shows "parse_vtec ps = Inr (Some v)"
proof -
  have "pvtec_text v \<noteq> []" by (simp add: pvtec_text_def)
  then have "vtec_loop False (pre @ s # post) = Inr v"
    using vtec_loop_skip [OF assms(3), of False "s # post"] find_pvtec_front [OF assms(1), of q]
    by (simp add: Let_def assms(4))
  with assms(2) show ?thesis by (simp add: parse_vtec_def)
qed

text \<open>
  The three outcomes. The parser reports format drift exactly when some entry is not blank
  and none holds a P-VTEC, and it reports "no VTEC" exactly when the parameter is absent or every
  entry is blank.
\<close>

theorem parse_vtec_outcomes:
  "((\<exists>e. parse_vtec ps = Inl e) \<longleftrightarrow>
     (\<exists>raw. ps ''VTEC'' = Some raw \<and> (\<exists>s \<in> set raw. trim_space s \<noteq> '''') \<and>
        (\<forall>s \<in> set raw. \<not> has_pvtec (trim_space s)))) \<and>
   (parse_vtec ps = Inr None \<longleftrightarrow>
     (case ps ''VTEC'' of None \<Rightarrow> True | Some raw \<Rightarrow> \<forall>s \<in> set raw. trim_space s = ''''))"
proof (cases "ps ''VTEC''")
  case None
  then show ?thesis by (simp add: parse_vtec_def)
next
  case (Some raw)
  show ?thesis
  proof (cases "vtec_loop False raw")
    case (Inl b)
    with Some show ?thesis using vtec_loop_Inl [of False raw b]
      by (cases raw) (auto simp: parse_vtec_def dest: has_pvtec_not_blank)
  next
    case (Inr v)
    then have "\<exists>s \<in> set raw. has_pvtec (trim_space s)"
      by (fastforce dest: vtec_loop_Inr simp: has_pvtec_def)
    moreover from this have "raw \<noteq> []" by auto
    ultimately show ?thesis using Some Inr
      by (auto simp: parse_vtec_def dest: has_pvtec_not_blank)
  qed
qed

definition sample_vtec :: vtec where
  "sample_vtec =
     \<lparr>ProductClass = ''O'', Action = ''NEW'', Office = ''KOUN'', Phenomenon = ''TO'',
      Significance = ''W'', ETN = ''0015''\<rparr>"

definition sample_params :: params where
  "sample_params =
     [''VTEC'' \<mapsto> ['' '', ''/00000.0.ER.000000T0000Z/'',
                 '' /O.NEW.KOUN.TO.W.0015.240501T0000Z-240501T0030Z/'']]"

theorem parse_vtec_sound_witness:
  "wf_vtec sample_vtec \<and> (\<exists>pre s post u q. sample_params ''VTEC'' = Some (pre @ s # post) \<and>
     (\<forall>x \<in> set pre. \<not> has_pvtec (trim_space x)) \<and> trim_space s = u @ pvtec_text sample_vtec @ q)"
proof (rule parse_vtec_sound)
  show "parse_vtec sample_params = Inr (Some sample_vtec)" by code_simp
qed

theorem parse_vtec_roundtrip_witness:
  "parse_vtec sample_params = Inr (Some sample_vtec)"
proof (rule parse_vtec_roundtrip)
  show "wf_vtec sample_vtec" by code_simp
  show "sample_params ''VTEC'' = Some (['' '', ''/00000.0.ER.000000T0000Z/''] @
      '' /O.NEW.KOUN.TO.W.0015.240501T0000Z-240501T0030Z/'' # [])"
    by (simp add: sample_params_def)
  show "\<forall>x \<in> set ['' '', ''/00000.0.ER.000000T0000Z/'']. \<not> has_pvtec (trim_space x)" by code_simp
  show "trim_space '' /O.NEW.KOUN.TO.W.0015.240501T0000Z-240501T0030Z/'' =
      pvtec_text sample_vtec @ ''240501T0000Z-240501T0030Z/''" by code_simp
qed

text \<open>The witness of the last property shows the drift branch: an entry without a P-VTEC.\<close>

lemma parse_vtec_outcomes_witness:
  "\<exists>e. parse_vtec [''VTEC'' \<mapsto> [''/00000.0.ER.000000T0000Z/'']] = Inl e"
proof -
  have "\<forall>s \<in> set [''/00000.0.ER.000000T0000Z/'']. \<not> has_pvtec (trim_space s)"
    "\<exists>s \<in> set [''/00000.0.ER.000000T0000Z/'']. trim_space s \<noteq> ''''" by code_simp+
  then show ?thesis
    by (intro parse_vtec_outcomes [THEN conjunct1, THEN iffD2] exI [of _ "[''/00000.0.ER.000000T0000Z/'']"])
      simp
qed

end
