(* ===== verification/Tags.thy ===== *)
theory Tags
  imports Go_Regexp
begin

text \<open>
  The Impact-Based Warning tag parser of \<open>internal/nws/tags.go\<close>: the block between the first
  and the second \<open>&&\<close> of a description is read line by line, and each recognised
  KEY...VALUE line sets one field, a later line overwriting an earlier one.
\<close>

section \<open>The tags\<close>

record warning_tags =
  Tornado :: string
  TornadoDamageThreat :: string
  Hail :: string
  MaxHailSize :: string
  Wind :: string
  MaxWindGust :: string
  ThunderstormDamageThreat :: string
  FlashFlood :: string
  FlashFloodDamageThreat :: string
  ExpectedRainfallRate :: string
  SpotterActivation :: string
  Source :: string

definition no_tags :: warning_tags where
  "no_tags =
     \<lparr>Tornado = '''', TornadoDamageThreat = '''', Hail = '''', MaxHailSize = '''', Wind = '''',
      MaxWindGust = '''', ThunderstormDamageThreat = '''', FlashFlood = '''',
      FlashFloodDamageThreat = '''', ExpectedRainfallRate = '''', SpotterActivation = '''',
      Source = ''''\<rparr>"

definition tags_is_empty :: "warning_tags option \<Rightarrow> bool" where
  "tags_is_empty p =
     (case p of
        None \<Rightarrow> True
      | Some t \<Rightarrow>
          Tornado t = '''' \<and> TornadoDamageThreat t = '''' \<and> Hail t = '''' \<and> MaxHailSize t = '''' \<and>
          Wind t = '''' \<and> MaxWindGust t = '''' \<and> ThunderstormDamageThreat t = '''' \<and>
          FlashFlood t = '''' \<and> FlashFloodDamageThreat t = '''' \<and> ExpectedRainfallRate t = '''' \<and>
          SpotterActivation t = '''' \<and> Source t = '''')"

definition tag_keys :: "(string \<times> (string \<Rightarrow> warning_tags \<Rightarrow> warning_tags)) list" where
  "tag_keys =
     [(''TORNADO'', \<lambda>v t. t\<lparr>Tornado := v\<rparr>),
      (''TORNADO DAMAGE THREAT'', \<lambda>v t. t\<lparr>TornadoDamageThreat := v\<rparr>),
      (''HAIL'', \<lambda>v t. t\<lparr>Hail := v\<rparr>),
      (''MAX HAIL SIZE'', \<lambda>v t. t\<lparr>MaxHailSize := v\<rparr>),
      (''WIND'', \<lambda>v t. t\<lparr>Wind := v\<rparr>),
      (''MAX WIND GUST'', \<lambda>v t. t\<lparr>MaxWindGust := v\<rparr>),
      (''THUNDERSTORM DAMAGE THREAT'', \<lambda>v t. t\<lparr>ThunderstormDamageThreat := v\<rparr>),
      (''FLASH FLOOD'', \<lambda>v t. t\<lparr>FlashFlood := v\<rparr>),
      (''FLASH FLOOD DAMAGE THREAT'', \<lambda>v t. t\<lparr>FlashFloodDamageThreat := v\<rparr>),
      (''EXPECTED RAINFALL RATE'', \<lambda>v t. t\<lparr>ExpectedRainfallRate := v\<rparr>),
      (''SPOTTER ACTIVATION'', \<lambda>v t. t\<lparr>SpotterActivation := v\<rparr>),
      (''SOURCE'', \<lambda>v t. t\<lparr>Source := v\<rparr>)]"

section \<open>The parser\<close>

definition key_char :: "char \<Rightarrow> bool" where
  "key_char c \<longleftrightarrow> is_upper c \<or> c = CHR '' '' \<or> c = CHR ''/''"

definition tag_line_re :: rx where
  "tag_line_re =
     seqs [Bol, Grp 1 (seqs [Cls is_upper, Rep True key_char 0 None, Cls is_upper]),
           Rep True (\<lambda>c. c = CHR ''.'') 3 None, Grp 2 (Rep True not_newline 1 None), Eol]"

definition delimiter :: string where "delimiter = ''&&''"

definition normalize_key :: "string \<Rightarrow> string" where
  "normalize_key s = to_upper (join '' '' (str_fields s))"

fun assign_tag ::
  "(string \<times> (string \<Rightarrow> warning_tags \<Rightarrow> warning_tags)) list \<Rightarrow> string \<Rightarrow> string \<Rightarrow> warning_tags \<Rightarrow> warning_tags"
where
  "assign_tag [] key v t = t"
| "assign_tag ((k, assign) # tks) key v t = (if k = key then assign v t else assign_tag tks key v t)"

text \<open>One iteration of the loop over the lines: the field a line sets, if it sets one.\<close>

definition tag_line :: "string \<Rightarrow> (string \<times> string) option" where
  "tag_line line =
     (let l = trim_space line
      in if l = '''' then None
         else case find_submatch tag_line_re l of
           None \<Rightarrow> None
         | Some m \<Rightarrow>
             let key = normalize_key (group 1 m); v = trim_space (group 2 m)
             in if v = '''' then None else Some (key, v))"

fun tags_loop :: "string list \<Rightarrow> warning_tags \<Rightarrow> warning_tags" where
  "tags_loop [] t = t"
| "tags_loop (line # lines) t =
     (case tag_line line of
        None \<Rightarrow> tags_loop lines t
      | Some (key, v) \<Rightarrow> tags_loop lines (assign_tag tag_keys key v t))"

definition tag_block :: "string \<Rightarrow> string option" where
  "tag_block description =
     (case cut description delimiter of
        None \<Rightarrow> None
      | Some (_, block) \<Rightarrow>
          (case cut block delimiter of None \<Rightarrow> Some block | Some (before, _) \<Rightarrow> Some before))"

text \<open>The source's second result, an error, is always nil.\<close>

definition parse_warning_tags :: "string \<Rightarrow> warning_tags option" where
  "parse_warning_tags description =
     (case tag_block description of
        None \<Rightarrow> None
      | Some block \<Rightarrow>
          let tags = tags_loop (split_on (CHR 0x0A) block) no_tags
          in if tags_is_empty (Some tags) then None else Some tags)"

section \<open>What the loop computes\<close>

text \<open>The pairs of the block in order, and the value the last pair of a key gives it.\<close>

definition tag_pairs :: "string \<Rightarrow> (string \<times> string) list" where
  "tag_pairs block = List.map_filter tag_line (split_on (CHR 0x0A) block)"

definition last_value :: "(string \<times> string) list \<Rightarrow> string \<Rightarrow> string" where
  "last_value kvs k = (case map_of (rev kvs) k of None \<Rightarrow> '''' | Some v \<Rightarrow> v)"

definition tags_of :: "(string \<times> string) list \<Rightarrow> warning_tags" where
  "tags_of kvs =
     \<lparr>Tornado = last_value kvs ''TORNADO'',
      TornadoDamageThreat = last_value kvs ''TORNADO DAMAGE THREAT'',
      Hail = last_value kvs ''HAIL'',
      MaxHailSize = last_value kvs ''MAX HAIL SIZE'',
      Wind = last_value kvs ''WIND'',
      MaxWindGust = last_value kvs ''MAX WIND GUST'',
      ThunderstormDamageThreat = last_value kvs ''THUNDERSTORM DAMAGE THREAT'',
      FlashFlood = last_value kvs ''FLASH FLOOD'',
      FlashFloodDamageThreat = last_value kvs ''FLASH FLOOD DAMAGE THREAT'',
      ExpectedRainfallRate = last_value kvs ''EXPECTED RAINFALL RATE'',
      SpotterActivation = last_value kvs ''SPOTTER ACTIVATION'',
      Source = last_value kvs ''SOURCE''\<rparr>"

lemma tags_loop_fold:
  "tags_loop lines t = fold (\<lambda>(k, v). assign_tag tag_keys k v) (List.map_filter tag_line lines) t"
  by (induction lines arbitrary: t) (auto simp: List.map_filter_simps split: option.splits)

lemma last_value_snoc: "last_value (kvs @ [(k', v)]) k = (if k = k' then v else last_value kvs k)"
  by (simp add: last_value_def)

lemma last_value_Nil [simp]: "last_value [] k = ''''"
  by (simp add: last_value_def)

lemma tags_of_Nil: "tags_of [] = no_tags"
  by (simp add: tags_of_def no_tags_def)

lemma tags_of_snoc: "tags_of (kvs @ [(k, v)]) = assign_tag tag_keys k v (tags_of kvs)"
proof (cases "k \<in> fst ` set tag_keys")
  case True
  then show ?thesis
    unfolding tag_keys_def list.set image_insert image_empty insert_iff empty_iff fst_conv
    by (elim disjE FalseE; hypsubst) (simp_all add: tags_of_def last_value_snoc)
next
  case False
  then show ?thesis
    unfolding tag_keys_def list.set image_insert image_empty insert_iff empty_iff fst_conv
    by (simp add: tags_of_def last_value_snoc eq_commute [of _ k])
qed

lemma fold_assign_tags: "fold (\<lambda>(k, v). assign_tag tag_keys k v) kvs no_tags = tags_of kvs"
proof (induction kvs rule: rev_induct)
  case Nil
  then show ?case by (simp add: tags_of_Nil)
next
  case (snoc kv kvs)
  then show ?case by (cases kv) (simp add: tags_of_snoc)
qed

lemma tags_loop_eq: "tags_loop (split_on (CHR 0x0A) block) no_tags = tags_of (tag_pairs block)"
  by (simp add: tags_loop_fold fold_assign_tags tag_pairs_def)

lemma tag_line_value: "tag_line line = Some (k, v) \<Longrightarrow> v \<noteq> ''''"
  by (auto simp: tag_line_def Let_def split: if_splits option.splits)

lemma tag_pairs_values: "(k, v) \<in> set (tag_pairs block) \<Longrightarrow> v \<noteq> ''''"
  by (auto simp: tag_pairs_def List.map_filter_def dest: tag_line_value)

lemma last_value_empty:
  assumes "\<forall>(k, v) \<in> set kvs. v \<noteq> ''''"
  shows "last_value kvs k = '''' \<longleftrightarrow> k \<notin> fst ` set kvs"
proof (cases "map_of (rev kvs) k")
  case None
  then have "last_value kvs k = ''''" by (simp add: last_value_def)
  moreover from None have "k \<notin> fst ` set kvs" by (simp add: map_of_eq_None_iff)
  ultimately show ?thesis by simp
next
  case (Some v)
  then have "(k, v) \<in> set kvs" by (auto dest: map_of_SomeD)
  with assms Some show ?thesis by (force simp: last_value_def)
qed

lemma tags_empty_iff:
  assumes "\<forall>(k, v) \<in> set kvs. v \<noteq> ''''"
  shows "tags_is_empty (Some (tags_of kvs)) \<longleftrightarrow> fst ` set kvs \<inter> fst ` set tag_keys = {}"
  by (simp add: tags_is_empty_def tags_of_def last_value_empty [OF assms] tag_keys_def)

section \<open>Printed tag lines\<close>

text \<open>A value as NWS prints it: trimmed, on one line, not starting with a dot, without \<open>&\<close>.\<close>

definition plain_value :: "string \<Rightarrow> bool" where
  "plain_value v \<longleftrightarrow>
     v \<noteq> '''' \<and> trim_space v = v \<and> hd v \<noteq> CHR ''.'' \<and> CHR 0x0A \<notin> set v \<and> CHR ''&'' \<notin> set v"

definition tag_text :: "string \<times> string \<Rightarrow> string" where
  "tag_text kv = fst kv @ ''...'' @ snd kv"

definition key_shape :: "string \<Rightarrow> bool" where
  "key_shape k \<longleftrightarrow>
     2 \<le> length k \<and> is_upper (hd k) \<and> is_upper (last k) \<and> list_all key_char k \<and> normalize_key k = k"

lemma tag_keys_shape: "list_all (\<lambda>(k, _). key_shape k) tag_keys"
  unfolding tag_keys_def list.pred_inject prod.case
  by (intro conjI TrueI) code_simp+

lemma denotes_tag_line:
  assumes k: "2 \<le> length k" "is_upper (hd k)" "is_upper (last k)" "list_all key_char k"
    and v: "v \<noteq> []" "hd v \<noteq> CHR ''.''"
    and d: "denotes tag_line_re p t q g" "t = k @ ''...'' @ v"
  shows "g = [(2, v), (1, k)]"
proof -
  have no_dot: "\<not> key_char (CHR ''.'')" "\<not> is_upper (CHR ''.'')"
    by (simp_all add: key_char_def is_upper_def code_def)
  from d obtain c m e ds w where parts: "k @ ''...'' @ v = (c # m @ [e]) @ ds @ w"
      "is_upper c" "list_all key_char m" "is_upper e" "list_all (\<lambda>c. c = CHR ''.'') ds" "w \<noteq> []"
      "3 \<le> length ds" "g = [(2, w), (1, c # m @ [e])]"
    unfolding tag_line_re_def by (auto simp: Suc_le_eq)
  obtain ds' where ds: "ds = ''...'' @ ds'" "list_all (\<lambda>c. c = CHR ''.'') ds'"
    using parts(5,7) by (auto simp: Suc_le_length_iff numeral_3_eq_3)
  have "takeWhile key_char (k @ ''...'' @ v) = k"
    using k(4) no_dot by (subst takeWhile_append2) (auto simp: list_all_iff)
  moreover have "takeWhile key_char ((c # m @ [e]) @ ds @ w) = c # m @ [e]"
    using parts(2-4) ds no_dot
    by (subst takeWhile_append2) (auto simp: list_all_iff key_char_def)
  ultimately have "k = c # m @ [e]" using parts(1) by simp
  moreover from this parts(1) ds(1) have "v = ds' @ w" by simp
  moreover from this ds(2) v have "ds' = []" by (cases ds') auto
  ultimately show ?thesis using parts(8) by simp
qed

lemma tag_line_denotes:
  assumes "key_shape k" and "plain_value v"
  shows "denotes tag_line_re None (k @ ''...'' @ v) [] [(2, v), (1, k)]"
proof -
  obtain c k' where ck: "k = c # k'" using assms(1) by (cases k) (auto simp: key_shape_def)
  obtain m e where me: "k' = m @ [e]" using assms(1) ck by (cases k' rule: rev_cases) (auto simp: key_shape_def)
  have "list_all not_newline v"
    using assms(2) by (auto simp: plain_value_def not_newline_def list_all_iff)
  moreover have c: "is_upper c" and "list_all key_char m" "is_upper e"
    using assms(1) ck me by (auto simp: key_shape_def)
  moreover have "v \<noteq> []" using assms(2) by (simp add: plain_value_def)
  ultimately have
    tail: "denotes (seqs [Rep True key_char 0 None, Cls is_upper]) (Some c) (m @ [e]) r []" and
    dots: "denotes (Rep True (\<lambda>c. c = CHR ''.'') 3 None) p ''...'' r []" and
    rest: "denotes (Grp 2 (Rep True not_newline 1 None)) p v r [(2, v)]" for p r
    by (auto simp: Suc_le_eq)
  from denotes_Seq_Cls [of is_upper c, OF c tail] have
    key: "denotes (Grp 1 (seqs [Cls is_upper, Rep True key_char 0 None, Cls is_upper])) None k r [(1, k)]" for r
    unfolding ck me by simp
  have "denotes (seqs [Grp 2 (Rep True not_newline 1 None), Eol]) p v [] [(2, v)]" for p
    using rest [of p "[]"] by simp
  from denotes_SeqI [OF dots [of _ "v @ []"] this]
  have "denotes (seqs [Rep True (\<lambda>c. c = CHR ''.'') 3 None, Grp 2 (Rep True not_newline 1 None), Eol])
    p (''...'' @ v) [] [(2, v)]" for p by simp
  from denotes_SeqI [OF key [of "(''...'' @ v) @ []"] this] show ?thesis
    unfolding tag_line_re_def by simp
qed

lemma tag_line_text:
  assumes "key_shape k" and "plain_value v"
  shows "tag_line (tag_text (k, v)) = Some (k, v)"
proof -
  let ?l = "k @ ''...'' @ v"
  obtain c k' where ck: "k = c # k'" using assms(1) by (cases k) (auto simp: key_shape_def)
  have "no_space_byte c" using assms(1) ck by (auto simp: key_shape_def no_space_byte_def is_upper_def)
  then have "skip_space ?l = None" using ck skip_space_shield by simp
  moreover have "skip_space_rev (rev v @ CHR ''.'' # rev (k @ ''..'')) = None"
    using assms(2) trim_space_ends [of v]
    by (intro skip_space_rev_shield) (auto simp: plain_value_def no_space_byte_def code_def)
  ultimately have trim: "trim_space ?l = ?l" by (intro trim_space_id) simp_all
  note tag_line_denotes [OF assms]
  then obtain t' q' g' where f: "find_submatch tag_line_re (?l @ []) = Some g'"
      "?l @ [] = t' @ q'" "denotes tag_line_re None t' q' g'"
    by (rule find_submatch_front)
  from f(3) have "q' = []" unfolding tag_line_re_def by auto
  with f assms have "g' = [(2, v), (1, k)]"
    by (intro denotes_tag_line [of k v None t' q']) (auto simp: key_shape_def plain_value_def)
  with f(1) have "find_submatch tag_line_re ?l = Some [(2, v), (1, k)]" by simp
  moreover have "?l \<noteq> []" by simp
  ultimately show ?thesis
    using trim assms unfolding tag_line_def tag_text_def fst_conv snd_conv
    by (simp add: Let_def group_def key_shape_def plain_value_def)
qed

section \<open>Properties\<close>

lemma tag_text_no_newline: "key_shape k \<Longrightarrow> plain_value v \<Longrightarrow> CHR 0x0A \<notin> set (tag_text (k, v))"
  by (auto simp: key_shape_def plain_value_def tag_text_def list_all_iff key_char_def is_upper_def code_def)

lemma tag_text_no_amp: "key_shape k \<Longrightarrow> plain_value v \<Longrightarrow> CHR ''&'' \<notin> set (tag_text (k, v))"
  by (auto simp: key_shape_def plain_value_def tag_text_def list_all_iff key_char_def is_upper_def code_def)

definition block_text :: "(string \<times> string) list \<Rightarrow> string" where
  "block_text kvs = [CHR 0x0A] @ concat (map (\<lambda>kv. tag_text kv @ [CHR 0x0A]) kvs)"

lemma tag_pairs_block_text:
  assumes "\<forall>(k, v) \<in> set kvs. key_shape k \<and> plain_value v"
  shows "tag_pairs (block_text kvs) = kvs"
proof -
  have "\<forall>(k, v) \<in> set kvs. CHR 0x0A \<notin> set (tag_text (k, v))"
    using assms tag_text_no_newline by blast
  then have "\<forall>l \<in> set ([] # map tag_text kvs). CHR 0x0A \<notin> set l" by auto
  then have "split_on (CHR 0x0A) (block_text kvs) = [] # map tag_text kvs @ [[]]"
    using split_on_lines [of "[] # map tag_text kvs" "CHR 0x0A" "[]"]
    by (simp add: block_text_def comp_def)
  moreover have "List.map_filter tag_line (map tag_text kvs) = kvs"
    using assms by (induction kvs) (auto simp: List.map_filter_simps tag_line_text)
  moreover have "tag_line [] = None" by (simp add: tag_line_def)
  ultimately show ?thesis
    by (simp add: tag_pairs_def List.map_filter_def)
qed

text \<open>
  C30: the tags are a function of the KEY...VALUE pairs of the block between the first two
  \<open>&&\<close>: each field holds the value of the last pair with its key (empty without one), and the
  result is nil exactly when there is no block or no recognised key in it.
\<close>

theorem parse_warning_tags_spec:
  "parse_warning_tags d =
     (case tag_block d of
        None \<Rightarrow> None
      | Some b \<Rightarrow> if fst ` set (tag_pairs b) \<inter> fst ` set tag_keys = {} then None
                  else Some (tags_of (tag_pairs b)))"
proof (cases "tag_block d")
  case None
  then show ?thesis by (simp add: parse_warning_tags_def)
next
  case (Some b)
  have "\<forall>(k, v) \<in> set (tag_pairs b). v \<noteq> ''''" using tag_pairs_values by blast
  then have e: "tags_is_empty (Some (tags_of (tag_pairs b))) \<longleftrightarrow>
      fst ` set (tag_pairs b) \<inter> fst ` set tag_keys = {}"
    by (rule tags_empty_iff)
  show ?thesis
    by (simp only: parse_warning_tags_def Some option.case Let_def tags_loop_eq e)
qed

text \<open>
  The parser reads back what NWS prints. A block of tag lines with recognised keys between
  two \<open>&&\<close>, after prose and before any other text, gives exactly the tags printed.
\<close>

theorem parse_warning_tags_roundtrip:
  assumes "CHR ''&'' \<notin> set prose" and "kvs \<noteq> []"
    and kvs: "\<forall>(k, v) \<in> set kvs. k \<in> fst ` set tag_keys \<and> plain_value v"
  shows "parse_warning_tags (prose @ ''&&'' @ block_text kvs @ ''&&'' @ rest) = Some (tags_of kvs)"
proof -
  have shapes: "\<forall>(k, v) \<in> set kvs. key_shape k \<and> plain_value v"
    using kvs tag_keys_shape by (fastforce simp: list_all_iff)
  then have "\<forall>(k, v) \<in> set kvs. CHR ''&'' \<notin> set (tag_text (k, v))"
    using tag_text_no_amp by blast
  then have "CHR ''&'' \<notin> set (block_text kvs)" by (auto simp: block_text_def)
  then have "tag_block (prose @ ''&&'' @ block_text kvs @ ''&&'' @ rest) = Some (block_text kvs)"
    using assms(1) by (simp add: tag_block_def delimiter_def cut_append [where sep = "''&''", simplified])
  moreover have "fst ` set kvs \<inter> fst ` set tag_keys \<noteq> {}"
  proof -
    from \<open>kvs \<noteq> []\<close> obtain k v where kv: "(k, v) \<in> set kvs" by (cases kvs) auto
    with kvs have "k \<in> fst ` set tag_keys" by blast
    moreover from kv have "k \<in> fst ` set kvs" by force
    ultimately show ?thesis by blast
  qed
  ultimately show ?thesis
    by (simp add: parse_warning_tags_spec tag_pairs_block_text [OF shapes])
qed

theorem parse_warning_tags_roundtrip_witness:
  "parse_warning_tags (''A storm. '' @ ''&&'' @
      block_text [(''TORNADO'', ''OBSERVED''), (''MAX HAIL SIZE'', ''1.75 IN'')] @ ''&&'' @ '' End'') =
    Some (tags_of [(''TORNADO'', ''OBSERVED''), (''MAX HAIL SIZE'', ''1.75 IN'')])"
proof (rule parse_warning_tags_roundtrip)
  show "CHR ''&'' \<notin> set ''A storm. ''" by simp
  show "[(''TORNADO'', ''OBSERVED''), (''MAX HAIL SIZE'', ''1.75 IN'')] \<noteq> []" by simp
  have "list_all (\<lambda>(k, v). k \<in> set (map fst tag_keys) \<and> plain_value v)
      [(''TORNADO'', ''OBSERVED''), (''MAX HAIL SIZE'', ''1.75 IN'')]" by code_simp
  then show "\<forall>(k, v) \<in> set [(''TORNADO'', ''OBSERVED''), (''MAX HAIL SIZE'', ''1.75 IN'')].
      k \<in> fst ` set tag_keys \<and> plain_value v"
    by (simp only: list_all_iff set_map)
qed

end
