(* ===== verification/Detection.thy ===== *)
theory Detection
  imports Tags Nws_Types
begin

text \<open>
  The tornado detection resolver of \<open>internal/nws/detection.go\<close>: structured parameters first,
  then the \<open>&&\<close> tag block, then a conservative reading of the narrative. The local variable
  \<open>resolved\<close> of the source is true exactly when \<open>det.Detection\<close> has been set; both are the
  \<open>detection_state option\<close> that the tiers hand on.
\<close>

section \<open>The detection record\<close>

datatype detection_state = DetectionRadarIndicated | DetectionObserved

datatype damage_threat = DamageThreatBase | DamageThreatConsiderable | DamageThreatCatastrophic

record tornado_detection =
  Detection :: detection_state
  Confirmed :: bool
  DamageThreat :: damage_threat
  SourceText :: string

datatype detect_error = UnrecognizedDetection string | UnrecognizedTag string

section \<open>Narrative lines\<close>

definition hazard_line_re :: rx where
  "hazard_line_re =
     seqs [Wordb, lit_fold ''HAZARD'', Rep True (\<lambda>c. c = CHR ''.'') 2 None,
           Rep True re_space 0 None, Grp 1 (Rep True not_newline 1 None)]"

definition svr_hazard_exclusion_re :: rx where
  "svr_hazard_exclusion_re =
     seqs [Wordb, Grp 1 (alts [lit_fold ''possible'', lit_fold ''wind'', lit_fold ''hail'',
                               lit_fold ''mph'', lit_fold ''gust'']), Wordb]"

definition source_line_re :: rx where
  "source_line_re =
     seqs [Wordb, lit_fold ''SOURCE'', Rep True (\<lambda>c. c = CHR ''.'') 2 None,
           Rep True re_space 0 None, Grp 1 (Rep True not_newline 1 None)]"

definition is_tornado_hazard :: "string \<Rightarrow> bool" where
  "is_tornado_hazard description =
     (case find_submatch hazard_line_re description of
        None \<Rightarrow> False
      | Some m \<Rightarrow>
          let haz = group 1 m
          in if \<not> contains (to_lower haz) ''tornado'' then False
             else \<not> match_string svr_hazard_exclusion_re haz)"

definition narrative_source :: "string \<Rightarrow> string" where
  "narrative_source description =
     (case find_submatch source_line_re description of
        None \<Rightarrow> ''''
      | Some m \<Rightarrow> trim_right_chars [CHR ''.''] (trim_space (group 1 m)))"

section \<open>Parameters and tokens\<close>

definition first_param :: "params \<Rightarrow> string \<Rightarrow> string option" where
  "first_param ps key =
     (case ps key of None \<Rightarrow> None | Some entries \<Rightarrow> List.find (\<lambda>e. trim_space e \<noteq> '''') entries)"

definition normalize_token :: "string \<Rightarrow> string" where
  "normalize_token s = to_upper (join '' '' (str_fields s))"

section \<open>The tiers\<close>

text \<open>Tier 1: the structured parameters.\<close>

definition tier1_detection :: "params \<Rightarrow> detect_error + detection_state option" where
  "tier1_detection ps =
     (case first_param ps ''tornadoDetection'' of
        None \<Rightarrow> Inr None
      | Some raw \<Rightarrow>
          let tok = normalize_token raw
          in if tok = ''RADAR INDICATED'' then Inr (Some DetectionRadarIndicated)
             else if tok = ''OBSERVED'' then Inr (Some DetectionObserved)
             else if tok = ''POSSIBLE'' then Inr None
             else Inl (UnrecognizedDetection raw))"

definition threat_of_token :: "string \<Rightarrow> damage_threat \<Rightarrow> damage_threat" where
  "threat_of_token tok old =
     (if tok = ''CONSIDERABLE'' then DamageThreatConsiderable
      else if tok = ''CATASTROPHIC'' then DamageThreatCatastrophic
      else old)"

definition tier1_threat :: "params \<Rightarrow> damage_threat" where
  "tier1_threat ps =
     (case first_param ps ''tornadoDamageThreat'' of
        None \<Rightarrow> DamageThreatBase
      | Some raw \<Rightarrow> threat_of_token (normalize_token raw) DamageThreatBase)"

text \<open>Tier 2: the tag block, consulted for what tier 1 left open.\<close>

definition tier2_detection ::
  "detection_state option \<Rightarrow> warning_tags \<Rightarrow> detect_error + detection_state option" where
  "tier2_detection det tags =
     (if det \<noteq> None then Inr det
      else let tok = normalize_token (Tornado tags)
           in if tok = '''' then Inr None
              else if tok = ''RADAR INDICATED'' then Inr (Some DetectionRadarIndicated)
              else if tok = ''OBSERVED'' then Inr (Some DetectionObserved)
              else if tok = ''POSSIBLE'' then Inr None
              else Inl (UnrecognizedTag (Tornado tags)))"

definition tier2_threat :: "damage_threat \<Rightarrow> warning_tags \<Rightarrow> damage_threat" where
  "tier2_threat threat tags =
     (if threat = DamageThreatBase
      then threat_of_token (normalize_token (TornadoDamageThreat tags)) threat else threat)"

text \<open>Tier 3: the narrative, only ever radar indicated.\<close>

definition tier3_detection ::
  "detection_state option \<Rightarrow> string \<Rightarrow> detection_state option" where
  "tier3_detection det description =
     (if det = None \<and> is_tornado_hazard description
         \<and> contains (to_upper (narrative_source description)) ''RADAR INDICATED''
      then Some DetectionRadarIndicated else det)"

definition detect_tornado ::
  "params \<Rightarrow> string \<Rightarrow> detect_error + tornado_detection option" where
  "detect_tornado ps description =
     (case tier1_detection ps of
        Inl e \<Rightarrow> Inl e
      | Inr det1 \<Rightarrow>
          let threat1 = tier1_threat ps;
              tags = parse_warning_tags description
          in case (case tags of None \<Rightarrow> Inr det1 | Some t \<Rightarrow> tier2_detection det1 t) of
               Inl e \<Rightarrow> Inl e
             | Inr det2 \<Rightarrow>
                 let threat2 = (case tags of None \<Rightarrow> threat1 | Some t \<Rightarrow> tier2_threat threat1 t);
                     source2 = (case tags of None \<Rightarrow> '''' | Some t \<Rightarrow> trim_space (Source t));
                     narrative = narrative_source description;
                     source3 = (if source2 = '''' \<and> narrative \<noteq> '''' then narrative else source2)
                 in case tier3_detection det2 description of
                      None \<Rightarrow> Inr None
                    | Some d \<Rightarrow>
                        Inr (Some \<lparr>Detection = d, Confirmed = (d = DetectionObserved),
                                   DamageThreat = threat2, SourceText = source3\<rparr>))"

section \<open>Which tier decides\<close>

text \<open>The token of the tag block that tier 2 reads, if there is a block with tags.\<close>

definition tag_token :: "string \<Rightarrow> string" where
  "tag_token description =
     (case parse_warning_tags description of None \<Rightarrow> '''' | Some t \<Rightarrow> normalize_token (Tornado t))"

definition param_token :: "params \<Rightarrow> string option" where
  "param_token ps = map_option normalize_token (first_param ps ''tornadoDetection'')"

lemma tier1_detection_cases:
  "tier1_detection ps = Inr (Some DetectionObserved) \<longleftrightarrow> param_token ps = Some ''OBSERVED''"
  "tier1_detection ps = Inr (Some DetectionRadarIndicated) \<longleftrightarrow> param_token ps = Some ''RADAR INDICATED''"
  "tier1_detection ps = Inr None \<longleftrightarrow> param_token ps = None \<or> param_token ps = Some ''POSSIBLE''"
  by (auto simp: tier1_detection_def param_token_def Let_def split: option.splits)

lemma tier3_detection_Observed:
  "tier3_detection det d = Some DetectionObserved \<longleftrightarrow> det = Some DetectionObserved"
  by (auto simp: tier3_detection_def)

section \<open>Properties\<close>


text \<open>
  Format drift is reported exactly when a detection token is present and unknown: the
  parameter's, or the tag block's when the parameter left the detection open. POSSIBLE is a known
  value in both places, and free text never causes an error.
\<close>

theorem detect_errors:
  "(\<exists>e. detect_tornado ps d = Inl e) \<longleftrightarrow>
     (case param_token ps of
        Some tok \<Rightarrow> tok \<notin> {''RADAR INDICATED'', ''OBSERVED'', ''POSSIBLE''} \<or>
          tok = ''POSSIBLE'' \<and> tag_token d \<notin> {'''', ''RADAR INDICATED'', ''OBSERVED'', ''POSSIBLE''}
      | None \<Rightarrow> tag_token d \<notin> {'''', ''RADAR INDICATED'', ''OBSERVED'', ''POSSIBLE''})"
proof -
  have tier1: "(\<exists>e. tier1_detection ps = Inl e) \<longleftrightarrow>
      (case param_token ps of None \<Rightarrow> False | Some tok \<Rightarrow>
         tok \<notin> {''RADAR INDICATED'', ''OBSERVED'', ''POSSIBLE''})"
    by (auto simp: tier1_detection_def param_token_def Let_def split: option.splits)
  have tier2: "(\<exists>e. (case parse_warning_tags d of None \<Rightarrow> Inr det1 | Some t \<Rightarrow> tier2_detection det1 t) = Inl e) \<longleftrightarrow>
      det1 = None \<and> tag_token d \<notin> {'''', ''RADAR INDICATED'', ''OBSERVED'', ''POSSIBLE''}" for det1
    by (auto simp: tier2_detection_def tag_token_def Let_def split: option.splits)
  have "(\<exists>e. detect_tornado ps d = Inl e) \<longleftrightarrow>
      (case tier1_detection ps of Inl e \<Rightarrow> True
       | Inr det1 \<Rightarrow> \<exists>e. (case parse_warning_tags d of None \<Rightarrow> Inr det1 | Some t \<Rightarrow> tier2_detection det1 t) = Inl e)"
    by (auto simp: detect_tornado_def Let_def split: sum.splits option.splits)
  also have "\<dots> \<longleftrightarrow> (\<exists>e. tier1_detection ps = Inl e) \<or>
      tier1_detection ps = Inr None \<and> tag_token d \<notin> {'''', ''RADAR INDICATED'', ''OBSERVED'', ''POSSIBLE''}"
    by (simp add: tier2 split: sum.splits)
  finally show ?thesis
    by (auto simp: tier1 tier1_detection_cases split: option.splits)
qed

text \<open>
  The structured parameter has priority. When it says RADAR INDICATED, the alert resolves
  without error to that detection whatever the tag block and the narrative say, and a damage threat
  given as a parameter is not overridden by the tag block.
\<close>

theorem detect_parameter_priority:
  assumes "param_token ps = Some ''RADAR INDICATED''"
  shows "\<exists>det. detect_tornado ps d = Inr (Some det) \<and> Detection det = DetectionRadarIndicated \<and>
    \<not> Confirmed det \<and> (tier1_threat ps \<noteq> DamageThreatBase \<longrightarrow> DamageThreat det = tier1_threat ps)"
proof -
  have "tier1_detection ps = Inr (Some DetectionRadarIndicated)"
    using assms by (simp add: tier1_detection_cases)
  then show ?thesis
    by (auto simp: detect_tornado_def Let_def tier2_detection_def tier3_detection_def tier2_threat_def
        split: option.splits)
qed

text \<open>
  A \<open>tornadoDetection\<close> of POSSIBLE, the embedded-tornado value of a severe thunderstorm
  warning, does not keep an alert out of the snapshot's tornado axis: with a narrative that names a
  tornado hazard and a radar source, the alert resolves to RADAR_INDICATED.
\<close>

theorem detect_possible_falls_through:
  "detect_tornado [''tornadoDetection'' \<mapsto> [''POSSIBLE'']]
     (''HAZARD...Tornado.'' @ [CHR 0x0A] @ ''SOURCE...Radar indicated rotation.'') =
   Inr (Some \<lparr>Detection = DetectionRadarIndicated, Confirmed = False,
              DamageThreat = DamageThreatBase, SourceText = ''Radar indicated rotation''\<rparr>)"
  by code_simp

text \<open>A confirmed tornado read from the tag block, for an alert without the parameter.\<close>

definition sample_description :: string where
  "sample_description =
     ''A tornado.'' @ [CHR 0x0A] @ ''&&'' @ [CHR 0x0A] @ ''TORNADO...OBSERVED'' @ [CHR 0x0A] @ ''&&''"

definition sample_tornado :: tornado_detection where
  "sample_tornado =
     \<lparr>Detection = DetectionObserved, Confirmed = True, DamageThreat = DamageThreatBase,
      SourceText = ''''\<rparr>"


theorem detect_parameter_priority_witness:
  "\<exists>det. detect_tornado [''tornadoDetection'' \<mapsto> ['' radar indicated '']] sample_description = Inr (Some det) \<and>
    Detection det = DetectionRadarIndicated \<and> \<not> Confirmed det \<and>
    (tier1_threat [''tornadoDetection'' \<mapsto> ['' radar indicated '']] \<noteq> DamageThreatBase \<longrightarrow>
      DamageThreat det = tier1_threat [''tornadoDetection'' \<mapsto> ['' radar indicated '']])"
proof (rule detect_parameter_priority)
  show "param_token [''tornadoDetection'' \<mapsto> ['' radar indicated '']] = Some ''RADAR INDICATED''"
    by code_simp
qed

theorem detect_errors_witness:
  "\<exists>e. detect_tornado [''tornadoDetection'' \<mapsto> [''LIKELY'']] '''' = Inl e"
proof -
  have "param_token [''tornadoDetection'' \<mapsto> [''LIKELY'']] = Some ''LIKELY''" by code_simp
  then show ?thesis using detect_errors [of "[''tornadoDetection'' \<mapsto> [''LIKELY'']]" "''''"] by simp
qed

end
