(* ===== verification/Go_Decimal.thy ===== *)
theory Go_Decimal
  imports Complex_Main Go_Strings
begin

text \<open>
  Decimal numbers as the feeds print them: an optional minus sign, digits, and an optional point
  with more digits. \<open>decimal_text\<close> is the text, \<open>decimal_rat\<close> the number it stands for; the parsers
  of coordinates are shown to read the number back from the text.
\<close>

datatype decimal = Decimal (dc_neg: bool) (dc_whole: string) (dc_frac: string)

definition decimal_ok :: "decimal \<Rightarrow> bool" where
  "decimal_ok d \<longleftrightarrow> dc_whole d \<noteq> [] \<and> list_all is_digit (dc_whole d) \<and> list_all is_digit (dc_frac d)"

definition unsigned_text :: "decimal \<Rightarrow> string" where
  "unsigned_text d = dc_whole d @ (if dc_frac d = [] then [] else CHR ''.'' # dc_frac d)"

definition decimal_text :: "decimal \<Rightarrow> string" where
  "decimal_text d = (if dc_neg d then ''-'' else []) @ unsigned_text d"

definition unsigned_rat :: "decimal \<Rightarrow> rat" where
  "unsigned_rat d = of_int (digits_val 0 (dc_whole d @ dc_frac d)) / 10 ^ length (dc_frac d)"

definition decimal_rat :: "decimal \<Rightarrow> rat" where
  "decimal_rat d = (if dc_neg d then - unsigned_rat d else unsigned_rat d)"

section \<open>The characters of a number\<close>

lemma digits_without: "list_all is_digit s \<Longrightarrow> \<not> is_digit c \<Longrightarrow> c \<notin> set s"
  by (auto simp: list_all_iff)

definition number_char :: "char \<Rightarrow> bool" where
  "number_char c \<longleftrightarrow> is_digit c \<or> c = CHR ''.'' \<or> c = CHR ''-''"

lemma not_digit_chars [simp]:
  "\<not> is_digit (CHR ''.'')" "\<not> is_digit (CHR ''-'')" "\<not> is_digit (CHR ''+'')" "\<not> is_digit (CHR ''_'')"
  "\<not> is_digit (CHR '','')" "\<not> is_digit (CHR ''s'')"
  by (simp_all add: is_digit_def code_def)

lemma number_char_facts:
  assumes "number_char c"
  shows "no_space_byte c" "c \<noteq> CHR '',''" "c \<noteq> CHR ''s''" "c \<noteq> CHR 0x0A" "c \<noteq> CHR 0x0D" "c \<noteq> CHR ''_''"
  using assms by (auto simp: number_char_def no_space_byte_def is_digit_def code_def)

lemma unsigned_text_digit_or_point: "decimal_ok d \<Longrightarrow> c \<in> set (unsigned_text d) \<Longrightarrow> is_digit c \<or> c = CHR ''.''"
  by (auto simp: decimal_ok_def unsigned_text_def list_all_iff split: if_splits)

lemma decimal_text_number_char: "decimal_ok d \<Longrightarrow> c \<in> set (decimal_text d) \<Longrightarrow> number_char c"
  by (auto simp: decimal_text_def number_char_def split: if_splits dest: unsigned_text_digit_or_point)

lemma decimal_text_not_Nil: "decimal_ok d \<Longrightarrow> decimal_text d \<noteq> []"
  by (auto simp: decimal_ok_def decimal_text_def unsigned_text_def)

lemma unsigned_text_Cons: "decimal_ok d \<Longrightarrow> \<exists>c r. unsigned_text d = c # r \<and> is_digit c"
  by (cases "dc_whole d") (auto simp: decimal_ok_def unsigned_text_def)

lemma last_decimal_text: "decimal_ok d \<Longrightarrow> is_digit (last (decimal_text d))"
  by (auto simp: decimal_ok_def decimal_text_def unsigned_text_def list_all_iff)

lemma takeWhile_number:
  assumes "decimal_ok d" "list_all (\<lambda>c. P c) (dc_whole d)" "\<not> P (CHR ''.'')"
  shows "takeWhile P (unsigned_text d) = dc_whole d"
    and "dropWhile P (unsigned_text d) = (if dc_frac d = [] then [] else CHR ''.'' # dc_frac d)"
  using assms by (auto simp: unsigned_text_def list_all_iff takeWhile_append dropWhile_append)

text \<open>Trimming keeps a number as it is.\<close>

lemma trim_decimal_text: "decimal_ok d \<Longrightarrow> trim_space (decimal_text d) = decimal_text d"
proof -
  assume d: "decimal_ok d"
  have shield: "no_space_byte c" if "c \<in> set (decimal_text d)" for c
    using number_char_facts(1) [OF decimal_text_number_char [OF d that]] .
  obtain c r where c: "decimal_text d = c # r"
    using decimal_text_not_Nil [OF d] by (cases "decimal_text d") auto
  obtain c' r' where c': "decimal_text d = r' @ [c']"
    using decimal_text_not_Nil [OF d] by (cases "decimal_text d" rule: rev_cases) auto
  show ?thesis
  proof (rule trim_space_id)
    show "skip_space (decimal_text d) = None"
      using shield [of c] unfolding c by (intro skip_space_shield) simp
    show "skip_space_rev (rev (decimal_text d)) = None"
      using shield [of c'] unfolding c' rev_append by (simp add: skip_space_rev_last del: skip_space_rev.simps)
  qed
qed

section \<open>The value of the digits\<close>

lemma foldl_digits:
  "list_all is_digit s \<Longrightarrow> (\<And>c. is_digit c \<Longrightarrow> f c = digit_val c) \<Longrightarrow>
     foldl (\<lambda>n c. n * 10 + f c) n s = digits_val n s"
  by (induction s arbitrary: n) (simp_all add: mult.commute)

end
