(* ===== verification/Motion.thy ===== *)
theory Motion
  imports Complex_Main Go_Decimal Go_Regexp Nws_Types
begin

text \<open>
  The storm motion parser of \<open>internal/nws/motion.go\<close>. A \<open>float64\<close> is the rational it stands
  for; \<open>fl\<close> is the rounding of \<open>strconv.ParseFloat\<close>, \<open>None\<close> where the value is out of the
  range of a \<open>float64\<close>. \<open>parse_time\<close> is \<open>time.Parse(time.RFC3339, _)\<close> as an instant, and \<open>now\<close>
  the reading of the clock that replaces an unreadable timestamp.
\<close>

section \<open>Motion records and errors\<close>

type_synonym point = "rat \<times> rat"

record storm_motion =
  OriginLat :: rat
  OriginLon :: rat
  DirectionDeg :: int
  SpeedKt :: int
  ValidAt :: time
  Points :: "point list"

datatype motion_error =
    NotCanonical string
  | DirectionRange string
  | InvalidSpeed string
  | EmptyCoordinates
  | BadPair string
  | LatSyntax string
  | LonSyntax string
  | LatRange string
  | LonRange string
  | NoPairs string

section \<open>Patterns\<close>

definition motion_re :: rx where
  "motion_re =
     seqs [Bol, Rep True re_space 0 None, Grp 1 (Rep False not_newline 1 None), lit ''...storm...'',
           Grp 2 (Rep True is_digit 1 (Some 3)), lit ''DEG...'', Grp 3 (Rep True is_digit 1 None),
           lit ''KT...'', Grp 4 (Rep False not_newline 1 None), Rep True re_space 0 None, Eol]"

definition number_re :: rx where
  "number_re =
     seqs [Opt (lit ''-''), Rep True is_digit 1 None, Opt (seqs [lit ''.'', Rep True is_digit 1 None])]"

definition pair_re :: rx where
  "pair_re = seqs [Bol, Grp 1 number_re, lit '','', Grp 2 number_re, Eol]"

section \<open>Numbers\<close>

text \<open>The value of a text that \<open>number_re\<close> matches.\<close>

definition unsigned_decimal :: "string \<Rightarrow> rat" where
  "unsigned_decimal s =
     (let whole = takeWhile is_digit s; frac = drop (Suc (length whole)) s
      in of_int (digits_val 0 (whole @ frac)) / 10 ^ length frac)"

definition decimal_val :: "string \<Rightarrow> rat" where
  "decimal_val s =
     (case s of
        [] \<Rightarrow> 0
      | c # r \<Rightarrow> if c = CHR ''-'' then - unsigned_decimal r else unsigned_decimal s)"

definition parse_float :: "(rat \<Rightarrow> rat option) \<Rightarrow> string \<Rightarrow> rat option" where
  "parse_float fl s = fl (decimal_val s)"

section \<open>Coordinate pairs\<close>

definition parse_pair :: "(rat \<Rightarrow> rat option) \<Rightarrow> string \<Rightarrow> motion_error + point" where
  "parse_pair fl f =
     (case find_submatch pair_re f of
        None \<Rightarrow> Inl (BadPair f)
      | Some pm \<Rightarrow>
          (case parse_float fl (group 1 pm) of
             None \<Rightarrow> Inl (LatSyntax f)
           | Some lat \<Rightarrow>
               (case parse_float fl (group 2 pm) of
                  None \<Rightarrow> Inl (LonSyntax f)
                | Some lon \<Rightarrow>
                    if lat < 10 \<or> lat > 75 then Inl (LatRange f)
                    else let lon = (if lon > 0 then - lon else lon)
                         in if lon < -180 \<or> lon > -60 then Inl (LonRange f) else Inr (lat, lon))))"

fun pairs_loop :: "(rat \<Rightarrow> rat option) \<Rightarrow> string list \<Rightarrow> point list \<Rightarrow> motion_error + point list" where
  "pairs_loop fl [] points = Inr points"
| "pairs_loop fl (f # fs) points =
     (case parse_pair fl f of Inl e \<Rightarrow> Inl e | Inr p \<Rightarrow> pairs_loop fl fs (points @ [p]))"

definition parse_coord_pairs :: "(rat \<Rightarrow> rat option) \<Rightarrow> string \<Rightarrow> motion_error + point list" where
  "parse_coord_pairs fl s =
     (let fs = str_fields s in if fs = [] then Inl EmptyCoordinates else pairs_loop fl fs [])"

section \<open>Timestamps and the parser\<close>

definition parse_motion_timestamp :: "(string \<Rightarrow> time option) \<Rightarrow> string \<Rightarrow> time option" where
  "parse_motion_timestamp parse_time s =
     (case parse_time s of
        Some t \<Rightarrow> Some t
      | None \<Rightarrow>
          if has_suffix s ''-00:00'' then parse_time (trim_suffix s ''-00:00'' @ ''+00:00'') else None)"

definition parse_event_motion ::
  "(rat \<Rightarrow> rat option) \<Rightarrow> (string \<Rightarrow> time option) \<Rightarrow> time \<Rightarrow> params \<Rightarrow> motion_error + storm_motion option" where
  "parse_event_motion fl parse_time now ps =
     (case ps ''eventMotionDescription'' of
        None \<Rightarrow> Inr None
      | Some [] \<Rightarrow> Inr None
      | Some (raw # _) \<Rightarrow>
          if trim_space raw = '''' then Inr None
          else case find_submatch motion_re raw of
            None \<Rightarrow> Inl (NotCanonical raw)
          | Some m \<Rightarrow>
              (case atoi (group 2 m) of
                 None \<Rightarrow> Inl (DirectionRange (group 2 m))
               | Some direction \<Rightarrow>
                   if direction < 0 \<or> 360 \<le> direction then Inl (DirectionRange (group 2 m))
                   else case atoi (group 3 m) of
                     None \<Rightarrow> Inl (InvalidSpeed (group 3 m))
                   | Some speed \<Rightarrow>
                       if speed < 0 then Inl (InvalidSpeed (group 3 m))
                       else case parse_coord_pairs fl (group 4 m) of
                         Inl e \<Rightarrow> Inl e
                       | Inr [] \<Rightarrow> Inl (NoPairs (group 4 m))
                       | Inr (p # ps') \<Rightarrow>
                           Inr (Some
                             \<lparr>OriginLat = fst p, OriginLon = snd p, DirectionDeg = direction,
                              SpeedKt = speed,
                              ValidAt = (case parse_motion_timestamp parse_time (group 1 m) of
                                           None \<Rightarrow> now | Some t \<Rightarrow> t),
                              Points = (if ps' = [] then [] else p # ps')\<rparr>)))"

section \<open>Coordinates stay in the box\<close>

definition in_box :: "point \<Rightarrow> bool" where
  "in_box p \<longleftrightarrow> 10 \<le> fst p \<and> fst p \<le> 75 \<and> -180 \<le> snd p \<and> snd p \<le> -60"

lemma parse_pair_in_box: "parse_pair fl f = Inr p \<Longrightarrow> in_box p"
  by (auto simp: parse_pair_def in_box_def Let_def not_less split: option.splits if_splits)

lemma pairs_loop_in_box:
  "pairs_loop fl fs acc = Inr ps \<Longrightarrow> list_all in_box acc \<Longrightarrow> list_all in_box ps"
  by (induction fl fs acc rule: pairs_loop.induct) (auto split: sum.splits dest: parse_pair_in_box)

lemma pairs_loop_map:
  "pairs_loop fl fs acc = Inr ps \<longleftrightarrow> (\<exists>qs. ps = acc @ qs \<and> list_all2 (\<lambda>f q. parse_pair fl f = Inr q) fs qs)"
proof (induction fl fs acc rule: pairs_loop.induct)
  case (1 fl acc)
  then show ?case by auto
next
  case (2 fl f fs acc)
  then show ?case by (cases "parse_pair fl f") (auto simp: list_all2_Cons1)
qed

lemma parse_coord_pairs_Inr:
  "parse_coord_pairs fl s = Inr ps \<longleftrightarrow>
     ps \<noteq> [] \<and> list_all2 (\<lambda>f q. parse_pair fl f = Inr q) (str_fields s) ps"
  by (cases "str_fields s") (auto simp: parse_coord_pairs_def Let_def pairs_loop_map list_all2_Cons1 simp del: pairs_loop.simps)

section \<open>Canonical entries\<close>

text \<open>
  An entry as NWS prints it. The position of the letter s pins the parts down: neither a
  timestamp nor a coordinate list contains it.
\<close>

definition motion_text :: "string \<Rightarrow> string \<Rightarrow> string \<Rightarrow> string \<Rightarrow> string" where
  "motion_text ts d k coords = ts @ ''...storm...'' @ d @ ''DEG...'' @ k @ ''KT...'' @ coords"

definition plain_part :: "string \<Rightarrow> bool" where
  "plain_part t \<longleftrightarrow>
     t \<noteq> [] \<and> no_space_byte (hd t) \<and> no_space_byte (last t) \<and> CHR ''s'' \<notin> set t \<and> list_all not_newline t"

lemma no_space_byte_re_space: "no_space_byte c \<Longrightarrow> \<not> re_space c"
  by (auto simp: no_space_byte_def re_space_def)

lemma spaces_then_plain:
  "list_all re_space ws \<Longrightarrow> ws @ x = t @ y \<Longrightarrow> t \<noteq> [] \<Longrightarrow> no_space_byte (hd t) \<Longrightarrow> ws = []"
  by (cases ws; cases t) (auto dest: no_space_byte_re_space)

lemma digits_then:
  assumes "a @ c # x = b @ c # y" "list_all is_digit a" "list_all is_digit b" "\<not> is_digit c"
  shows "a = b \<and> x = y"
proof -
  have "takeWhile is_digit (a @ c # x) = a" "takeWhile is_digit (b @ c # y) = b"
    using assms(2-4) by (simp_all add: takeWhile_append2 list_all_iff)
  with assms(1) show ?thesis by simp
qed

lemma not_digits: "\<not> is_digit (CHR ''D'')" "\<not> is_digit (CHR ''K'')" "\<not> is_digit (CHR ''s'')"
  by (simp_all add: is_digit_def code_def)

lemma split_at_s:
  assumes "a @ CHR ''s'' # x = b @ CHR ''s'' # y" "CHR ''s'' \<notin> set b" "CHR ''s'' \<notin> set y"
  shows "a = b \<and> x = y"
proof -
  have "CHR ''s'' \<notin> set a"
  proof
    assume "CHR ''s'' \<in> set a"
    then have "count_list a (CHR ''s'') \<noteq> 0" by (metis count_list_0_iff)
    then have "2 \<le> count_list (a @ CHR ''s'' # x) (CHR ''s'')" by simp
    moreover have "count_list (b @ CHR ''s'' # y) (CHR ''s'') = 1"
      using assms(2,3) by (simp add: count_list_0_iff)
    ultimately show False using assms(1) by simp
  qed
  then have "takeWhile (\<lambda>c. c \<noteq> CHR ''s'') (a @ CHR ''s'' # x) = a"
    by (subst takeWhile_append2) auto
  moreover have "takeWhile (\<lambda>c. c \<noteq> CHR ''s'') (b @ CHR ''s'' # y) = b"
    using assms(2) by (subst takeWhile_append2) auto
  ultimately show ?thesis using assms(1) by simp
qed

text \<open>The shape of the pattern, whatever the three literals are.\<close>

lemma denotes_motion_shape:
  assumes "denotes (seqs [Bol, Rep True re_space 0 None, Grp 1 (Rep False not_newline 1 None), lit w1,
      Grp 2 (Rep True is_digit 1 (Some 3)), lit w2, Grp 3 (Rep True is_digit 1 None), lit w3,
      Grp 4 (Rep False not_newline 1 None), Rep True re_space 0 None, Eol]) p t q g"
  shows "\<exists>ws ts d k c sp. t = ws @ ts @ w1 @ d @ w2 @ k @ w3 @ c @ sp \<and> list_all re_space ws \<and>
      ts \<noteq> [] \<and> list_all is_digit d \<and> d \<noteq> [] \<and> length d \<le> 3 \<and> list_all is_digit k \<and> k \<noteq> [] \<and>
      c \<noteq> [] \<and> list_all re_space sp \<and> q = [] \<and> g = [(4, c), (3, k), (2, d), (1, ts)]"
  using assms by (auto simp: Suc_le_eq) blast

lemma denotes_motion_unique:
  assumes plain: "plain_part ts" "plain_part coords"
    and dk: "list_all is_digit d" "list_all is_digit k"
    and den: "denotes motion_re p t q g" "t = motion_text ts d k coords"
  shows "g = [(4, coords), (3, k), (2, d), (1, ts)]"
proof -
  from denotes_motion_shape [OF den(1) [unfolded motion_re_def]]
  obtain ws ts' d' k' c' sp where parts:
      "ts @ ''...storm...'' @ d @ ''DEG...'' @ k @ ''KT...'' @ coords =
         ws @ ts' @ ''...storm...'' @ d' @ ''DEG...'' @ k' @ ''KT...'' @ c' @ sp"
      "list_all re_space ws" "ts' \<noteq> []" "list_all is_digit d'" "list_all is_digit k'" "c' \<noteq> []"
      "list_all re_space sp" "g = [(4, c'), (3, k'), (2, d'), (1, ts')]"
    unfolding den(2) motion_text_def by blast
  have "ws = []"
    using spaces_then_plain [OF parts(2) parts(1) [symmetric]] plain(1) by (simp add: plain_part_def)
  with parts(1) have
    eq: "(ts' @ ''...'') @ CHR ''s'' # ''torm...'' @ d' @ ''DEG...'' @ k' @ ''KT...'' @ c' @ sp =
      (ts @ ''...'') @ CHR ''s'' # ''torm...'' @ d @ ''DEG...'' @ k @ ''KT...'' @ coords" by simp
  have s1: "CHR ''s'' \<notin> set (ts @ ''...'')" using plain(1) by (simp add: plain_part_def)
  have "CHR ''s'' \<notin> set d" "CHR ''s'' \<notin> set k"
    using dk not_digits(3) by (auto simp: list_all_iff)
  then have s2: "CHR ''s'' \<notin> set (''torm...'' @ d @ ''DEG...'' @ k @ ''KT...'' @ coords)"
    using plain(2) by (simp add: plain_part_def)
  from split_at_s [OF eq s1 s2] have "ts' @ ''...'' = ts @ ''...''" and
      rest: "d' @ CHR ''D'' # ''EG...'' @ k' @ ''KT...'' @ c' @ sp = d @ CHR ''D'' # ''EG...'' @ k @ ''KT...'' @ coords"
    by simp_all
  then have "ts' = ts" by simp
  moreover from digits_then [OF rest parts(4) dk(1) not_digits(1)]
  have d: "d' = d" and rest': "k' @ CHR ''K'' # ''T...'' @ c' @ sp = k @ CHR ''K'' # ''T...'' @ coords" by auto
  moreover from digits_then [OF rest' parts(5) dk(2) not_digits(2)]
  have k: "k' = k" and c: "c' @ sp = coords" by auto
  moreover have "sp = []"
    using c plain(2) parts(7) no_space_byte_re_space
    by (cases sp rule: rev_cases) (auto simp: plain_part_def)
  ultimately show ?thesis using parts(8) by simp
qed

lemma denotes_motion:
  assumes plain: "plain_part ts" "plain_part coords"
    and dk: "list_all is_digit d" "list_all is_digit k" "d \<noteq> []" "length d \<le> 3" "k \<noteq> []"
  shows "denotes motion_re None (motion_text ts d k coords) [] [(4, coords), (3, k), (2, d), (1, ts)]"
proof -
  have
    r1: "denotes (Grp 1 (Rep False not_newline 1 None)) p ts q [(1, ts)]" and
    r2: "denotes (Grp 2 (Rep True is_digit 1 (Some 3))) p d q [(2, d)]" and
    r3: "denotes (Grp 3 (Rep True is_digit 1 None)) p k q [(3, k)]" and
    r4: "denotes (Grp 4 (Rep False not_newline 1 None)) p coords q [(4, coords)]" for p q
    using assms by (auto simp: plain_part_def Suc_le_eq)
  have l: "denotes (lit w) p w q []" for w p q by simp
  have e: "denotes (seqs [Rep True re_space 0 None, Eol]) p [] [] []" for p by simp
  note s4 = denotes_SeqI [OF l [of "''KT...''"] denotes_SeqI [OF r4 e]]
  note s3 = denotes_SeqI [OF l [of "''DEG...''"] denotes_SeqI [OF r3 s4]]
  note s2 = denotes_SeqI [OF l [of "''...storm...''"] denotes_SeqI [OF r2 s3]]
  have s0: "denotes Bol None [] q []" "denotes (Rep True re_space 0 None) p [] q []" for p q by simp_all
  from denotes_SeqI [OF s0(1) denotes_SeqI [OF s0(2) denotes_SeqI [OF r1 s2]]]
  show ?thesis unfolding motion_re_def motion_text_def by simp
qed

lemma find_motion:
  assumes "plain_part ts" "plain_part coords"
    and "list_all is_digit d" "list_all is_digit k" "d \<noteq> []" "length d \<le> 3" "k \<noteq> []"
  shows "find_submatch motion_re (motion_text ts d k coords) = Some [(4, coords), (3, k), (2, d), (1, ts)]"
proof -
  obtain t q g where f: "find_submatch motion_re (motion_text ts d k coords @ []) = Some g"
      "motion_text ts d k coords @ [] = t @ q" "denotes motion_re None t q g"
    using find_submatch_front [OF denotes_motion [OF assms]] by blast
  from f(3) have "q = []" unfolding motion_re_def by auto
  with f(2) have "t = motion_text ts d k coords" by simp
  from denotes_motion_unique [OF assms(1-4) f(3) this] f(1) show ?thesis by simp
qed

section \<open>Printed coordinates\<close>

text \<open>
  A coordinate list as NWS prints it: pairs of decimals with a comma between, separated by spaces.
  \<open>printed_as\<close> says which point a pair stands for: the rounded numbers, the longitude counted to
  the west whether or not its sign was printed.
\<close>

definition pair_text :: "decimal \<times> decimal \<Rightarrow> string" where
  "pair_text c = decimal_text (fst c) @ '','' @ decimal_text (snd c)"

definition coords_text :: "(decimal \<times> decimal) list \<Rightarrow> string" where
  "coords_text cs = join '' '' (map pair_text cs)"

definition printed_as :: "(rat \<Rightarrow> rat option) \<Rightarrow> decimal \<times> decimal \<Rightarrow> point \<Rightarrow> bool" where
  "printed_as fl c p \<longleftrightarrow> decimal_ok (fst c) \<and> decimal_ok (snd c) \<and>
     fl (decimal_rat (fst c)) = Some (fst p) \<and>
     (case fl (decimal_rat (snd c)) of None \<Rightarrow> False | Some lon \<Rightarrow> snd p = - \<bar>lon\<bar>)"

lemma decimal_val_text:
  assumes "decimal_ok d"
  shows "decimal_val (decimal_text d) = decimal_rat d"
proof -
  obtain c r where c: "unsigned_text d = c # r" "is_digit c" using unsigned_text_Cons [OF assms] by blast
  from assms have ds: "list_all is_digit (dc_whole d)" by (simp add: decimal_ok_def)
  have frac: "drop (Suc (length (dc_whole d))) (unsigned_text d) = dc_frac d"
    by (simp add: unsigned_text_def)
  have "length (unsigned_text d) - Suc (length (dc_whole d)) = length (dc_frac d)"
    using arg_cong [OF frac, of length] by simp
  then have "unsigned_decimal (unsigned_text d) = unsigned_rat d"
    using takeWhile_number(1) [OF assms ds not_digit_chars(1)] frac
    by (simp add: unsigned_decimal_def unsigned_rat_def Let_def)
  moreover have "c \<noteq> CHR ''-''" using c(2) by auto
  ultimately show ?thesis
    using c(1) by (cases "dc_neg d") (simp_all add: decimal_val_def decimal_text_def decimal_rat_def)
qed

lemma denotes_number_chars:
  "denotes number_re p t q g \<Longrightarrow> g = [] \<and> list_all number_char t"
  unfolding number_re_def by (auto simp: list_all_iff number_char_def)

lemma denotes_number:
  assumes "decimal_ok d"
  shows "denotes number_re p (decimal_text d) q []"
proof -
  have "dc_whole d \<noteq> []" "list_all is_digit (dc_whole d)" "list_all is_digit (dc_frac d)"
    using assms by (auto simp: decimal_ok_def)
  then have "denotes (Rep True is_digit 1 None) p' (dc_whole d) q' [] \<and>
      denotes (Opt (seqs [lit ''.'', Rep True is_digit 1 None])) p'
        (if dc_frac d = [] then [] else CHR ''.'' # dc_frac d) q' []" for p' q'
    using denotes_SeqI [of "lit ''.''" p' "''.''" "dc_frac d" q' "[]"
        "seqs [Rep True is_digit 1 None]" "[]"]
    by (auto simp: Suc_le_eq)
  moreover have "denotes Eps p' [] q' []" for p' q' by simp
  ultimately have parts: "denotes (Rep True is_digit 1 None) p' (dc_whole d) q' []"
      "denotes (Opt (seqs [lit ''.'', Rep True is_digit 1 None])) p'
        (if dc_frac d = [] then [] else CHR ''.'' # dc_frac d) q' []"
      "denotes Eps p' [] q' []" for p' q' by blast+
  from denotes_SeqI [OF parts(1) denotes_SeqI [OF parts(2,3)]]
  have tail: "denotes (seqs [Rep True is_digit 1 None, Opt (seqs [lit ''.'', Rep True is_digit 1 None])])
      p' (unsigned_text d) q []" for p'
    by (simp add: unsigned_text_def)
  have "denotes (Opt (lit ''-'')) p (if dc_neg d then ''-'' else []) q' []" for q' by auto
  from denotes_SeqI [OF this tail] show ?thesis
    by (simp add: number_re_def decimal_text_def)
qed

lemma comma_split:
  assumes "a @ CHR '','' # x = b @ CHR '','' # y" "list_all number_char a" "list_all number_char b"
  shows "a = b \<and> x = y"
proof -
  have "takeWhile number_char (a @ CHR '','' # x) = a" "takeWhile number_char (b @ CHR '','' # y) = b"
    using assms(2,3) by (simp_all add: takeWhile_append2 list_all_iff number_char_def)
  with assms(1) show ?thesis by simp
qed

lemma find_pair:
  assumes "decimal_ok (fst c)" "decimal_ok (snd c)"
  shows "find_submatch pair_re (pair_text c) =
    Some [(2, decimal_text (snd c)), (1, decimal_text (fst c))]"
proof -
  have r: "denotes (Grp k number_re) p (decimal_text d) q [(k, decimal_text d)]" if "decimal_ok d" for k d p q
    using denotes_number [OF that] by simp
  have l: "denotes (lit '','') p '','' q []" for p q by simp
  have e: "denotes (seqs [Eol]) p [] [] []" for p by simp
  have s0: "denotes Bol None [] q []" for q by simp
  from denotes_SeqI [OF s0 denotes_SeqI [OF r [OF assms(1), of 1] denotes_SeqI [OF l
      denotes_SeqI [OF r [OF assms(2), of 2] e]]]]
  have "denotes pair_re None (pair_text c) [] [(2, decimal_text (snd c)), (1, decimal_text (fst c))]"
    by (simp add: pair_re_def pair_text_def)
  then obtain t q g where f: "find_submatch pair_re (pair_text c @ []) = Some g"
      "pair_text c @ [] = t @ q" "denotes pair_re None t q g"
    using find_submatch_front by blast
  from f(3) obtain a b where ab: "t = a @ CHR '','' # b" "q = []" "g = [(2, b), (1, a)]"
      "list_all number_char a"
    unfolding pair_re_def by (auto dest!: denotes_number_chars)
  have "list_all number_char (decimal_text (fst c))"
    using decimal_text_number_char [OF assms(1)] by (auto simp: list_all_iff)
  with ab f(2) have "a = decimal_text (fst c) \<and> b = decimal_text (snd c)"
    by (intro comma_split) (simp_all add: pair_text_def)
  with ab f(1) show ?thesis by simp
qed

definition box_error :: "decimal \<times> decimal \<Rightarrow> point \<Rightarrow> motion_error" where
  "box_error c p = (if fst p < 10 \<or> fst p > 75 then LatRange (pair_text c) else LonRange (pair_text c))"

lemma parse_pair_text:
  assumes "printed_as fl c p"
  shows "parse_pair fl (pair_text c) = (if in_box p then Inr p else Inl (box_error c p))"
proof -
  obtain lat lon where p: "p = (lat, lon)" by (cases p)
  from assms p obtain l where l: "fl (decimal_rat (fst c)) = Some lat" "fl (decimal_rat (snd c)) = Some l"
      "lon = - \<bar>l\<bar>" "decimal_ok (fst c)" "decimal_ok (snd c)"
    by (auto simp: printed_as_def split: option.splits)
  have west: "(if l > 0 then - l else l) = lon" using l(3) by simp
  show ?thesis
    using l(1,2) west unfolding parse_pair_def find_pair [OF l(4,5)]
    by (auto simp: p group_def parse_float_def decimal_val_text [OF l(4)] decimal_val_text [OF l(5)]
        in_box_def box_error_def Let_def not_le not_less)
qed

text \<open>The first pair outside the box, if there is one.\<close>

definition first_outside ::
  "(decimal \<times> decimal) list \<Rightarrow> point list \<Rightarrow> ((decimal \<times> decimal) \<times> point) option" where
  "first_outside cs pts = find (\<lambda>(c, p). \<not> in_box p) (zip cs pts)"

lemma pairs_loop_text:
  assumes "list_all2 (printed_as fl) cs pts"
  shows "pairs_loop fl (map pair_text cs) acc =
    (case first_outside cs pts of None \<Rightarrow> Inr (acc @ pts) | Some (c, p) \<Rightarrow> Inl (box_error c p))"
  using assms
proof (induction cs pts arbitrary: acc rule: list_all2_induct)
  case (Cons c cs p pts)
  then show ?case by (auto simp: parse_pair_text first_outside_def split: option.split)
qed (simp add: first_outside_def)

lemma str_fields_word:
  "list_all no_space_byte w \<Longrightarrow> str_fields_from acc (w @ s) = str_fields_from (rev w @ acc) s"
proof (induction w arbitrary: acc)
  case (Cons c w)
  then have "str_fields_from acc (c # w @ s) = str_fields_from (c # acc) (w @ s)"
    by (subst str_fields_from.simps) (simp add: skip_space_shield del: skip_space.simps)
  with Cons show ?case by simp
qed simp

lemma str_fields_join:
  assumes "\<forall>w \<in> set ws. w \<noteq> [] \<and> list_all no_space_byte w"
  shows "str_fields (join '' '' ws) = ws"
  unfolding str_fields_def using assms
proof (induction ws rule: induct_list012)
  case 1
  show ?case by (subst str_fields_from.simps) simp
next
  case (2 w)
  have "str_fields_from [] (w @ []) = str_fields_from (rev w @ []) []"
    using 2 by (intro str_fields_word) simp
  also have "\<dots> = [w]" using 2 by (subst str_fields_from.simps) simp
  finally show ?case by simp
next
  case (3 v w ws)
  have "str_fields_from [] (v @ '' '' @ join '' '' (w # ws)) = str_fields_from (rev v @ []) ('' '' @ join '' '' (w # ws))"
    using 3 by (intro str_fields_word) simp
  also have "\<dots> = v # str_fields_from [] (join '' '' (w # ws))"
    using 3 by (subst str_fields_from.simps) (simp add: is_space1_def code_def)
  finally show ?case using 3 by simp
qed

lemma pair_text_chars:
  assumes "decimal_ok (fst c)" "decimal_ok (snd c)" "x \<in> set (pair_text c)"
  shows "no_space_byte x \<and> x \<noteq> CHR ''s'' \<and> not_newline x"
proof -
  from assms have "number_char x \<or> x = CHR '',''"
    by (auto simp: pair_text_def dest: decimal_text_number_char)
  then show ?thesis
    using number_char_facts [of x] by (auto simp: not_newline_def no_space_byte_def code_def)
qed

lemma join_ends:
  assumes "\<forall>w \<in> set ws. w \<noteq> []" "ws \<noteq> []"
  shows "join sep ws \<noteq> []" "hd (join sep ws) = hd (hd ws)" "last (join sep ws) = last (last ws)"
  using assms by (induction ws rule: induct_list012) auto

lemma join_set: "set (join sep ws) \<subseteq> set sep \<union> \<Union> (set ` set ws)"
  by (induction ws rule: induct_list012) auto

lemma printed_ok:
  assumes "list_all2 (printed_as fl) cs pts" "c \<in> set cs"
  shows "decimal_ok (fst c)" "decimal_ok (snd c)"
proof -
  from assms(2) obtain i where "i < length cs" "c = cs ! i" by (auto simp: in_set_conv_nth)
  with list_all2_nthD [OF assms(1)] have "printed_as fl c (pts ! i)" by simp
  then show "decimal_ok (fst c)" "decimal_ok (snd c)" by (simp_all add: printed_as_def)
qed

lemma coords_plain:
  assumes "list_all2 (printed_as fl) cs pts" "cs \<noteq> []"
  shows "plain_part (coords_text cs)" "str_fields (coords_text cs) = map pair_text cs"
proof -
  have chars: "no_space_byte x \<and> x \<noteq> CHR ''s'' \<and> not_newline x" if "c \<in> set cs" "x \<in> set (pair_text c)" for c x
    using pair_text_chars [OF printed_ok [OF assms(1) that(1)] that(2)] .
  have ne: "pair_text c \<noteq> []" for c by (simp add: pair_text_def)
  show "str_fields (coords_text cs) = map pair_text cs"
    unfolding coords_text_def using chars ne by (intro str_fields_join) (auto simp: list_all_iff)
  let ?ws = "map pair_text cs"
  have ws: "\<forall>w \<in> set ?ws. w \<noteq> []" "?ws \<noteq> []" using ne assms(2) by auto
  note ends = join_ends [OF ws, of "'' ''"]
  have "hd (coords_text cs) = hd (pair_text (hd cs))" "last (coords_text cs) = last (pair_text (last cs))"
    unfolding coords_text_def ends(2,3) using assms(2) by (simp_all add: hd_map last_map)
  then have "no_space_byte (hd (coords_text cs))" "no_space_byte (last (coords_text cs))"
    using chars [of "hd cs" "hd (pair_text (hd cs))"] chars [of "last cs" "last (pair_text (last cs))"] ne assms(2)
    by simp_all
  moreover have "x \<noteq> CHR ''s'' \<and> not_newline x" if "x \<in> set (coords_text cs)" for x
  proof -
    from that join_set [of "'' ''" ?ws] have "x = CHR '' '' \<or> (\<exists>c \<in> set cs. x \<in> set (pair_text c))"
      by (auto simp: coords_text_def)
    then show ?thesis using chars by (fastforce simp: not_newline_def)
  qed
  ultimately show "plain_part (coords_text cs)"
    using ends(1) by (auto simp: plain_part_def list_all_iff coords_text_def)
qed

section \<open>Properties\<close>

text \<open>
  What a parsed motion promises its consumers. The bearing lies in [0, 360), the speed is not
  negative, every coordinate lies in the box around the United States with a western longitude,
  and the list of points is either omitted (one point) or starts with the origin.
\<close>

theorem parse_event_motion_bounds:
  assumes "parse_event_motion fl parse_time now ps = Inr (Some m)"
  shows "0 \<le> DirectionDeg m \<and> DirectionDeg m < 360 \<and> 0 \<le> SpeedKt m \<and>
    in_box (OriginLat m, OriginLon m) \<and> list_all in_box (Points m) \<and>
    (Points m = [] \<or> 2 \<le> length (Points m) \<and> hd (Points m) = (OriginLat m, OriginLon m))"
proof -
  from assms obtain c p qs where pts: "parse_coord_pairs fl c = Inr (p # qs)"
    and m: "OriginLat m = fst p" "OriginLon m = snd p" "0 \<le> DirectionDeg m" "DirectionDeg m < 360"
      "0 \<le> SpeedKt m" "Points m = (if qs = [] then [] else p # qs)"
    by (auto simp: parse_event_motion_def not_less not_le
        split: option.splits list.splits if_splits sum.splits)
  from pts have "list_all in_box (p # qs)"
    by (auto simp: parse_coord_pairs_def Let_def split: if_splits dest: pairs_loop_in_box)
  with m show ?thesis by (cases qs) auto
qed

text \<open>
  C32: parsing inverts printing. From a canonical entry with a bearing below 360, a speed that fits
  an int and a printed list of coordinates, the parser returns the bearing, the speed and the
  points of the list, in order, with longitudes counted to the west whatever their sign; the first
  pair outside the box is the error instead. A timestamp that does not parse falls back to the
  clock and never drops the geometry.
\<close>

theorem parse_event_motion_roundtrip:
  assumes entry: "ps ''eventMotionDescription'' = Some (motion_text ts d k (coords_text cs) # others)"
    and ts: "plain_part ts"
    and d: "d \<noteq> []" "length d \<le> 3" "list_all is_digit d" "digits_val 0 d < 360"
    and k: "k \<noteq> []" "list_all is_digit k" "digits_val 0 k < 2 ^ 63"
    and cs: "list_all2 (printed_as fl) cs pts" "cs \<noteq> []"
  shows "parse_event_motion fl parse_time now ps =
    (case first_outside cs pts of
       Some (c, p) \<Rightarrow> Inl (box_error c p)
     | None \<Rightarrow>
         Inr (Some \<lparr>OriginLat = fst (hd pts), OriginLon = snd (hd pts), DirectionDeg = digits_val 0 d,
                    SpeedKt = digits_val 0 k,
                    ValidAt = (case parse_motion_timestamp parse_time ts of None \<Rightarrow> now | Some t \<Rightarrow> t),
                    Points = (if length pts = 1 then [] else pts)\<rparr>))"
proof -
  note coords = coords_plain [OF cs]
  have blank: "trim_space (motion_text ts d k (coords_text cs)) \<noteq> []"
    by (rule trim_space_not_blank [of "CHR ''s''"]) (simp_all add: motion_text_def no_space_byte_def code_def)
  have find: "find_submatch motion_re (motion_text ts d k (coords_text cs)) =
      Some [(4, coords_text cs), (3, k), (2, d), (1, ts)]"
    using ts coords(1) d k by (intro find_motion)
  have ints: "atoi d = Some (digits_val 0 d)" "atoi k = Some (digits_val 0 k)"
    using d k by (auto intro!: atoi_digits)
  have pairs: "parse_coord_pairs fl (coords_text cs) =
      (case first_outside cs pts of None \<Rightarrow> Inr pts | Some (c, p) \<Rightarrow> Inl (box_error c p))"
    using cs(2) pairs_loop_text [OF cs(1), of "[]", unfolded append_Nil] by (simp add: parse_coord_pairs_def coords(2))
  obtain p qs where pts: "pts = p # qs" using cs by (cases pts) auto
  show ?thesis
    using entry d k blank find ints digits_val_nonneg [of d 0] digits_val_nonneg [of k 0] pts
    by (cases "first_outside cs pts")
      (auto simp: parse_event_motion_def group_def pairs split: prod.splits)
qed

text \<open>
  "no motion" is not an error. The parser returns it exactly when the parameter is absent, empty,
  or its first entry is blank; every other entry gives a motion or a reported error.
\<close>

theorem parse_event_motion_absent:
  "parse_event_motion fl parse_time now ps = Inr None \<longleftrightarrow>
     (case ps ''eventMotionDescription'' of
        None \<Rightarrow> True | Some [] \<Rightarrow> True | Some (raw # _) \<Rightarrow> trim_space raw = '''')"
  by (auto simp: parse_event_motion_def split: option.splits list.splits sum.splits)

definition sample_coords :: "(decimal \<times> decimal) list" where
  "sample_coords =
     [(Decimal False ''35'' ''21'', Decimal True ''97'' ''44''),
      (Decimal False ''35'' ''5'', Decimal False ''97'' ''1'')]"

definition sample_points :: "point list" where
  "sample_points = [(3521 / 100, - (9744 / 100)), (355 / 10, - (971 / 10))]"

definition sample_motion_text :: string where
  "sample_motion_text =
     motion_text ''2024-05-01T00:00:00-00:00'' ''245'' ''35'' (coords_text sample_coords)"

definition sample_motion :: storm_motion where
  "sample_motion =
     \<lparr>OriginLat = 3521 / 100, OriginLon = - (9744 / 100), DirectionDeg = 245, SpeedKt = 35, ValidAt = 7,
      Points = sample_points\<rparr>"

lemma sample_coords_text: "coords_text sample_coords = ''35.21,-97.44 35.5,97.1''"
  by code_simp

lemma sample_printed: "list_all2 (printed_as Some) sample_coords sample_points"
  by code_simp

theorem parse_event_motion_roundtrip_witness:
  "sample_motion_text = ''2024-05-01T00:00:00-00:00...storm...245DEG...35KT...35.21,-97.44 35.5,97.1'' \<and>
   parse_event_motion Some (\<lambda>_. None) 7 [''eventMotionDescription'' \<mapsto> [sample_motion_text]] =
     Inr (Some sample_motion)"
proof -
  have "first_outside sample_coords sample_points = None" by code_simp
  moreover have "digits_val 0 ''245'' = 245" "digits_val 0 ''35'' = 35"
      "parse_motion_timestamp (\<lambda>_. None) ''2024-05-01T00:00:00-00:00'' = None"
      "plain_part ''2024-05-01T00:00:00-00:00''" "list_all is_digit ''245''" "list_all is_digit ''35''"
    by code_simp+
  ultimately have "parse_event_motion Some (\<lambda>_. None) 7 [''eventMotionDescription'' \<mapsto> [sample_motion_text]] =
      Inr (Some sample_motion)"
    using parse_event_motion_roundtrip [of "[''eventMotionDescription'' \<mapsto> [sample_motion_text]]"
        "''2024-05-01T00:00:00-00:00''" "''245''" "''35''" sample_coords "[]" Some sample_points
        "\<lambda>_. None" 7] sample_printed
    by (simp add: sample_motion_text_def sample_motion_def sample_points_def sample_coords_def)
  then show ?thesis by (simp add: sample_motion_text_def sample_coords_text motion_text_def)
qed

theorem parse_event_motion_bounds_witness:
  "0 \<le> DirectionDeg sample_motion \<and> DirectionDeg sample_motion < 360 \<and> 0 \<le> SpeedKt sample_motion \<and>
    in_box (OriginLat sample_motion, OriginLon sample_motion) \<and> list_all in_box (Points sample_motion) \<and>
    (Points sample_motion = [] \<or> 2 \<le> length (Points sample_motion) \<and>
      hd (Points sample_motion) = (OriginLat sample_motion, OriginLon sample_motion))"
proof (rule parse_event_motion_bounds)
  show "parse_event_motion Some (\<lambda>_. None) 7 [''eventMotionDescription'' \<mapsto> [sample_motion_text]] =
      Inr (Some sample_motion)" by code_simp
qed

end
