(* ===== verification/Retry.thy ===== *)
theory Retry
  imports Go_Strings Config
begin

text \<open>
  The in-cycle retry policy of \<open>internal/retry\<close>. A context is its deadline, if it has one;
  the clock reading at which a function asks for the remaining time is an argument, as is the
  random source \<open>rand\<close>, where \<open>rand n\<close> stands for a draw of \<open>rand.Int64N(n)\<close>.
\<close>

section \<open>Contexts and the random source\<close>

datatype ctx_err = Canceled | DeadlineExceeded

text \<open>The documented behaviour of \<open>rand.Int64N\<close>: a draw lies in [0, n).\<close>

definition rand_ok :: "(int \<Rightarrow> int) \<Rightarrow> bool" where
  "rand_ok rand \<longleftrightarrow> (\<forall>n > 0. 0 \<le> rand n \<and> rand n < n)"

section \<open>The policy\<close>

definition MaxAttempts :: nat where [config_defs]: "MaxAttempts = HTTPRetryMaxAttempts"
definition BaseDelay :: duration where [config_defs]: "BaseDelay = HTTPRetryBaseDelayMs * millisecond"
definition MaxDelay :: duration where [config_defs]: "MaxDelay = HTTPRetryMaxDelayMs * millisecond"
definition nextAttemptFloor :: duration where
  [config_defs]: "nextAttemptFloor = HTTPRetryNextAttemptFloorMs * millisecond"

definition is_retryable_status :: "int \<Rightarrow> bool" where
  "is_retryable_status status = (if status = 429 then True else 500 \<le> status \<and> status \<le> 599)"

text \<open>The doubling loop of \<open>BackoffDelay\<close>: \<open>n\<close> iterations are left, the delay is \<open>e\<close>.\<close>

fun backoff_loop :: "nat \<Rightarrow> duration \<Rightarrow> duration" where
  "backoff_loop 0 e = e"
| "backoff_loop (Suc n) e =
     (let e' = wrap64 (e * 2) in if e' > MaxDelay then MaxDelay else backoff_loop n e')"

definition backoff_delay :: "(int \<Rightarrow> int) \<Rightarrow> nat \<Rightarrow> duration" where
  "backoff_delay rand attempt = rand (wrap64 (backoff_loop attempt BaseDelay + 1))"

text \<open>
  The product with a second is taken in 64 bits, so it wraps for headers of ten digits and more.
\<close>

definition parse_retry_after :: "string \<Rightarrow> duration \<times> bool" where
  "parse_retry_after header =
     (if header = '''' then (0, False)
      else case atoi header of
        None \<Rightarrow> (0, False)
      | Some secs \<Rightarrow> if secs < 0 then (0, False) else (wrap64 (secs * second), True))"

definition next_delay ::
  "(int \<Rightarrow> int) \<Rightarrow> time option \<Rightarrow> time \<Rightarrow> nat \<Rightarrow> duration \<Rightarrow> bool \<Rightarrow> duration \<times> bool" where
  "next_delay rand deadline now attempt retryAfter hasRetryAfter =
     (let delay = backoff_delay rand attempt;
          delay = (if hasRetryAfter then retryAfter else delay)
      in case deadline of
        None \<Rightarrow> (delay, True)
      | Some dl \<Rightarrow>
          let remaining = dl - now
          in if remaining < nextAttemptFloor then (0, False)
             else let cappedDelay = remaining - nextAttemptFloor
                  in (if delay > cappedDelay then cappedDelay else delay, True))"

text \<open>
  \<open>Sleep\<close>: \<open>ctx_first\<close> is the context's error when it ends before the timer fires. A delay of
  zero or less returns at once, without looking at the context.
\<close>

definition sleep :: "ctx_err option \<Rightarrow> duration \<Rightarrow> ctx_err option" where
  "sleep ctx_first d = (if d \<le> 0 then None else ctx_first)"

section \<open>Backoff\<close>

lemma backoff_loop_closed:
  "0 \<le> e \<Longrightarrow> e \<le> MaxDelay \<Longrightarrow> backoff_loop n e = min (e * 2 ^ n) MaxDelay"
proof (induction n arbitrary: e)
  case 0
  then show ?case by simp
next
  case (Suc n)
  have "wrap64 (e * 2) = e * 2"
    using Suc.prems by (intro wrap64_id) (simp add: in_int64_def config_defs)
  moreover have "MaxDelay \<le> e * 2 * 2 ^ n" if "MaxDelay < e * 2"
  proof -
    have "e * 2 * 1 \<le> e * 2 * 2 ^ n" using Suc.prems by (intro mult_left_mono) simp_all
    with that show ?thesis by linarith
  qed
  ultimately show ?case using Suc.IH [of "e * 2"] Suc.prems by (auto simp: Let_def min_def ac_simps)
qed

lemma backoff_loop_base: "backoff_loop n BaseDelay = min (BaseDelay * 2 ^ n) MaxDelay"
  by (rule backoff_loop_closed) (simp_all add: config_defs)

lemma backoff_loop_bounds: "0 < backoff_loop n BaseDelay \<and> backoff_loop n BaseDelay \<le> MaxDelay"
  unfolding backoff_loop_base by (simp add: config_defs)

text \<open>\<open>rand.Int64N\<close> panics on an argument below one; the policy never gives it one.\<close>

lemma backoff_draw_positive: "0 < wrap64 (backoff_loop n BaseDelay + 1)"
proof -
  have "wrap64 (backoff_loop n BaseDelay + 1) = backoff_loop n BaseDelay + 1"
    using backoff_loop_bounds [of n] by (intro wrap64_id) (simp add: in_int64_def config_defs)
  then show ?thesis using backoff_loop_bounds [of n] by simp
qed

lemma backoff_delay_eq: "backoff_delay rand n = rand (min (BaseDelay * 2 ^ n) MaxDelay + 1)"
proof -
  have "wrap64 (backoff_loop n BaseDelay + 1) = backoff_loop n BaseDelay + 1"
    using backoff_loop_bounds [of n] by (intro wrap64_id) (simp add: in_int64_def config_defs)
  then show ?thesis by (simp add: backoff_delay_def backoff_loop_base)
qed

lemma backoff_delay_bounds:
  assumes "rand_ok rand"
  shows "0 \<le> backoff_delay rand n \<and> backoff_delay rand n \<le> min (BaseDelay * 2 ^ n) MaxDelay"
proof -
  let ?m = "min (BaseDelay * 2 ^ n) MaxDelay"
  have "0 < ?m + 1" using backoff_loop_bounds [of n] by (simp add: backoff_loop_base)
  then have "0 \<le> rand (?m + 1) \<and> rand (?m + 1) < ?m + 1"
    using assms unfolding rand_ok_def by blast
  then show ?thesis by (simp add: backoff_delay_eq del: min_less_iff_conj min_add_distrib_left min_add_distrib_right)
qed

section \<open>Delays against the deadline\<close>

lemma next_delay_no_deadline:
  "next_delay rand None now n ra has = (if has then ra else backoff_delay rand n, True)"
  by (simp add: next_delay_def)

lemma next_delay_exhausted:
  "dl - now < nextAttemptFloor \<Longrightarrow> next_delay rand (Some dl) now n ra has = (0, False)"
  by (simp add: next_delay_def Let_def)

lemma next_delay_within:
  "next_delay rand (Some dl) now n ra has = (d, True) \<Longrightarrow>
     now + d + nextAttemptFloor \<le> dl \<and> d \<le> (if has then ra else backoff_delay rand n)"
  by (auto simp: next_delay_def Let_def split: if_splits)

section \<open>Retry loops behind an interface\<close>

text \<open>
  What the loops of both HTTP clients share. \<open>loop i e\<close> is the result of the loop from attempt
  \<open>i\<close> on, with \<open>e\<close> as the last error, and the requests it sends; \<open>answer i\<close> is what attempt \<open>i\<close>
  returns when the loop ends with it, \<open>request i\<close> the request it sends, if any, and
  \<open>can_retry i\<close> says that it failed in a way that allows another one.
\<close>

locale retry_loop =
  fixes loop :: "nat \<Rightarrow> 'e option \<Rightarrow> 'r \<times> 'q list"
    and answer :: "nat \<Rightarrow> 'r"
    and request :: "nat \<Rightarrow> 'q list"
    and can_retry :: "nat \<Rightarrow> bool"
  assumes one_request: "length (request i) \<le> 1"
    and last_attempt: "\<not> can_retry (MaxAttempts - 1)"
    and loop_step: "i < MaxAttempts \<Longrightarrow>
      loop i e = (answer i, request i) \<and> \<not> can_retry i \<or>
      can_retry i \<and> (\<exists>e'. loop i e = (fst (loop (Suc i) e'), request i @ snd (loop (Suc i) e')))"
begin

lemma loop_ends:
  "i < MaxAttempts \<Longrightarrow>
     \<exists>k. i \<le> k \<and> k < MaxAttempts \<and> (\<forall>j. i \<le> j \<and> j < k \<longrightarrow> can_retry j) \<and> \<not> can_retry k \<and>
       loop i e = (answer k, concat (map request [i..<Suc k]))"
proof (induction "MaxAttempts - i" arbitrary: i e)
  case 0
  then show ?case by simp
next
  case (Suc n)
  from loop_step [OF Suc.prems, of e] show ?case
  proof (elim disjE conjE exE)
    assume "loop i e = (answer i, request i)" "\<not> can_retry i"
    with Suc.prems show ?thesis by (intro exI [of _ i]) auto
  next
    fix e'
    assume can: "can_retry i"
      and l: "loop i e = (fst (loop (Suc i) e'), request i @ snd (loop (Suc i) e'))"
    have "i \<noteq> MaxAttempts - 1" using can last_attempt by blast
    then have "n = MaxAttempts - Suc i" "Suc i < MaxAttempts" using Suc.hyps(2) Suc.prems by auto
    from Suc.hyps(1) [OF this, of e'] obtain k where k: "Suc i \<le> k" "k < MaxAttempts"
      "\<forall>j. Suc i \<le> j \<and> j < k \<longrightarrow> can_retry j" "\<not> can_retry k"
      "loop (Suc i) e' = (answer k, concat (map request [Suc i..<Suc k]))" by blast
    have "[i..<Suc k] = i # [Suc i..<Suc k]" using k(1) by (simp add: upt_conv_Cons del: upt_Suc)
    with k l can show ?thesis
      by (intro exI [of _ k]) (auto simp del: upt_Suc, metis Suc_leI le_neq_implies_less)
  qed
qed

lemma loop_outcome:
  obtains k where "k < MaxAttempts" "\<forall>j < k. can_retry j" "\<not> can_retry k"
    "loop 0 e = (answer k, concat (map request [0..<Suc k]))"
  using loop_ends [of 0 e] by (auto simp: config_defs simp del: upt_Suc)

lemma loop_bounded: "length (snd (loop 0 e)) \<le> MaxAttempts"
proof -
  obtain k where k: "k < MaxAttempts" "loop 0 e = (answer k, concat (map request [0..<Suc k]))"
    by (rule loop_outcome)
  have "length (concat (map request ks)) \<le> length ks" for ks
    using one_request by (induction ks) (auto intro: add_le_mono [of _ 1, simplified])
  from this [of "[0..<Suc k]"] k show ?thesis by simp
qed

end

section \<open>Attempts of an HTTP client\<close>

text \<open>
  What an attempt meets. The two helpers of both clients share \<open>wait_and_retry\<close>: after a failed
  attempt, wait if another attempt is allowed and the budget leaves room for it. \<open>True\<close> means
  the wait is over and the loop goes on.
\<close>

datatype http_outcome =
    TransportErr string
  | Resp int "string \<Rightarrow> string" string    \<comment> \<open>status, \<open>Header.Get\<close>, body\<close>

record http_attempt =
  att_build_err :: "string option"      \<comment> \<open>\<open>http.NewRequestWithContext\<close> failed\<close>
  att_outcome :: http_outcome           \<comment> \<open>what \<open>httpClient.Do\<close> returns\<close>
  att_now :: time                       \<comment> \<open>the clock when the remaining budget is computed\<close>
  att_rand :: "int \<Rightarrow> int"             \<comment> \<open>the draw of the jitter\<close>
  att_ctx_first :: "ctx_err option"     \<comment> \<open>the context ended before the wait did\<close>

definition wait_and_retry :: "time option \<Rightarrow> http_attempt \<Rightarrow> nat \<Rightarrow> duration \<Rightarrow> bool \<Rightarrow> bool" where
  "wait_and_retry deadline a i retryAfter hasRetryAfter =
     (if i = MaxAttempts - 1 then False
      else let (delay, ok) = next_delay (att_rand a) deadline (att_now a) i retryAfter hasRetryAfter
           in if \<not> ok then False else sleep (att_ctx_first a) delay = None)"

text \<open>The attempt failed transiently, its budget left room for another one and the wait ended.\<close>

definition transient :: "http_attempt \<Rightarrow> bool" where
  "transient a \<longleftrightarrow> att_build_err a = None \<and>
     (case att_outcome a of TransportErr _ \<Rightarrow> True | Resp status _ _ \<Rightarrow> is_retryable_status status)"

definition retried :: "time option \<Rightarrow> http_attempt \<Rightarrow> nat \<Rightarrow> bool" where
  "retried deadline a i \<longleftrightarrow> transient a \<and>
     (case att_outcome a of
        TransportErr _ \<Rightarrow> wait_and_retry deadline a i 0 False
      | Resp status header _ \<Rightarrow>
          (case parse_retry_after (header ''Retry-After'') of
             (ra, has) \<Rightarrow> wait_and_retry deadline a i ra has))"

lemma retried_not_last: "\<not> retried dl a (MaxAttempts - 1)"
  by (auto simp: retried_def wait_and_retry_def split: http_outcome.splits prod.splits)

text \<open>A retry starts with at least the floor of 250 ms left before the deadline.\<close>

lemma wait_and_retry_room: "wait_and_retry (Some dl) a i ra has \<Longrightarrow> att_now a + nextAttemptFloor \<le> dl"
  by (auto simp: wait_and_retry_def next_delay_def Let_def split: if_splits)

lemma retried_room: "retried (Some dl) a i \<Longrightarrow> att_now a + nextAttemptFloor \<le> dl"
  by (auto simp: retried_def dest: wait_and_retry_room split: http_outcome.splits prod.splits)

lemma retried_transient: "retried dl a i \<Longrightarrow> transient a"
  by (simp add: retried_def)

section \<open>Properties\<close>



text \<open>
  A \<open>Retry-After\<close> header of seconds is honoured as written exactly up to 9223372036 seconds.
  From there on the product wraps in 64 bits and the delay is not the one the server asked for.
\<close>

theorem parse_retry_after_exact:
  assumes "h \<noteq> ''''" and "list_all is_digit h" and "digits_val 0 h < 2 ^ 63"
  shows "snd (parse_retry_after h) \<and>
    (fst (parse_retry_after h) = digits_val 0 h * second \<longleftrightarrow> digits_val 0 h \<le> 9223372036)"
proof -
  have nonneg: "0 \<le> digits_val 0 h" by (rule digits_val_nonneg) (use assms in simp_all)
  have "atoi h = Some (digits_val 0 h)" using assms by (simp add: atoi_digits)
  then have p: "parse_retry_after h = (wrap64 (digits_val 0 h * second), True)"
    using assms(1) nonneg by (simp add: parse_retry_after_def)
  have "wrap64 (digits_val 0 h * second) = digits_val 0 h * second \<longleftrightarrow> digits_val 0 h \<le> 9223372036"
  proof
    assume "wrap64 (digits_val 0 h * second) = digits_val 0 h * second"
    then have "in_int64 (digits_val 0 h * second)" by (metis in_int64_wrap64)
    then show "digits_val 0 h \<le> 9223372036" by (simp add: in_int64_def config_defs)
  next
    assume "digits_val 0 h \<le> 9223372036"
    then show "wrap64 (digits_val 0 h * second) = digits_val 0 h * second"
      using nonneg by (intro wrap64_id) (simp add: in_int64_def config_defs)
  qed
  with p show ?thesis by simp
qed

theorem parse_retry_after_exact_witness:
  "snd (parse_retry_after ''120'') \<and>
    (fst (parse_retry_after ''120'') = digits_val 0 ''120'' * second \<longleftrightarrow> digits_val 0 ''120'' \<le> 9223372036)"
proof (rule parse_retry_after_exact)
  show "''120'' \<noteq> ''''" "list_all is_digit ''120''" "digits_val 0 ''120'' < 2 ^ 63" by code_simp+
qed

text \<open>
  A server that asks for 9223372037 seconds is retried at once: the wrapped delay is negative,
  it passes the budget check, and sleeping on it returns immediately, even when the context has
  already ended.
\<close>

theorem retry_after_overflow_retries_at_once:
  "\<exists>d. parse_retry_after ''9223372037'' = (d, True) \<and> d < 0 \<and>
     next_delay rand (Some (30 * second)) 0 0 d True = (d, True) \<and> sleep ctx_first d = None"
proof -
  have "parse_retry_after ''9223372037'' = (-9223372036709551616, True)" by code_simp
  then show ?thesis by (simp add: next_delay_def sleep_def config_defs)
qed

end
