(* ===== verification/Nws_Client.thy ===== *)
theory Nws_Client
  imports Retry Nws_Types
begin

text \<open>
  The NWS client of \<open>internal/nws/client.go\<close>: one conditional request per attempt, retried on
  transient failures, and the ETag cache with its roll-back. The server and the network are the
  environment: \<open>env i\<close> says what attempt \<open>i\<close> meets. The result has Go's shape, a response and an
  error, each of which may be nil. \<open>decode\<close> is \<open>json.Decoder.Decode\<close> into an \<open>AlertsResponse\<close>.
\<close>

section \<open>The environment and the request log\<close>

record http_request =
  req_url :: string
  req_user_agent :: string
  req_accept :: string
  req_if_none_match :: "string option"

type_synonym etag_cache = "string \<Rightarrow> string option"

record nws_client =
  nws_timeout :: duration               \<comment> \<open>of the HTTP client\<close>
  userAgent :: string
  baseURL :: string

definition new_client :: "string \<Rightarrow> nws_client" where
  "new_client ua =
     \<lparr>nws_timeout = HTTPClientTimeoutSec * second, userAgent = ua, baseURL = ''https://api.weather.gov''\<rparr>"

datatype fetch_error =
    ErrNotModified
  | CreateErr string
  | FetchErr string
  | StatusErr int string
  | DecodeErr

section \<open>The endpoint\<close>

text \<open>\<open>url.QueryEscape\<close>.\<close>

definition hex_digit :: "nat \<Rightarrow> char" where
  "hex_digit n = char_of (if n < 10 then 48 + n else 55 + n)"

definition unreserved :: "char \<Rightarrow> bool" where
  "unreserved c \<longleftrightarrow> is_upper c \<or> is_lower c \<or> is_digit c \<or> c \<in> set ''-_.~''"

fun query_escape :: "string \<Rightarrow> string" where
  "query_escape [] = []"
| "query_escape (c # s) =
     (if unreserved c then [c]
      else if c = CHR '' '' then ''+''
      else [CHR ''%'', hex_digit (code c div 16), hex_digit (code c mod 16)]) @ query_escape s"

text \<open>\<open>url.Values.Encode\<close> sorts the keys: \<open>area\<close> before \<open>status\<close>.\<close>

definition alerts_endpoint :: "nws_client \<Rightarrow> string \<Rightarrow> string" where
  "alerts_endpoint c area =
     baseURL c @ ''/alerts/active?area='' @ query_escape area @ ''&status='' @ query_escape ''actual''"

section \<open>The fetch loop\<close>

definition nws_request :: "nws_client \<Rightarrow> string \<Rightarrow> string \<Rightarrow> http_request" where
  "nws_request c endpoint lastETag =
     \<lparr>req_url = endpoint, req_user_agent = userAgent c, req_accept = ''application/geo+json'',
      req_if_none_match = (if lastETag \<noteq> '''' then Some lastETag else None)\<rparr>"

definition nws_retry_after_err :: "time option \<Rightarrow> http_attempt \<Rightarrow> nat \<Rightarrow> bool" where
  "nws_retry_after_err deadline a i = wait_and_retry deadline a i 0 False"

definition nws_retry_after_resp :: "time option \<Rightarrow> http_attempt \<Rightarrow> nat \<Rightarrow> duration \<Rightarrow> bool \<Rightarrow> bool" where
  "nws_retry_after_resp deadline a i retryAfter hasRetryAfter =
     wait_and_retry deadline a i retryAfter hasRetryAfter"

text \<open>The 200 path: store the new ETag, decode, and roll the ETag back if decoding fails.\<close>

definition decode_alerts ::
  "(string \<Rightarrow> alerts_response option) \<Rightarrow> string \<Rightarrow> (string \<Rightarrow> string) \<Rightarrow> string \<Rightarrow> etag_cache \<Rightarrow>
   (alerts_response option \<times> fetch_error option) \<times> etag_cache" where
  "decode_alerts decode endpoint header body etags =
     (let newETag = header ''ETag'';
          previous = etags endpoint;
          etags1 = (if newETag \<noteq> '''' then etags(endpoint \<mapsto> newETag) else etags)
      in case decode (take NWSResponseMaxBytes body) of
           None \<Rightarrow>
             ((None, Some DecodeErr),
              if newETag \<noteq> ''''
              then (case previous of
                      Some p \<Rightarrow> etags1(endpoint \<mapsto> p)
                    | None \<Rightarrow> etags1(endpoint := None))
              else etags1)
         | Some alerts \<Rightarrow> ((Some alerts, None), etags1))"

type_synonym nws_result =
  "((alerts_response option \<times> fetch_error option) \<times> etag_cache) \<times> http_request list"

definition sent :: "http_request \<Rightarrow> nws_result \<Rightarrow> nws_result" where
  "sent q r = (fst r, q # snd r)"

function nws_fetch_loop ::
  "nws_client \<Rightarrow> time option \<Rightarrow> (string \<Rightarrow> alerts_response option) \<Rightarrow> (nat \<Rightarrow> http_attempt) \<Rightarrow>
   string \<Rightarrow> string \<Rightarrow> etag_cache \<Rightarrow> nat \<Rightarrow> fetch_error option \<Rightarrow> nws_result" where
  "nws_fetch_loop c deadline decode env endpoint lastETag etags attempt lastErr =
     (if attempt < MaxAttempts
      then (let a = env attempt; q = nws_request c endpoint lastETag
        in case att_build_err a of
          Some msg \<Rightarrow> (((None, Some (CreateErr msg)), etags), [])
        | None \<Rightarrow>
            (case att_outcome a of
               TransportErr msg \<Rightarrow>
                 (let e = FetchErr msg
                  in if \<not> nws_retry_after_err deadline a attempt
                     then (((None, Some e), etags), [q])
                     else sent q (nws_fetch_loop c deadline decode env endpoint lastETag etags
                                    (attempt + 1) (Some e)))
             | Resp status header body \<Rightarrow>
                 if status = 304 then (((None, Some ErrNotModified), etags), [q])
                 else if status \<noteq> 200 then
                   (let e = StatusErr status (take 1024 body);
                        (ra, hasRA) = parse_retry_after (header ''Retry-After'')
                    in if \<not> is_retryable_status status then (((None, Some e), etags), [q])
                       else if \<not> nws_retry_after_resp deadline a attempt ra hasRA
                       then (((None, Some e), etags), [q])
                       else sent q (nws_fetch_loop c deadline decode env endpoint lastETag etags
                                      (attempt + 1) (Some e)))
                 else (decode_alerts decode endpoint header body etags, [q])))
      else (((None, lastErr), etags), []))"
  by pat_completeness auto
termination
  by (relation "measure (\<lambda>(c, dl, dec, env, ep, et, etags, i, e). MaxAttempts - i)") auto

declare nws_fetch_loop.simps [simp del]

definition fetch_active_alerts ::
  "nws_client \<Rightarrow> time option \<Rightarrow> (string \<Rightarrow> alerts_response option) \<Rightarrow> (nat \<Rightarrow> http_attempt) \<Rightarrow>
   string \<Rightarrow> etag_cache \<Rightarrow> nws_result" where
  "fetch_active_alerts c deadline decode env area etags =
     (let endpoint = alerts_endpoint c area;
          lastETag = (case etags endpoint of None \<Rightarrow> '''' | Some e \<Rightarrow> e)
      in nws_fetch_loop c deadline decode env endpoint lastETag etags 0 None)"

section \<open>Escaping is reversible\<close>

definition hex_val :: "char \<Rightarrow> nat" where
  "hex_val c = (if is_digit c then code c - 48 else code c - 55)"

fun query_unescape :: "string \<Rightarrow> string" where
  "query_unescape [] = []"
| "query_unescape (c # s) =
     (if c = CHR ''+'' then CHR '' '' # query_unescape s
      else if c = CHR ''%'' then
        (case s of
           a # b # s' \<Rightarrow> char_of (hex_val a * 16 + hex_val b) # query_unescape s'
         | _ \<Rightarrow> c # query_unescape s)
      else c # query_unescape s)"

lemma code_char_of: "n < 256 \<Longrightarrow> code (char_of n) = n"
  by (simp add: code_def)

lemma char_of_code [simp]: "char_of (code c) = c"
  by (simp add: code_def)

lemma code_less_256: "code c < 256"
  using of_char_mod_256 [of c, where ?'a = nat] unfolding code_def by (metis mod_less_divisor zero_less_numeral)

lemma hex_val_digit: "n < 16 \<Longrightarrow> hex_val (hex_digit n) = n"
  by (simp add: hex_val_def hex_digit_def is_digit_def code_char_of)

lemma unreserved_plain: "unreserved c \<Longrightarrow> c \<noteq> CHR ''+'' \<and> c \<noteq> CHR ''%''"
  by (auto simp: unreserved_def is_upper_def is_lower_def is_digit_def code_def)

lemma query_unescape_escape: "query_unescape (query_escape s) = s"
proof (induction s)
  case Nil
  then show ?case by simp
next
  case (Cons c s)
  have "code c div 16 < 16" using code_less_256 [of c] by auto
  then have "char_of (hex_val (hex_digit (code c div 16)) * 16 + hex_val (hex_digit (code c mod 16))) = c"
    by (simp add: hex_val_digit)
  with Cons show ?case by (auto dest: unreserved_plain)
qed

lemma query_escape_inj: "query_escape a = query_escape b \<longleftrightarrow> a = b"
  by (metis query_unescape_escape)

section \<open>The retry loop\<close>

text \<open>
  What the code promises, attempt by attempt: the result of the attempt that ends the loop, the
  request an attempt sends, and when another attempt follows.
\<close>

definition attempt_answer ::
  "(string \<Rightarrow> alerts_response option) \<Rightarrow> string \<Rightarrow> etag_cache \<Rightarrow> http_attempt \<Rightarrow>
   (alerts_response option \<times> fetch_error option) \<times> etag_cache" where
  "attempt_answer dec ep etags a =
     (case att_build_err a of
        Some msg \<Rightarrow> ((None, Some (CreateErr msg)), etags)
      | None \<Rightarrow>
          (case att_outcome a of
             TransportErr msg \<Rightarrow> ((None, Some (FetchErr msg)), etags)
           | Resp status header body \<Rightarrow>
               if status = 304 then ((None, Some ErrNotModified), etags)
               else if status = 200 then decode_alerts dec ep header body etags
               else ((None, Some (StatusErr status (take 1024 body))), etags)))"

definition attempt_request :: "nws_client \<Rightarrow> string \<Rightarrow> string \<Rightarrow> http_attempt \<Rightarrow> http_request list" where
  "attempt_request c ep et a = (if att_build_err a = None then [nws_request c ep et] else [])"

text \<open>One iteration: the attempt ends the loop with its answer, or the loop goes on.\<close>

lemma nws_fetch_step:
  assumes "i < MaxAttempts"
  shows "nws_fetch_loop c dl dec env ep et etags i e =
     (attempt_answer dec ep etags (env i), attempt_request c ep et (env i)) \<and> \<not> retried dl (env i) i \<or>
     retried dl (env i) i \<and>
     (\<exists>e'. nws_fetch_loop c dl dec env ep et etags i e =
        sent (nws_request c ep et) (nws_fetch_loop c dl dec env ep et etags (Suc i) e')) \<and>
     attempt_request c ep et (env i) = [nws_request c ep et]"
proof -
  note loop = nws_fetch_loop.simps [of c dl dec env ep et etags i e]
  show ?thesis
  proof (cases "att_build_err (env i)")
    case (Some msg)
    with assms show ?thesis by (simp add: loop attempt_answer_def attempt_request_def retried_def transient_def)
  next
    case build: None
    show ?thesis
    proof (cases "att_outcome (env i)")
      case (TransportErr msg)
      with assms build show ?thesis
        by (auto simp: loop attempt_answer_def attempt_request_def retried_def transient_def
            nws_retry_after_err_def Let_def)
    next
      case (Resp status header body)
      obtain ra has where ra: "parse_retry_after (header ''Retry-After'') = (ra, has)" by fastforce
      from assms build Resp ra show ?thesis
        by (auto simp: loop attempt_answer_def attempt_request_def retried_def transient_def is_retryable_status_def
            nws_retry_after_resp_def Let_def split_beta)
    qed
  qed
qed

interpretation nws_retry: retry_loop "nws_fetch_loop c dl dec env ep et etags"
  "\<lambda>i. attempt_answer dec ep etags (env i)" "\<lambda>i. attempt_request c ep et (env i)"
  "\<lambda>i. retried dl (env i) i"
  for c dl dec env ep et etags
proof unfold_locales
  show "length (attempt_request c ep et (env i)) \<le> 1" for i by (simp add: attempt_request_def)
  show "\<not> retried dl (env (MaxAttempts - 1)) (MaxAttempts - 1)"
    using retried_not_last by blast
next
  fix i e
  assume "i < MaxAttempts"
  from nws_fetch_step [OF this, of c dl dec env ep et etags e]
  show "nws_fetch_loop c dl dec env ep et etags i e =
      (attempt_answer dec ep etags (env i), attempt_request c ep et (env i)) \<and> \<not> retried dl (env i) i \<or>
    retried dl (env i) i \<and> (\<exists>e'. nws_fetch_loop c dl dec env ep et etags i e =
      (fst (nws_fetch_loop c dl dec env ep et etags (Suc i) e'),
       attempt_request c ep et (env i) @ snd (nws_fetch_loop c dl dec env ep et etags (Suc i) e')))"
    by (auto simp: sent_def split_beta)
qed

section \<open>What a fetch returns\<close>

abbreviation last_etag :: "nws_client \<Rightarrow> string \<Rightarrow> etag_cache \<Rightarrow> string" where
  "last_etag c area etags \<equiv>
     (case etags (alerts_endpoint c area) of None \<Rightarrow> '''' | Some e \<Rightarrow> e)"

definition one_of :: "'a option \<times> 'b option \<Rightarrow> bool" where
  "one_of r \<longleftrightarrow> (fst r = None) \<noteq> (snd r = None)"

lemma attempt_answer_one_of: "one_of (fst (attempt_answer dec ep etags a))"
  by (auto simp: attempt_answer_def decode_alerts_def Let_def one_of_def
      split: option.splits http_outcome.splits)

lemma decode_alerts_error:
  "snd (fst (decode_alerts dec ep h b etags)) \<noteq> None \<Longrightarrow> snd (decode_alerts dec ep h b etags) = etags"
  by (auto simp: decode_alerts_def Let_def fun_upd_idem split: option.splits if_splits)

lemma decode_alerts_success:
  "fst (fst (decode_alerts dec ep h b etags)) = Some alerts \<Longrightarrow>
     dec (take NWSResponseMaxBytes b) = Some alerts \<and>
     snd (decode_alerts dec ep h b etags) =
       (if h ''ETag'' \<noteq> '''' then etags(ep \<mapsto> h ''ETag'') else etags)"
  by (auto simp: decode_alerts_def Let_def split: option.splits)

lemma attempt_answer_error:
  "snd (fst (attempt_answer dec ep etags a)) \<noteq> None \<Longrightarrow> snd (attempt_answer dec ep etags a) = etags"
  by (auto simp: attempt_answer_def decode_alerts_error split: option.splits http_outcome.splits)

lemma attempt_answer_success:
  assumes "fst (fst (attempt_answer dec ep etags a)) = Some alerts"
  obtains h b where "att_outcome a = Resp 200 h b" "dec (take NWSResponseMaxBytes b) = Some alerts"
    "snd (attempt_answer dec ep etags a) =
       (if h ''ETag'' \<noteq> '''' then etags(ep \<mapsto> h ''ETag'') else etags)"
  using assms
  by (auto simp: attempt_answer_def dest!: decode_alerts_success split: option.splits http_outcome.splits if_splits)

lemma attempt_answer_not_modified:
  "snd (fst (attempt_answer dec ep etags a)) = Some ErrNotModified \<longleftrightarrow>
     att_build_err a = None \<and> (\<exists>h b. att_outcome a = Resp 304 h b)"
  by (auto simp: attempt_answer_def decode_alerts_def Let_def split: option.splits http_outcome.splits)

lemma fetch_active_alerts_outcome:
  "\<exists>k < MaxAttempts. (\<forall>j < k. transient (env j) \<and> retried dl (env j) j) \<and> \<not> retried dl (env k) k \<and>
     fetch_active_alerts c dl dec env area etags =
       (attempt_answer dec (alerts_endpoint c area) etags (env k),
        replicate (if att_build_err (env k) = None then Suc k else k)
          (nws_request c (alerts_endpoint c area) (last_etag c area etags)))"
proof -
  let ?ep = "alerts_endpoint c area" and ?et = "last_etag c area etags"
  obtain k where k: "k < MaxAttempts" "\<forall>j < k. retried dl (env j) j" "\<not> retried dl (env k) k"
    "nws_fetch_loop c dl dec env ?ep ?et etags 0 None =
       (attempt_answer dec ?ep etags (env k), concat (map (\<lambda>i. attempt_request c ?ep ?et (env i)) [0..<Suc k]))"
    by (rule nws_retry.loop_outcome)
  have "\<forall>j < k. attempt_request c ?ep ?et (env j) = [nws_request c ?ep ?et]"
    using k(2) by (auto simp: attempt_request_def dest!: retried_transient simp: transient_def)
  from concat_rounds [OF this]
  have "concat (map (\<lambda>i. attempt_request c ?ep ?et (env i)) [0..<Suc k]) =
      replicate (if att_build_err (env k) = None then Suc k else k) (nws_request c ?ep ?et)"
    by (simp add: attempt_request_def replicate_append_same)
  with k show ?thesis
    by (intro exI [of _ k]) (auto simp: fetch_active_alerts_def Let_def dest: retried_transient)
qed

text \<open>
  Three attempts: a 503 with room left, a dropped connection, then a 200 with a new ETag. The
  decoder of the samples accepts every body but the empty one.
\<close>

definition sample_env :: "nat \<Rightarrow> http_attempt" where
  "sample_env i =
     \<lparr>att_build_err = None,
      att_outcome =
        (if i = 0 then Resp 503 (\<lambda>h. if h = ''Retry-After'' then ''1'' else '''') ''busy''
         else if i = 1 then TransportErr ''connection reset''
         else Resp 200 (\<lambda>h. if h = ''ETag'' then ''v2'' else '''') ''{}''),
      att_now = int i * 3 * second, att_rand = (\<lambda>n. n - 1), att_ctx_first = None\<rparr>"

definition sample_decode :: "string \<Rightarrow> alerts_response option" where
  "sample_decode b =
     (if b = '''' then None else Some \<lparr>response_Type = ''FeatureCollection'', Features = []\<rparr>)"

definition sample_fetch :: nws_result where
  "sample_fetch =
     fetch_active_alerts (new_client ''seestorm'') (Some (20 * second)) sample_decode sample_env ''OK,TX''
       [alerts_endpoint (new_client ''seestorm'') ''OK,TX'' \<mapsto> ''v1'']"

lemma sample_retried:
  "retried (Some (20 * second)) (sample_env 0) 0" "retried (Some (20 * second)) (sample_env 1) 1"
  by code_simp+

lemma below_MaxAttempts: "k < MaxAttempts \<longleftrightarrow> k = 0 \<or> k = 1 \<or> k = 2"
  by (auto simp: config_defs)

lemma sample_fetch_value:
  "fst sample_fetch = ((sample_decode ''{}'', None),
     [alerts_endpoint (new_client ''seestorm'') ''OK,TX'' \<mapsto> ''v2''])"
proof -
  obtain k where k: "k < MaxAttempts" "\<not> retried (Some (20 * second)) (sample_env k) k"
    "fst sample_fetch =
       attempt_answer sample_decode (alerts_endpoint (new_client ''seestorm'') ''OK,TX'')
          [alerts_endpoint (new_client ''seestorm'') ''OK,TX'' \<mapsto> ''v1''] (sample_env k)"
    using fetch_active_alerts_outcome [of sample_env "Some (20 * second)" "new_client ''seestorm''"
        sample_decode "''OK,TX''" "[alerts_endpoint (new_client ''seestorm'') ''OK,TX'' \<mapsto> ''v1'']"]
    unfolding sample_fetch_def by force
  then have "k = 2" using sample_retried by (auto simp: below_MaxAttempts)
  with k(3) show ?thesis
    by (simp add: sample_env_def attempt_answer_def decode_alerts_def config_defs Let_def sample_decode_def)
qed

lemma fetch_active_alerts_answer:
  obtains k where "k < MaxAttempts"
    "fst (fetch_active_alerts c dl dec env area etags) =
       attempt_answer dec (alerts_endpoint c area) etags (env k)"
proof -
  obtain k where "k < MaxAttempts"
    "nws_fetch_loop c dl dec env (alerts_endpoint c area) (last_etag c area etags) etags 0 None =
       (attempt_answer dec (alerts_endpoint c area) etags (env k),
        concat (map (\<lambda>i. attempt_request c (alerts_endpoint c area) (last_etag c area etags) (env i)) [0..<Suc k]))"
    by (rule nws_retry.loop_outcome)
  then show ?thesis by (intro that [of k]) (auto simp: fetch_active_alerts_def Let_def)
qed

text \<open>
  C25: a fetch behaves as its contract says. Some attempt \<open>k\<close> below the maximum ends it, every
  attempt before it failed transiently with at least the floor of the retry policy left before
  the deadline, attempt \<open>k\<close> itself is not retried, the result is the answer of attempt \<open>k\<close>, and
  the requests sent are one per attempt, all equal: the endpoint of the area, with the ETag that
  was cached for it before the fetch.
\<close>

lemma fetch_active_alerts_contract:
  "\<exists>k < MaxAttempts. (\<forall>j < k. transient (env j) \<and> retried dl (env j) j) \<and> \<not> retried dl (env k) k \<and>
     fetch_active_alerts c dl dec env area etags =
       (attempt_answer dec (alerts_endpoint c area) etags (env k),
        replicate (if att_build_err (env k) = None then Suc k else k)
          (nws_request c (alerts_endpoint c area) (last_etag c area etags)))"
  by (rule fetch_active_alerts_outcome)

theorem fetch_active_alerts_contract_witness:
  "\<exists>k < MaxAttempts. (\<forall>j < k. transient (sample_env j) \<and> retried (Some (20 * second)) (sample_env j) j) \<and>
     \<not> retried (Some (20 * second)) (sample_env k) k \<and>
     length (snd sample_fetch) = Suc k"
proof -
  have "att_build_err (sample_env k) = None" for k by (simp add: sample_env_def)
  then show ?thesis
    using fetch_active_alerts_contract [of sample_env "Some (20 * second)" "new_client ''seestorm''"
        sample_decode "''OK,TX''" "[alerts_endpoint (new_client ''seestorm'') ''OK,TX'' \<mapsto> ''v1'']"]
    unfolding sample_fetch_def by fastforce
qed

lemma fetch_cache:
  assumes "fetch_active_alerts c dl dec env area etags = (((res, err), etags'), log)"
  shows "((res = None) \<noteq> (err = None)) \<and>
    (err \<noteq> None \<longrightarrow> etags' = etags) \<and>
    (\<forall>alerts. res = Some alerts \<longrightarrow> (\<exists>k < MaxAttempts. \<exists>h b. att_outcome (env k) = Resp 200 h b \<and>
       dec (take NWSResponseMaxBytes b) = Some alerts \<and>
       etags' = (if h ''ETag'' \<noteq> '''' then etags(alerts_endpoint c area \<mapsto> h ''ETag'') else etags))) \<and>
    (err = Some ErrNotModified \<longrightarrow> (\<exists>k < MaxAttempts. \<exists>h b. att_outcome (env k) = Resp 304 h b))"
proof -
  obtain k where k: "k < MaxAttempts"
    and a: "attempt_answer dec (alerts_endpoint c area) etags (env k) = ((res, err), etags')"
    using assms by (metis fetch_active_alerts_answer fst_conv)
  have "(res = None) \<noteq> (err = None)"
    using attempt_answer_one_of [of dec "alerts_endpoint c area" etags "env k"] by (simp add: a one_of_def)
  moreover have "err \<noteq> None \<longrightarrow> etags' = etags"
    using attempt_answer_error [of dec "alerts_endpoint c area" etags "env k"] by (simp add: a)
  moreover have "\<exists>k < MaxAttempts. \<exists>h b. att_outcome (env k) = Resp 200 h b \<and>
       dec (take NWSResponseMaxBytes b) = Some alerts \<and>
       etags' = (if h ''ETag'' \<noteq> '''' then etags(alerts_endpoint c area \<mapsto> h ''ETag'') else etags)"
    if "res = Some alerts" for alerts
  proof -
    from that a have "fst (fst (attempt_answer dec (alerts_endpoint c area) etags (env k))) = Some alerts"
      by simp
    then show ?thesis
      using k by (elim attempt_answer_success) (metis a snd_conv)
  qed
  moreover have "err = Some ErrNotModified \<longrightarrow> (\<exists>k < MaxAttempts. \<exists>h b. att_outcome (env k) = Resp 304 h b)"
    using k attempt_answer_not_modified [of dec "alerts_endpoint c area" etags "env k"] by (auto simp: a)
  ultimately show ?thesis by blast
qed

text \<open>
  C26: exactly one of the response and the error is set, and the ETag cache moves only with a
  decoded response: an error leaves it as it was, even when the ETag of an undecodable body had
  been stored, and a success is a 200 whose capped body decodes to it, with the cache updated at
  this endpoint alone, to the ETag of that response.
\<close>

lemma fetch_active_alerts_cache:
  assumes "fetch_active_alerts c dl dec env area etags = (((res, err), etags'), log)"
  shows "((res = None) \<noteq> (err = None)) \<and>
    (err \<noteq> None \<longrightarrow> etags' = etags) \<and>
    (\<forall>alerts. res = Some alerts \<longrightarrow> (\<exists>k < MaxAttempts. \<exists>h b. att_outcome (env k) = Resp 200 h b \<and>
       dec (take NWSResponseMaxBytes b) = Some alerts \<and>
       etags' = (if h ''ETag'' \<noteq> '''' then etags(alerts_endpoint c area \<mapsto> h ''ETag'') else etags))) \<and>
    (err = Some ErrNotModified \<longrightarrow> (\<exists>k < MaxAttempts. \<exists>h b. att_outcome (env k) = Resp 304 h b))"
  using assms by (rule fetch_cache)

theorem fetch_active_alerts_cache_witness:
  "\<exists>k < MaxAttempts. \<exists>h b. att_outcome (sample_env k) = Resp 200 h b"
proof -
  obtain log where "sample_fetch = ((fst (fst sample_fetch), snd (fst sample_fetch)), log)"
    by (metis surjective_pairing)
  then have "sample_fetch = (((sample_decode ''{}'', None), snd (fst sample_fetch)), log)"
    by (simp add: sample_fetch_value)
  from fetch_active_alerts_cache [OF this [unfolded sample_fetch_def]] show ?thesis
    by (auto simp: sample_decode_def)
qed

text \<open>
  The endpoints of two areas differ, whatever characters an area holds, so one area's cached
  ETag is never sent for another.
\<close>

lemma alerts_endpoint_injective: "alerts_endpoint c a = alerts_endpoint c b \<longleftrightarrow> a = b"
  by (simp add: alerts_endpoint_def query_escape_inj)

end
