(* ===== verification/Go_Csv.thy ===== *)
theory Go_Csv
  imports Complex_Main Go_Decimal
begin

text \<open>
  What the SPC client uses of Go's standard library: \<open>encoding/csv\<close> with a comma, variable field
  counts and \<open>TrimLeadingSpace\<close>, and \<open>strconv.ParseFloat\<close> to 64 bits. The value of a finite
  literal is the exact rational, rounded by the parameter \<open>fl\<close> (\<open>None\<close> when it is out of the range
  of a \<open>float64\<close>); the sign of a zero is not kept.
\<close>

section \<open>Lines\<close>

definition newline :: char where "newline = CHR 0x0A"
definition carriage_return :: char where "carriage_return = CHR 0x0D"
definition quote_char :: char where "quote_char = CHR 0x22"
definition comma :: char where "comma = CHR 0x2C"

lemma csv_chars [simp]:
  "quote_char \<noteq> comma" "comma \<noteq> quote_char" "newline \<noteq> quote_char" "quote_char \<noteq> newline"
  "newline \<noteq> comma" "comma \<noteq> newline" "carriage_return \<noteq> newline" "newline \<noteq> carriage_return"
  "quote_char \<noteq> carriage_return" "carriage_return \<noteq> quote_char" "comma \<noteq> carriage_return" "carriage_return \<noteq> comma"
  by (simp_all add: newline_def carriage_return_def quote_char_def comma_def)

text \<open>
  The lines \<open>readLine\<close> returns one by one, each with its newline; a carriage return before a
  newline or before the end of the input is dropped.
\<close>

fun csv_lines_from :: "string \<Rightarrow> string \<Rightarrow> string list" where
  "csv_lines_from acc [] =
     (case acc of
        [] \<Rightarrow> []
      | c # r \<Rightarrow> [rev (if c = carriage_return then r else acc)])"
| "csv_lines_from acc (c # s) =
     (if c = newline then
        rev (c # (case acc of [] \<Rightarrow> [] | d # r \<Rightarrow> if d = carriage_return then r else acc))
          # csv_lines_from [] s
      else csv_lines_from (c # acc) s)"

definition csv_lines :: "string \<Rightarrow> string list" where
  "csv_lines s = csv_lines_from [] s"

text \<open>\<open>lengthNL(line) == len(line)\<close>.\<close>

definition only_newline :: "string \<Rightarrow> bool" where
  "only_newline l \<longleftrightarrow> l = [] \<or> l = [newline]"

definition drop_newline :: "string \<Rightarrow> string" where
  "drop_newline l = (if l \<noteq> [] \<and> last l = newline then butlast l else l)"

section \<open>Fields and records\<close>

datatype csv_error = ErrBareQuote | ErrQuote | ErrRead

text \<open>
  The text of a quoted field after its opening quote: the field, what follows it on its line when
  a comma did, and the lines left. A field may run over several lines.
\<close>

function csv_quoted ::
  "string \<Rightarrow> string list \<Rightarrow> string \<Rightarrow> csv_error + (string \<times> string option \<times> string list)" where
  "csv_quoted [] [] acc = Inl ErrQuote"
| "csv_quoted [] (l # ls) acc = csv_quoted l ls acc"
| "csv_quoted (c # s) ls acc =
     (if c = quote_char then
        (if s \<noteq> [] \<and> hd s = quote_char then csv_quoted (tl s) ls (acc @ [quote_char])
         else if s \<noteq> [] \<and> hd s = comma then Inr (acc, Some (tl s), ls)
         else if only_newline s then Inr (acc, None, ls)
         else Inl ErrQuote)
      else csv_quoted s ls (acc @ [c]))"
  by pat_completeness auto
termination
  by (relation "measure (\<lambda>(s, ls, acc). length s + sum_list (map (\<lambda>l. Suc (length l)) ls))") auto

definition csv_size :: "string \<Rightarrow> string list \<Rightarrow> nat" where
  "csv_size s ls = length s + sum_list (map (\<lambda>l. Suc (length l)) ls)"

lemma csv_quoted_size:
  "csv_quoted s ls acc = Inr (f, r, ls') \<Longrightarrow>
     csv_size [] ls' \<le> csv_size s ls \<and> (\<forall>s'. r = Some s' \<longrightarrow> csv_size s' ls' < csv_size s ls)"
proof (induction s ls acc arbitrary: f r ls' rule: csv_quoted.induct)
  case (3 c s ls acc)
  then show ?case by (cases s) (fastforce simp: csv_size_def split: if_splits)+
qed (fastforce simp: csv_size_def)+

lemma trim_left_length: "length (trim_left s) \<le> length s"
proof (induction s rule: trim_left.induct)
  case (1 s)
  then show ?case
    by (cases "skip_space s") (auto simp: trim_left_None trim_left_Some dest: skip_space_length)
qed

lemma csv_quoted_shrinks:
  assumes "csv_quoted (tl (trim_left line)) ls [] = Inr (f, Some r, ls')" "trim_left line \<noteq> []"
  shows "csv_size r ls' < csv_size line ls"
proof -
  have "csv_size r ls' < csv_size (tl (trim_left line)) ls"
    using csv_quoted_size [OF assms(1)] by simp
  also have "\<dots> \<le> csv_size line ls"
    using trim_left_length [of line] by (simp add: csv_size_def)
  finally show ?thesis .
qed

text \<open>The fields of a record from the rest of its line on, and the lines left.\<close>

function csv_fields ::
  "string \<Rightarrow> string list \<Rightarrow> string list \<Rightarrow> csv_error + (string list \<times> string list)" where
  "csv_fields line ls fields =
     (let line = trim_left line
      in if line = [] \<or> hd line \<noteq> quote_char then
           (let (before, after) = (takeWhile (\<lambda>c. c \<noteq> comma) line, dropWhile (\<lambda>c. c \<noteq> comma) line);
                field = (if after = [] then drop_newline before else before)
            in if quote_char \<in> set field then Inl ErrBareQuote
               else if after = [] then Inr (fields @ [field], ls)
               else csv_fields (tl after) ls (fields @ [field]))
         else (case csv_quoted (tl line) ls [] of
                 Inl e \<Rightarrow> Inl e
               | Inr (field, Some rest, ls') \<Rightarrow> csv_fields rest ls' (fields @ [field])
               | Inr (field, None, ls') \<Rightarrow> Inr (fields @ [field], ls')))"
  by pat_completeness auto
termination
proof (relation "measure (\<lambda>(s, ls, fs). csv_size s ls)", goal_cases)
  case 1
  show ?case by simp
next
  case (2 line ls fields l p b a f)
  then have "length a \<le> length line" "a \<noteq> []"
    using length_dropWhile_le [of "\<lambda>c. c \<noteq> comma" l] trim_left_length [of line] by auto
  then show ?case by (cases a) (simp_all add: csv_size_def)
next
  case 3
  then show ?case by (auto dest: csv_quoted_shrinks)
qed

declare csv_fields.simps [simp del]

lemma csv_fields_size: "csv_fields s ls fs = Inr (r, ls') \<Longrightarrow> csv_size [] ls' \<le> csv_size s ls"
proof (induction s ls fs rule: csv_fields.induct)
  case (1 line ls fs)
  let ?l = "trim_left line"
  have l: "length ?l \<le> length line" by (rule trim_left_length)
  show ?case
  proof (cases "?l = [] \<or> hd ?l \<noteq> quote_char")
    case plain: True
    let ?a = "dropWhile (\<lambda>c. c \<noteq> comma) ?l"
    have "length ?a \<le> length ?l" by (rule length_dropWhile_le)
    with l have "csv_size (tl ?a) ls \<le> csv_size line ls" by (simp add: csv_size_def)
    moreover have "csv_size [] ls \<le> csv_size line ls" by (simp add: csv_size_def)
    ultimately show ?thesis
      using plain "1.prems" "1.IH"(1) [OF refl plain refl refl]
      by (subst (asm) csv_fields.simps) (auto simp: Let_def split: if_splits)
  next
    case quoted: False
    show ?thesis
    proof (cases "csv_quoted (tl ?l) ls []")
      case (Inl e)
      with quoted "1.prems" show ?thesis by (subst (asm) csv_fields.simps) (auto simp: Let_def)
    next
      case (Inr t)
      obtain f ro ls'' where t: "t = (f, ro, ls'')" by (cases t)
      have small: "csv_size (tl ?l) ls \<le> csv_size line ls" using l by (simp add: csv_size_def)
      show ?thesis
      proof (cases ro)
        case None
        with quoted "1.prems" Inr t have "ls' = ls''"
          by (subst (asm) csv_fields.simps) (auto simp: Let_def)
        with csv_quoted_size [of "tl ?l" ls "[]" f ro ls''] Inr t small show ?thesis by simp
      next
        case (Some rest)
        with quoted "1.prems" Inr t have "csv_fields rest ls'' (fs @ [f]) = Inr (r, ls')"
          by (subst (asm) csv_fields.simps) (auto simp: Let_def)
        with "1.IH"(2) [OF refl quoted Inr [unfolded t] refl refl Some] have "csv_size [] ls' \<le> csv_size rest ls''"
          by simp
        with csv_quoted_shrinks [of line ls f rest ls''] quoted Inr t Some show ?thesis by simp
      qed
    qed
  qed
qed

text \<open>\<open>Reader.ReadAll\<close>. \<open>failed\<close> says that reading the input ended in an error other than EOF.\<close>

function csv_records :: "string list \<Rightarrow> csv_error + string list list" where
  "csv_records [] = Inr []"
| "csv_records (l # ls) =
     (if only_newline l then csv_records ls
      else case csv_fields l ls [] of
        Inl e \<Rightarrow> Inl e
      | Inr (r, ls') \<Rightarrow> (case csv_records ls' of Inl e \<Rightarrow> Inl e | Inr rs \<Rightarrow> Inr (r # rs)))"
  by pat_completeness auto
termination
  by (relation "measure (csv_size [])") (auto simp: csv_size_def only_newline_def dest!: csv_fields_size)

definition csv_read_all :: "bool \<Rightarrow> string \<Rightarrow> csv_error + string list list" where
  "csv_read_all failed s =
     (case csv_records (csv_lines s) of
        Inl e \<Rightarrow> Inl e
      | Inr rs \<Rightarrow> if failed then Inl ErrRead else Inr rs)"

section \<open>Floating-point literals\<close>

datatype float64 = Finite rat | PosInf | NegInf | NaN

definition hex_letter :: "char \<Rightarrow> bool" where
  "hex_letter c \<longleftrightarrow> 97 \<le> code (ascii_lower c) \<and> code (ascii_lower c) \<le> 102"

definition mantissa_digit :: "char \<Rightarrow> int" where
  "mantissa_digit c = (if is_digit c then digit_val c else int (code (ascii_lower c)) - 87)"

text \<open>The special values, in any case; NaN takes no sign.\<close>

definition special_float :: "string \<Rightarrow> float64 option" where
  "special_float s =
     (let l = map ascii_lower s
      in if l \<in> {''inf'', ''infinity'', ''+inf'', ''+infinity''} then Some PosInf
         else if l \<in> {''-inf'', ''-infinity''} then Some NegInf
         else if l = ''nan'' then Some NaN
         else None)"

text \<open>\<open>underscoreOK\<close>: an underscore separates digits, or follows the base prefix. \<open>prev\<close> is the
  kind of the character before: \<open>0\<close> a digit or the prefix, \<open>_\<close> an underscore, \<open>!\<close> any other.\<close>

fun underscores_from :: "bool \<Rightarrow> char \<Rightarrow> string \<Rightarrow> bool" where
  "underscores_from hex prev [] = (prev \<noteq> CHR ''_'')"
| "underscores_from hex prev (c # s) =
     (if is_digit c \<or> hex \<and> hex_letter c then underscores_from hex (CHR ''0'') s
      else if c = CHR ''_'' then prev = CHR ''0'' \<and> underscores_from hex (CHR ''_'') s
      else prev \<noteq> CHR ''_'' \<and> underscores_from hex (CHR ''!'') s)"

text \<open>The exponent, clamped the way the loop of \<open>readFloat\<close> clamps it.\<close>

fun exponent_val :: "int \<Rightarrow> string \<Rightarrow> int" where
  "exponent_val e [] = e"
| "exponent_val e (c # s) =
     (if c = CHR ''_'' then exponent_val e s
      else exponent_val (if e < 10000 then e * 10 + digit_val c else e) s)"

definition read_exponent :: "string \<Rightarrow> int option" where
  "read_exponent s =
     (let (neg, ds) = (case s of [] \<Rightarrow> (False, [])
                       | c # r \<Rightarrow> if c = CHR ''-'' then (True, r)
                                  else if c = CHR ''+'' then (False, r) else (False, s))
      in if ds = [] \<or> \<not> is_digit (hd ds) \<or> \<not> list_all (\<lambda>c. is_digit c \<or> c = CHR ''_'') ds then None
         else Some (if neg then - exponent_val 0 ds else exponent_val 0 ds))"

definition scale :: "rat \<Rightarrow> rat \<Rightarrow> int \<Rightarrow> rat" where
  "scale b m e = (if e < 0 then m / b ^ nat (- e) else m * b ^ nat e)"

text \<open>A decimal or hexadecimal literal without its sign, as its exact value.\<close>

definition read_float :: "string \<Rightarrow> rat option" where
  "read_float s =
     (let hex = (2 < length s \<and> hd s = CHR ''0'' \<and> ascii_lower (s ! 1) = CHR ''x'');
          body = (if hex then drop 2 s else s);
          part = (\<lambda>c. c = CHR ''_'' \<or> c = CHR ''.'' \<or> is_digit c \<or> hex \<and> hex_letter c);
          m = takeWhile part body;
          r = dropWhile part body;
          whole = filter (\<lambda>c. c \<noteq> CHR ''_'') (takeWhile (\<lambda>c. c \<noteq> CHR ''.'') m);
          frac = filter (\<lambda>c. c \<noteq> CHR ''_'') (drop 1 (dropWhile (\<lambda>c. c \<noteq> CHR ''.'') m));
          base = (if hex then 16 else 10);
          mant = foldl (\<lambda>n c. n * base + mantissa_digit c) 0 (whole @ frac);
          val = of_int mant / of_int base ^ length frac
      in if CHR ''.'' \<in> set frac \<or> whole @ frac = [] then None
         else if CHR ''_'' \<in> set s \<and> \<not> underscores_from hex (if hex then CHR ''0'' else CHR ''^'') body
         then None
         else if r = [] then (if hex then None else Some val)
         else if ascii_lower (hd r) = (if hex then CHR ''p'' else CHR ''e'')
         then map_option (scale (if hex then 2 else 10) val) (read_exponent (tl r))
         else None)"

definition parse_float64 :: "(rat \<Rightarrow> rat option) \<Rightarrow> string \<Rightarrow> float64 option" where
  "parse_float64 fl s =
     (case special_float s of
        Some f \<Rightarrow> Some f
      | None \<Rightarrow>
          (let (neg, u) = (case s of [] \<Rightarrow> (False, [])
                           | c # r \<Rightarrow> if c = CHR ''-'' then (True, r)
                                      else if c = CHR ''+'' then (False, r) else (False, s))
           in case read_float u of
                None \<Rightarrow> None
              | Some v \<Rightarrow> map_option Finite (fl (if neg then - v else v))))"

section \<open>Reading back what a CSV writer prints\<close>

text \<open>A row with every field quoted, and the fields that stay on one line.\<close>

definition escape_field :: "string \<Rightarrow> string" where
  "escape_field f = concat (map (\<lambda>c. if c = quote_char then [quote_char, quote_char] else [c]) f)"

definition quote_field :: "string \<Rightarrow> string" where
  "quote_field f = quote_char # escape_field f @ [quote_char]"

definition row_text :: "string list \<Rightarrow> string" where
  "row_text r = join [comma] (map quote_field r) @ [newline]"

definition one_line :: "string \<Rightarrow> bool" where
  "one_line f \<longleftrightarrow> newline \<notin> set f \<and> carriage_return \<notin> set f"

lemma escape_field_simps [simp]:
  "escape_field [] = []"
  "escape_field (c # f) = (if c = quote_char then [quote_char, quote_char] else [c]) @ escape_field f"
  by (simp_all add: escape_field_def)

lemma escape_field_one_line: "one_line f \<Longrightarrow> one_line (escape_field f)"
  by (induction f) (auto simp: one_line_def)

lemma csv_quoted_end: "csv_quoted (escape_field f @ [quote_char, newline]) ls acc = Inr (acc @ f, None, ls)"
  by (induction f arbitrary: acc) (auto simp: only_newline_def)

lemma csv_quoted_comma:
  "csv_quoted (escape_field f @ quote_char # comma # s) ls acc = Inr (acc @ f, Some s, ls)"
  by (induction f arbitrary: acc) auto

lemma quote_char_no_space: "no_space_byte quote_char"
  by (simp add: no_space_byte_def quote_char_def code_def)

lemma csv_fields_row: "r \<noteq> [] \<Longrightarrow> csv_fields (row_text r) ls fs = Inr (fs @ r, ls)"
proof (induction r arbitrary: fs)
  case Nil
  then show ?case by simp
next
  case (Cons f r)
  have trim: "trim_left (quote_char # s) = quote_char # s" for s
    by (intro trim_left_None skip_space_shield quote_char_no_space)
  show ?case
  proof (cases r)
    case Nil
    then show ?thesis
      using csv_quoted_end [of f ls "[]"]
      by (subst csv_fields.simps) (simp add: row_text_def quote_field_def trim)
  next
    case (Cons g r')
    then have "row_text (f # r) = quote_char # escape_field f @ quote_char # comma # row_text r"
      by (simp add: row_text_def quote_field_def)
    then show ?thesis
      using Cons.IH [of "fs @ [f]"] Cons csv_quoted_comma [of f "row_text r" ls "[]"]
      by (subst csv_fields.simps) (simp add: trim)
  qed
qed

lemma csv_lines_from_line:
  "one_line l \<Longrightarrow> one_line acc \<Longrightarrow>
     csv_lines_from acc (l @ newline # s) = (rev acc @ l @ [newline]) # csv_lines_from [] s"
  by (induction l arbitrary: acc) (auto simp: one_line_def split: list.splits)

lemma row_text_line:
  assumes "\<forall>f \<in> set r. one_line f"
  obtains l where "row_text r = l @ [newline]" "one_line l"
proof
  show "row_text r = join [comma] (map quote_field r) @ [newline]" by (simp add: row_text_def)
  show "one_line (join [comma] (map quote_field r))"
    using assms
  proof (induction r rule: induct_list012)
    case (2 f)
    then show ?case using escape_field_one_line [of f] by (simp add: one_line_def quote_field_def)
  next
    case (3 f g r)
    then show ?case using escape_field_one_line [of f] by (simp add: one_line_def quote_field_def)
  qed (simp add: one_line_def)
qed

lemma csv_lines_rows:
  "\<forall>r \<in> set rows. \<forall>f \<in> set r. one_line f \<Longrightarrow> csv_lines (concat (map row_text rows)) = map row_text rows"
proof (induction rows)
  case Nil
  then show ?case by (simp add: csv_lines_def)
next
  case (Cons r rows)
  from Cons.prems obtain l where l: "row_text r = l @ [newline]" "one_line l"
    using row_text_line [of r] by auto
  have "csv_lines_from [] (l @ newline # concat (map row_text rows)) =
      (l @ [newline]) # csv_lines_from [] (concat (map row_text rows))"
    using csv_lines_from_line [OF l(2), of "[]"] by (simp add: one_line_def)
  with Cons l show ?case by (simp add: csv_lines_def)
qed

lemma row_text_not_blank: "r \<noteq> [] \<Longrightarrow> \<not> only_newline (row_text r)"
proof (cases r)
  case (Cons f r')
  then show ?thesis
    by (cases r') (auto simp: row_text_def only_newline_def quote_field_def)
qed simp

lemma csv_read_all_rows:
  assumes "\<forall>r \<in> set rows. r \<noteq> [] \<and> (\<forall>f \<in> set r. one_line f)"
  shows "csv_read_all False (concat (map row_text rows)) = Inr rows"
proof -
  have "csv_records (map row_text rows) = Inr rows"
    using assms by (induction rows) (auto simp: row_text_not_blank csv_fields_row)
  with assms show ?thesis by (simp add: csv_read_all_def csv_lines_rows)
qed

section \<open>Reading back what a decimal printer prints\<close>

lemma special_float_decimal:
  assumes "decimal_ok d"
  shows "special_float (decimal_text d) = None"
proof -
  let ?l = "map ascii_lower (decimal_text d)"
  have "last ?l = last (decimal_text d)"
    using decimal_text_not_Nil [OF assms] last_decimal_text [OF assms]
    by (simp add: last_map ascii_lower_def is_upper_def is_digit_def)
  then have "is_digit (last ?l)" using last_decimal_text [OF assms] by simp
  then show ?thesis by (auto simp: special_float_def Let_def is_digit_def code_def)
qed

lemma read_float_decimal:
  assumes "decimal_ok d"
  shows "read_float (unsigned_text d) = Some (unsigned_rat d)"
proof -
  let ?u = "unsigned_text d"
  have ds: "list_all is_digit (dc_whole d @ dc_frac d)" "dc_whole d \<noteq> []"
    using assms by (auto simp: decimal_ok_def)
  have chars: "is_digit c \<or> c = CHR ''.''" if "c \<in> set ?u" for c
    using unsigned_text_digit_or_point [OF assms that] .
  have x: "ascii_lower c \<noteq> CHR ''x''" if "c \<in> set ?u" for c
    using chars [OF that] by (auto simp: ascii_lower_def is_upper_def is_digit_def code_def)
  have no_hex: "(2 < length ?u \<and> hd ?u = CHR ''0'' \<and> ascii_lower (?u ! 1) = CHR ''x'') = False"
    using x [of "?u ! 1"] by auto
  have part: "\<forall>c \<in> set ?u. c = CHR ''_'' \<or> c = CHR ''.'' \<or> is_digit c \<or> False \<and> hex_letter c"
    using chars by auto
  have parts: "list_all is_digit (dc_whole d)" "list_all is_digit (dc_frac d)" using ds by auto
  have no_point: "list_all (\<lambda>c. c \<noteq> CHR ''.'') (dc_whole d)" "CHR ''.'' \<notin> set (dc_frac d)"
    using digits_without [OF parts(1) not_digit_chars(1)] digits_without [OF parts(2) not_digit_chars(1)]
    by (auto simp: list_all_iff)
  have under: "CHR ''_'' \<notin> set (dc_whole d)" "CHR ''_'' \<notin> set (dc_frac d)"
    using digits_without [OF parts(1) not_digit_chars(4)] digits_without [OF parts(2) not_digit_chars(4)] by blast+
  then have no_under: "filter (\<lambda>c. c \<noteq> CHR ''_'') (dc_whole d) = dc_whole d"
      "filter (\<lambda>c. c \<noteq> CHR ''_'') (dc_frac d) = dc_frac d" "CHR ''_'' \<notin> set ?u"
    by (auto simp: filter_id_conv unsigned_text_def)
  have frac: "drop 1 (if dc_frac d = [] then [] else CHR ''.'' # dc_frac d) = dc_frac d" by simp
  have mant: "foldl (\<lambda>n c. n * 10 + mantissa_digit c) 0 (dc_whole d @ dc_frac d) =
      digits_val 0 (dc_whole d @ dc_frac d)"
    using ds by (intro foldl_digits) (simp_all add: mantissa_digit_def)
  have take: "takeWhile (\<lambda>c. c = CHR ''_'' \<or> c = CHR ''.'' \<or> is_digit c) ?u = ?u"
      "dropWhile (\<lambda>c. c = CHR ''_'' \<or> c = CHR ''.'' \<or> is_digit c) ?u = []"
    using part by (auto simp: takeWhile_eq_all_conv dropWhile_eq_Nil_conv)
  note split = takeWhile_number [OF assms no_point(1)]
  show ?thesis
    unfolding read_float_def no_hex Let_def
    using ds no_point no_under frac mant by (simp add: take split unsigned_rat_def)
qed

theorem parse_float64_decimal:
  assumes "decimal_ok d"
  shows "parse_float64 fl (decimal_text d) = map_option Finite (fl (decimal_rat d))"
proof -
  obtain c r where c: "unsigned_text d = c # r" "is_digit c" using unsigned_text_Cons [OF assms] by blast
  then have "c \<noteq> CHR ''-''" "c \<noteq> CHR ''+''" by auto
  with c show ?thesis
    using read_float_decimal [OF assms] special_float_decimal [OF assms]
    by (cases "dc_neg d") (simp_all add: parse_float64_def decimal_text_def decimal_rat_def)
qed

end
