(* ===== verification/Go_Panic.thy ===== *)
theory Go_Panic
  imports Go_Regexp
begin

text \<open>
  Calls that may panic. In Go an index or a slice out of range and the dereference of a nil pointer
  panic; the operations here check what the runtime checks, so that a guard missing from the code
  would show as \<open>Panics\<close>.
\<close>

datatype 'a call = Returns 'a | Panics string

text \<open>Sequencing: a panic skips what follows.\<close>

fun then_go :: "'a call \<Rightarrow> ('a \<Rightarrow> 'b call) \<Rightarrow> 'b call" where
  "then_go (Returns a) f = f a"
| "then_go (Panics m) f = Panics m"

lemma then_go_Returns: "then_go m f = Returns b \<longleftrightarrow> (\<exists>a. m = Returns a \<and> f a = Returns b)"
  by (cases m) auto

fun map_go :: "('a \<Rightarrow> 'b call) \<Rightarrow> 'a list \<Rightarrow> 'b list call" where
  "map_go f [] = Returns []"
| "map_go f (x # xs) = then_go (f x) (\<lambda>y. then_go (map_go f xs) (\<lambda>ys. Returns (y # ys)))"

lemma map_go_Returns [simp]: "map_go (\<lambda>x. Returns (f x)) xs = Returns (map f xs)"
  by (induction xs) auto

section \<open>Checked operations\<close>

text \<open>\<open>xs[i]\<close>, \<open>xs[i] = x\<close>, \<open>s[lo:hi]\<close>, \<open>s[lo:]\<close> and \<open>*p\<close>.\<close>

definition go_index :: "'a list \<Rightarrow> nat \<Rightarrow> 'a call" where
  "go_index xs i = (if i < length xs then Returns (xs ! i) else Panics ''index out of range'')"

definition go_update :: "'a list \<Rightarrow> nat \<Rightarrow> 'a \<Rightarrow> 'a list call" where
  "go_update xs i x = (if i < length xs then Returns (xs[i := x]) else Panics ''index out of range'')"

definition go_slice :: "'a list \<Rightarrow> nat \<Rightarrow> nat \<Rightarrow> 'a list call" where
  "go_slice s lo hi =
     (if lo \<le> hi \<and> hi \<le> length s then Returns (drop lo (take hi s))
      else Panics ''slice bounds out of range'')"

definition go_slice_from :: "'a list \<Rightarrow> nat \<Rightarrow> 'a list call" where
  "go_slice_from s lo = go_slice s lo (length s)"

definition go_deref :: "'a option \<Rightarrow> 'a call" where
  "go_deref p = (case p of None \<Rightarrow> Panics ''nil pointer dereference'' | Some a \<Rightarrow> Returns a)"

lemma go_index_ok [simp]: "i < length xs \<Longrightarrow> go_index xs i = Returns (xs ! i)"
  by (simp add: go_index_def)

lemma go_update_ok [simp]: "i < length xs \<Longrightarrow> go_update xs i x = Returns (xs[i := x])"
  by (simp add: go_update_def)

lemma go_slice_ok [simp]: "lo \<le> hi \<Longrightarrow> hi \<le> length s \<Longrightarrow> go_slice s lo hi = Returns (drop lo (take hi s))"
  by (simp add: go_slice_def)

lemma go_slice_from_ok [simp]: "lo \<le> length s \<Longrightarrow> go_slice_from s lo = Returns (drop lo s)"
  by (simp add: go_slice_from_def)

lemma go_deref_Some [simp]: "go_deref (Some a) = Returns a"
  by (simp add: go_deref_def)

section \<open>Submatches\<close>

text \<open>
  \<open>m[k]\<close> on the result of \<open>FindStringSubmatch\<close>: nil, of length 0, without a match, else one
  element for the match and one for each group of the pattern.
\<close>

fun group_count :: "rx \<Rightarrow> nat" where
  "group_count (Seq a b) = group_count a + group_count b"
| "group_count (Alt a b) = group_count a + group_count b"
| "group_count (Opt a) = group_count a"
| "group_count (Grp k a) = Suc (group_count a)"
| "group_count _ = 0"

definition go_submatch :: "rx \<Rightarrow> captures option \<Rightarrow> nat \<Rightarrow> string call" where
  "go_submatch re m k =
     (case m of
        Some g \<Rightarrow> if 0 < k \<and> k \<le> group_count re then Returns (group k g) else Panics ''index out of range''
      | None \<Rightarrow> Panics ''index out of range'')"

lemma go_submatch_ok [simp]: "0 < k \<Longrightarrow> k \<le> group_count re \<Longrightarrow> go_submatch re (Some g) k = Returns (group k g)"
  by (simp add: go_submatch_def)

end
