(* ===== verification/Spc.thy ===== *)
theory Spc
  imports Retry Go_Csv Go_Panic
begin

text \<open>
  The storm report client of \<open>internal/spc\<close>: the fetch loop over one CSV file and the parser of
  its rows. The network is the environment, as for the NWS client; the clock is read once per row
  with a time, \<open>clock i\<close> for row \<open>i\<close>.
\<close>

section \<open>Reports\<close>

record storm_report =
  sr_Time :: time
  sr_Magnitude :: string
  sr_Location :: string
  sr_County :: string
  sr_State :: string
  sr_Lat :: float64
  sr_Lon :: float64
  sr_Comments :: string
  sr_Type :: string

text \<open>The zero value of \<open>time.Time\<close> (1 January of year 1) and the start of an instant's UTC day.\<close>

definition zero_time :: time where "zero_time = -62135596800 * second"
definition day :: duration where "day = 86400 * second"
definition day_start :: "time \<Rightarrow> time" where "day_start t = t - t mod day"

definition atoi0 :: "string \<Rightarrow> int" where
  "atoi0 s = (case atoi s of None \<Rightarrow> 0 | Some v \<Rightarrow> v)"

text \<open>\<open>time.Date\<close> normalises hours and minutes out of range by carrying them over.\<close>

definition report_time :: "time \<Rightarrow> string \<Rightarrow> time call" where
  "report_time now timeStr =
     (if length timeStr = 4
      then then_go (go_slice timeStr 0 2) (\<lambda>hh.
           then_go (go_slice_from timeStr 2) (\<lambda>mm.
             let hour = atoi0 hh; min = atoi0 mm
             in Returns (day_start now + hour * (3600 * second) + min * (60 * second))))
      else Returns zero_time)"

definition parse_row ::
  "(rat \<Rightarrow> rat option) \<Rightarrow> time \<Rightarrow> string \<Rightarrow> string list \<Rightarrow> storm_report option call" where
  "parse_row fl now reportType rec =
     (if length rec < 8 then Returns None
      else then_go (go_index rec 5) (\<lambda>r5.
        case parse_float64 fl (trim_space r5) of
          None \<Rightarrow> Returns None
        | Some lat \<Rightarrow> then_go (go_index rec 6) (\<lambda>r6.
            case parse_float64 fl (trim_space r6) of
              None \<Rightarrow> Returns None
            | Some lon \<Rightarrow>
                then_go (go_index rec 1) (\<lambda>r1. then_go (go_index rec 2) (\<lambda>r2.
                then_go (go_index rec 3) (\<lambda>r3. then_go (go_index rec 4) (\<lambda>r4.
                then_go (go_index rec 7) (\<lambda>r7. then_go (go_index rec 0) (\<lambda>r0.
                then_go (report_time now (trim_space r0)) (\<lambda>t.
                  Returns (Some
                    \<lparr>sr_Time = t, sr_Magnitude = trim_space r1, sr_Location = trim_space r2,
                     sr_County = trim_space r3, sr_State = trim_space r4, sr_Lat = lat, sr_Lon = lon,
                     sr_Comments = trim_space r7, sr_Type = reportType\<rparr>)))))))))))"

text \<open>The loop over the records: the first is the header, the index picks the clock reading.\<close>

fun rows_loop ::
  "(rat \<Rightarrow> rat option) \<Rightarrow> (nat \<Rightarrow> time) \<Rightarrow> string \<Rightarrow> nat \<Rightarrow> string list list \<Rightarrow> storm_report list call" where
  "rows_loop fl clock reportType i [] = Returns []"
| "rows_loop fl clock reportType i (r # rs) =
     (if i = 0 then rows_loop fl clock reportType (Suc i) rs
      else then_go (parse_row fl (clock i) reportType r) (\<lambda>rep.
        case rep of
          None \<Rightarrow> rows_loop fl clock reportType (Suc i) rs
        | Some rep \<Rightarrow> then_go (rows_loop fl clock reportType (Suc i) rs) (\<lambda>reps. Returns (rep # reps))))"

definition parse_csv_reports ::
  "(rat \<Rightarrow> rat option) \<Rightarrow> (nat \<Rightarrow> time) \<Rightarrow> bool \<Rightarrow> string \<Rightarrow> string \<Rightarrow> (csv_error + storm_report list) call" where
  "parse_csv_reports fl clock failed body reportType =
     (case csv_read_all failed body of
        Inl e \<Rightarrow> Returns (Inl e)
      | Inr records \<Rightarrow>
          then_go (rows_loop fl clock reportType 0 records) (\<lambda>reports. Returns (Inr reports)))"

text \<open>No row makes the parser panic.\<close>

lemma report_time_returns: "\<exists>t. report_time now s = Returns t"
  by (simp add: report_time_def Let_def)

lemma parse_row_returns: "\<exists>r. parse_row fl now ty rec = Returns r"
proof -
  obtain t where "report_time now (trim_space (rec ! 0)) = Returns t" using report_time_returns by blast
  moreover have "go_index rec 0 = Returns (rec ! 0)" if "\<not> length rec < 8"
    using that by (intro go_index_ok) linarith
  ultimately show ?thesis by (auto simp: parse_row_def split: option.split)
qed

lemma rows_loop_returns: "\<exists>rs. rows_loop fl clock ty i recs = Returns rs"
proof (induction recs arbitrary: i)
  case (Cons rec recs)
  obtain r where "parse_row fl (clock i) ty rec = Returns r" using parse_row_returns by blast
  with Cons [of "Suc i"] show ?case by (auto split: option.split)
qed simp

lemma parse_csv_reports_returns: "\<exists>r. parse_csv_reports fl clock failed body ty = Returns r"
  using rows_loop_returns [of fl clock ty 0] by (auto simp: parse_csv_reports_def then_go_Returns split: sum.split)

section \<open>The fetch loop\<close>

record spc_attempt = http_attempt +
  att_body_failed :: bool               \<comment> \<open>reading the body ended in an error\<close>
  att_clock :: "nat \<Rightarrow> time"            \<comment> \<open>the clock readings while the rows are parsed\<close>

datatype spc_error =
    SpcCreateErr string
  | SpcFetchErr string
  | SpcStatusErr int
  | SpcCsvErr csv_error

record spc_client =
  spc_timeout :: duration
  spc_baseURL :: string

definition spc_new_client :: spc_client where
  "spc_new_client =
     \<lparr>spc_timeout = HTTPClientTimeoutSec * second, spc_baseURL = ''https://www.spc.noaa.gov/climo/reports''\<rparr>"

definition spc_retry_after_err :: "time option \<Rightarrow> spc_attempt \<Rightarrow> nat \<Rightarrow> bool" where
  "spc_retry_after_err deadline a i = wait_and_retry deadline (http_attempt.truncate a) i 0 False"

definition spc_retry_after_resp :: "time option \<Rightarrow> spc_attempt \<Rightarrow> nat \<Rightarrow> duration \<Rightarrow> bool \<Rightarrow> bool" where
  "spc_retry_after_resp deadline a i retryAfter hasRetryAfter =
     wait_and_retry deadline (http_attempt.truncate a) i retryAfter hasRetryAfter"

text \<open>The log holds the URL of each request. A loop that runs out returns \<open>(nil, lastErr)\<close>, read
  here as the error; \<open>None\<close> is a nil error.\<close>

function spc_fetch_loop ::
  "(rat \<Rightarrow> rat option) \<Rightarrow> time option \<Rightarrow> (nat \<Rightarrow> spc_attempt) \<Rightarrow> string \<Rightarrow> string \<Rightarrow> nat \<Rightarrow>
   spc_error option \<Rightarrow> (storm_report list \<times> spc_error option) call \<times> string list" where
  "spc_fetch_loop fl deadline env endpoint reportType attempt lastErr =
     (if attempt < MaxAttempts
      then (let a = env attempt
        in case att_build_err a of
          Some msg \<Rightarrow> (Returns ([], Some (SpcCreateErr msg)), [])
        | None \<Rightarrow>
            (case att_outcome a of
               TransportErr msg \<Rightarrow>
                 (let e = SpcFetchErr msg
                  in if \<not> spc_retry_after_err deadline a attempt then (Returns ([], Some e), [endpoint])
                     else let (r, log) = spc_fetch_loop fl deadline env endpoint reportType
                                (attempt + 1) (Some e)
                          in (r, endpoint # log))
             | Resp status header body \<Rightarrow>
                 if status \<noteq> 200 then
                   (let e = SpcStatusErr status;
                        (ra, hasRA) = parse_retry_after (header ''Retry-After'')
                    in if \<not> is_retryable_status status then (Returns ([], Some e), [endpoint])
                       else if \<not> spc_retry_after_resp deadline a attempt ra hasRA
                       then (Returns ([], Some e), [endpoint])
                       else let (r, log) = spc_fetch_loop fl deadline env endpoint reportType
                                  (attempt + 1) (Some e)
                            in (r, endpoint # log))
                 else
                   (then_go (parse_csv_reports fl (att_clock a)
                               (att_body_failed a \<and> length body < SPCResponseMaxBytes)
                               (take SPCResponseMaxBytes body) reportType)
                      (\<lambda>r. case r of
                         Inl e \<Rightarrow> Returns ([], Some (SpcCsvErr e))
                       | Inr reports \<Rightarrow> Returns (reports, None)),
                    [endpoint])))
      else (Returns ([], lastErr), []))"
  by pat_completeness auto
termination
  by (relation "measure (\<lambda>(fl, dl, env, ep, ty, i, e). MaxAttempts - i)") auto

declare spc_fetch_loop.simps [simp del]

definition fetch_reports ::
  "(rat \<Rightarrow> rat option) \<Rightarrow> spc_client \<Rightarrow> time option \<Rightarrow> (nat \<Rightarrow> spc_attempt) \<Rightarrow> string \<Rightarrow> string \<Rightarrow>
   (storm_report list \<times> spc_error option) call \<times> string list" where
  "fetch_reports fl c deadline env file reportType =
     spc_fetch_loop fl deadline env (spc_baseURL c @ ''/'' @ file) reportType 0 None"

definition fetch_today_tornado_reports where
  "fetch_today_tornado_reports fl c deadline env = fetch_reports fl c deadline env ''today_torn.csv'' ''tornado''"

definition fetch_today_hail_reports where
  "fetch_today_hail_reports fl c deadline env = fetch_reports fl c deadline env ''today_hail.csv'' ''hail''"

definition fetch_today_wind_reports where
  "fetch_today_wind_reports fl c deadline env = fetch_reports fl c deadline env ''today_wind.csv'' ''wind''"

section \<open>The retry loop\<close>

definition spc_answer ::
  "(rat \<Rightarrow> rat option) \<Rightarrow> string \<Rightarrow> spc_attempt \<Rightarrow> (storm_report list \<times> spc_error option) call" where
  "spc_answer fl reportType a =
     (case att_build_err a of
        Some msg \<Rightarrow> Returns ([], Some (SpcCreateErr msg))
      | None \<Rightarrow>
          (case att_outcome a of
             TransportErr msg \<Rightarrow> Returns ([], Some (SpcFetchErr msg))
           | Resp status header body \<Rightarrow>
               if status \<noteq> 200 then Returns ([], Some (SpcStatusErr status))
               else then_go (parse_csv_reports fl (att_clock a)
                             (att_body_failed a \<and> length body < SPCResponseMaxBytes)
                             (take SPCResponseMaxBytes body) reportType)
                       (\<lambda>r. case r of
                          Inl e \<Rightarrow> Returns ([], Some (SpcCsvErr e))
                        | Inr reports \<Rightarrow> Returns (reports, None))))"

definition spc_request :: "string \<Rightarrow> spc_attempt \<Rightarrow> string list" where
  "spc_request ep a = (if att_build_err a = None then [ep] else [])"

abbreviation spc_retried :: "time option \<Rightarrow> spc_attempt \<Rightarrow> nat \<Rightarrow> bool" where
  "spc_retried dl a i \<equiv> retried dl (http_attempt.truncate a) i"

lemma spc_fetch_step:
  assumes "i < MaxAttempts"
  shows "spc_fetch_loop fl dl env ep ty i e = (spc_answer fl ty (env i), spc_request ep (env i)) \<and>
       \<not> spc_retried dl (env i) i \<or>
     spc_retried dl (env i) i \<and>
     (\<exists>e'. spc_fetch_loop fl dl env ep ty i e =
        (fst (spc_fetch_loop fl dl env ep ty (Suc i) e'),
         spc_request ep (env i) @ snd (spc_fetch_loop fl dl env ep ty (Suc i) e')))"
proof -
  note loop = spc_fetch_loop.simps [of fl dl env ep ty i e]
  note defs = spc_answer_def spc_request_def retried_def transient_def http_attempt.truncate_def
  show ?thesis
  proof (cases "att_build_err (env i)")
    case (Some msg)
    with assms show ?thesis by (simp add: loop defs)
  next
    case build: None
    show ?thesis
    proof (cases "att_outcome (env i)")
      case (TransportErr msg)
      with assms build show ?thesis
        by (auto simp: loop defs spc_retry_after_err_def Let_def split_beta)
    next
      case (Resp status header body)
      obtain ra has where ra: "parse_retry_after (header ''Retry-After'') = (ra, has)" by fastforce
      show ?thesis
      proof (cases "status = 200")
        case True
        with assms build Resp show ?thesis
          by (auto simp: loop defs is_retryable_status_def Let_def)
      next
        case False
        with assms build Resp ra show ?thesis
          by (auto simp: loop defs spc_retry_after_resp_def Let_def split_beta)
      qed
    qed
  qed
qed

interpretation spc_retry: retry_loop "spc_fetch_loop fl dl env ep ty" "\<lambda>i. spc_answer fl ty (env i)"
  "\<lambda>i. spc_request ep (env i)" "\<lambda>i. spc_retried dl (env i) i"
  for fl dl env ep ty
proof unfold_locales
  show "length (spc_request ep (env i)) \<le> 1" for i by (simp add: spc_request_def)
  show "\<not> spc_retried dl (env (MaxAttempts - 1)) (MaxAttempts - 1)"
    using retried_not_last by blast
qed (rule spc_fetch_step)

text \<open>
  A fetch of a storm report file sends one request per attempt, all for that file; every attempt
  before the last one failed transiently with the retry policy's floor left before the deadline,
  and the result is the last attempt's: its error, or the reports of its 200 body.
\<close>

theorem fetch_reports_contract:
  "\<exists>k < MaxAttempts. (\<forall>j < k. spc_retried dl (env j) j) \<and> \<not> spc_retried dl (env k) k \<and>
     fst (fetch_reports fl c dl env file ty) = spc_answer fl ty (env k) \<and>
     snd (fetch_reports fl c dl env file ty) =
       replicate (if att_build_err (env k) = None then Suc k else k) (spc_baseURL c @ ''/'' @ file)"
proof -
  let ?ep = "spc_baseURL c @ ''/'' @ file"
  obtain k where k: "k < MaxAttempts" "\<forall>j < k. spc_retried dl (env j) j" "\<not> spc_retried dl (env k) k"
    "spc_fetch_loop fl dl env ?ep ty 0 None =
       (spc_answer fl ty (env k), concat (map (\<lambda>i. spc_request ?ep (env i)) [0..<Suc k]))"
    by (rule spc_retry.loop_outcome)
  have "\<forall>j < k. spc_request ?ep (env j) = [?ep]"
    using k(2)
    by (auto simp: spc_request_def http_attempt.truncate_def dest!: retried_transient simp: transient_def)
  from concat_rounds [OF this]
  have "concat (map (\<lambda>i. spc_request ?ep (env i)) [0..<Suc k]) =
      replicate (if att_build_err (env k) = None then Suc k else k) ?ep"
    by (simp add: spc_request_def replicate_append_same)
  with k show ?thesis
    unfolding fetch_reports_def by (intro exI [of _ k]) (simp del: upt_Suc)
qed

definition spc_sample_env :: "nat \<Rightarrow> spc_attempt" where
  "spc_sample_env i =
     \<lparr>att_build_err = None,
      att_outcome = (if i = 0 then Resp 502 (\<lambda>_. '''') ''bad gateway'' else Resp 404 (\<lambda>_. '''') ''gone''),
      att_now = int i * 3 * second, att_rand = (\<lambda>n. n - 1), att_ctx_first = None,
      att_body_failed = False, att_clock = (\<lambda>_. 0)\<rparr>"

theorem fetch_reports_contract_witness:
  "\<exists>k < MaxAttempts. (\<forall>j < k. spc_retried None (spc_sample_env j) j) \<and>
     fst (fetch_reports Some spc_new_client None spc_sample_env ''today_hail.csv'' ''hail'') =
       spc_answer Some ''hail'' (spc_sample_env k) \<and>
     snd (fetch_reports Some spc_new_client None spc_sample_env ''today_hail.csv'' ''hail'') =
       replicate (Suc k) ''https://www.spc.noaa.gov/climo/reports/today_hail.csv''"
proof -
  have "att_build_err (spc_sample_env k) = None" for k by (simp add: spc_sample_env_def)
  then show ?thesis
    using fetch_reports_contract [of None spc_sample_env Some spc_new_client "''today_hail.csv''" "''hail''"]
    by (auto simp: spc_new_client_def)
qed

section \<open>The rows of a file\<close>

text \<open>No attempt makes the client panic.\<close>

lemma spc_answer_returns: "\<exists>r. spc_answer fl ty a = Returns r"
proof (cases "\<exists>status header body. att_build_err a = None \<and> att_outcome a = Resp status header body \<and> status = 200")
  case True
  then obtain header body where ok: "att_build_err a = None" "att_outcome a = Resp 200 header body" by blast
  obtain r where "parse_csv_reports fl (att_clock a) (att_body_failed a \<and> length body < SPCResponseMaxBytes)
      (take SPCResponseMaxBytes body) ty = Returns r"
    using parse_csv_reports_returns by blast
  with ok show ?thesis by (cases r) (simp_all add: spc_answer_def)
next
  case False
  then show ?thesis by (auto simp: spc_answer_def split: option.split http_outcome.split)
qed

lemma fetch_reports_returns: "\<exists>r. fst (fetch_reports fl c dl env file ty) = Returns r"
proof -
  obtain k where "fst (fetch_reports fl c dl env file ty) = spc_answer fl ty (env k)"
    by (metis spc_retry.loop_outcome fetch_reports_def fst_conv)
  then show ?thesis using spc_answer_returns by simp
qed


text \<open>
  A line of a file as SPC prints it. A report has its time as hours and minutes, or a text of
  another length, then five texts around two decimals, and possibly more fields; any other line has
  too few fields or no number where a coordinate belongs. \<open>line_report\<close> is the report a line
  stands for when it is read at \<open>now\<close>.
\<close>

datatype clock_field = HHMM string string | NoClock string

datatype spc_line =
    ReportLine clock_field string string string string decimal decimal string "string list"
  | OtherLine "string list"

fun clock_text :: "clock_field \<Rightarrow> string" where
  "clock_text (HHMM hh mm) = hh @ mm"
| "clock_text (NoClock t) = t"

fun clock_ok :: "clock_field \<Rightarrow> bool" where
  "clock_ok (HHMM hh mm) \<longleftrightarrow> length hh = 2 \<and> length mm = 2 \<and> list_all is_digit hh \<and> list_all is_digit mm"
| "clock_ok (NoClock t) \<longleftrightarrow> length (trim_space t) \<noteq> 4 \<and> one_line t"

fun clock_time :: "time \<Rightarrow> clock_field \<Rightarrow> time" where
  "clock_time now (HHMM hh mm) =
     day_start now + digits_val 0 hh * (3600 * second) + digits_val 0 mm * (60 * second)"
| "clock_time now (NoClock t) = zero_time"

fun line_fields :: "spc_line \<Rightarrow> string list" where
  "line_fields (ReportLine ck mag loc county st lat lon com extra) =
     [clock_text ck, mag, loc, county, st, decimal_text lat, decimal_text lon, com] @ extra"
| "line_fields (OtherLine fs) = fs"

definition rounded :: "(rat \<Rightarrow> rat option) \<Rightarrow> decimal \<Rightarrow> rat" where
  "rounded fl d = (case fl (decimal_rat d) of None \<Rightarrow> 0 | Some v \<Rightarrow> v)"

definition coordinate_ok :: "(rat \<Rightarrow> rat option) \<Rightarrow> decimal \<Rightarrow> bool" where
  "coordinate_ok fl d \<longleftrightarrow> decimal_ok d \<and> fl (decimal_rat d) \<noteq> None"

fun line_ok :: "(rat \<Rightarrow> rat option) \<Rightarrow> spc_line \<Rightarrow> bool" where
  "line_ok fl (ReportLine ck mag loc county st lat lon com extra) \<longleftrightarrow>
     clock_ok ck \<and> coordinate_ok fl lat \<and> coordinate_ok fl lon \<and>
     list_all one_line ([mag, loc, county, st, com] @ extra)"
| "line_ok fl (OtherLine fs) \<longleftrightarrow>
     fs \<noteq> [] \<and> list_all one_line fs \<and>
     (length fs < 8 \<or> parse_float64 fl (trim_space (fs ! 5)) = None \<or>
      parse_float64 fl (trim_space (fs ! 6)) = None)"

fun line_report :: "(rat \<Rightarrow> rat option) \<Rightarrow> string \<Rightarrow> time \<Rightarrow> spc_line \<Rightarrow> storm_report option" where
  "line_report fl ty now (ReportLine ck mag loc county st lat lon com extra) =
     Some \<lparr>sr_Time = clock_time now ck, sr_Magnitude = trim_space mag, sr_Location = trim_space loc,
           sr_County = trim_space county, sr_State = trim_space st, sr_Lat = Finite (rounded fl lat),
           sr_Lon = Finite (rounded fl lon), sr_Comments = trim_space com, sr_Type = ty\<rparr>"
| "line_report fl ty now (OtherLine fs) = None"

lemma report_time_hhmm:
  assumes "length s = 4" "list_all is_digit s"
  shows "report_time now s = Returns (day_start now +
    digits_val 0 (take 2 s) * (3600 * second) + digits_val 0 (drop 2 s) * (60 * second))"
proof -
  have t: "atoi u = Some (digits_val 0 u)" if "length u = 2" "list_all is_digit u" for u
  proof (rule atoi_digits)
    show "u \<noteq> []" using that by auto
    show "digits_val 0 u < 2 ^ 63" using digits_val_3 [of u] that by simp
  qed (rule that)
  have "list_all is_digit (take 2 s)" "list_all is_digit (drop 2 s)"
    using assms(2) by (auto simp: list_all_iff dest: in_set_takeD in_set_dropD)
  with assms t [of "take 2 s"] t [of "drop 2 s"] show ?thesis
    by (simp add: report_time_def atoi0_def Let_def)
qed

lemma report_time_clock:
  assumes "clock_ok ck"
  shows "report_time now (trim_space (clock_text ck)) = Returns (clock_time now ck)"
proof (cases ck)
  case (HHMM hh mm)
  with assms have hm: "length hh = 2" "length mm = 2" "list_all is_digit (hh @ mm)" by auto
  have "trim_space (hh @ mm) = hh @ mm"
    using hm trim_decimal_text [of "Decimal False (hh @ mm) []"]
    by (fastforce simp: decimal_ok_def decimal_text_def unsigned_text_def)
  with hm HHMM show ?thesis by (simp add: report_time_hhmm)
next
  case (NoClock t)
  with assms show ?thesis by (simp add: report_time_def)
qed

lemma parse_coordinate:
  "coordinate_ok fl d \<Longrightarrow> parse_float64 fl (trim_space (decimal_text d)) = Some (Finite (rounded fl d))"
  by (auto simp: coordinate_ok_def rounded_def trim_decimal_text parse_float64_decimal)

lemma parse_row_line: "line_ok fl l \<Longrightarrow> parse_row fl now ty (line_fields l) = Returns (line_report fl ty now l)"
  by (cases l) (auto simp: parse_row_def report_time_clock parse_coordinate split: option.splits)

lemma rows_loop_lines:
  "\<forall>l \<in> set lines. line_ok fl l \<Longrightarrow> 0 < i \<Longrightarrow>
     rows_loop fl clock ty i (map line_fields lines) =
       Returns (List.map_filter (\<lambda>(i, l). line_report fl ty (clock i) l) (enumerate i lines))"
  by (induction lines arbitrary: i) (auto simp: map_filter_simps parse_row_line split: option.split)

lemma digits_one_line: "list_all is_digit s \<Longrightarrow> one_line s"
  by (auto simp: one_line_def newline_def carriage_return_def list_all_iff is_digit_def code_def)

lemma line_fields_one_line:
  assumes "line_ok fl l"
  shows "line_fields l \<noteq> [] \<and> (\<forall>f \<in> set (line_fields l). one_line f)"
proof -
  have "one_line (decimal_text d)" if "coordinate_ok fl d" for d
    using that decimal_text_number_char [of d] number_char_facts(4,5)
    by (auto simp: coordinate_ok_def one_line_def newline_def carriage_return_def)
  moreover have "one_line (clock_text ck)" if "clock_ok ck" for ck
    using that by (cases ck) (auto simp: digits_one_line)
  ultimately show ?thesis using assms by (cases l) (auto simp: list_all_iff)
qed

text \<open>
  C27: parsing inverts printing. From a file with a header and lines printed with quoted fields,
  the parser returns, in order, exactly the reports of the report lines: the texts without the
  space around them, each coordinate in its place, the time on the day of the reading. Any other
  line is skipped without losing its neighbours.
\<close>

theorem parse_csv_reports_roundtrip:
  assumes "header \<noteq> []" "\<forall>f \<in> set header. one_line f" "\<forall>l \<in> set lines. line_ok fl l"
  shows "parse_csv_reports fl clock False (concat (map row_text (header # map line_fields lines))) ty =
    Returns (Inr (List.map_filter (\<lambda>(i, l). line_report fl ty (clock i) l) (enumerate 1 lines)))"
proof -
  have "\<forall>r \<in> set (header # map line_fields lines). r \<noteq> [] \<and> (\<forall>f \<in> set r. one_line f)"
    using assms line_fields_one_line by auto
  from csv_read_all_rows [OF this] show ?thesis
    using rows_loop_lines [OF assms(3), of 1] by (simp add: parse_csv_reports_def)
qed

definition sample_header :: "string list" where
  "sample_header = [''Time'', ''F_Scale'', ''Location'', ''County'', ''State'', ''Lat'', ''Lon'', ''Comments'']"

definition sample_lines :: "spc_line list" where
  "sample_lines =
     [OtherLine [''bad''],
      ReportLine (HHMM ''23'' ''15'') ''UNK'' ''3 SW Norman, OK'' ''Cleveland'' ''OK ''
        (Decimal False ''35'' ''19'') (Decimal True ''97'' ''47'') '' A tornado. (OUN)'' [],
      OtherLine [''2320'', ''UNK'', ''x'', ''y'', ''OK'', ''35.19'', ''n/a'', ''z'']]"

theorem parse_csv_reports_roundtrip_witness:
  "line_fields (sample_lines ! 1) =
     [''2315'', ''UNK'', ''3 SW Norman, OK'', ''Cleveland'', ''OK '', ''35.19'', ''-97.47'', '' A tornado. (OUN)''] \<and>
   parse_csv_reports Some (\<lambda>_. 0) False
      (concat (map row_text (sample_header # map line_fields sample_lines))) ''tornado'' =
     Returns (Inr [\<lparr>sr_Time = 23 * (3600 * second) + 15 * (60 * second), sr_Magnitude = ''UNK'',
           sr_Location = ''3 SW Norman, OK'', sr_County = ''Cleveland'', sr_State = ''OK'',
           sr_Lat = Finite (3519 / 100), sr_Lon = Finite (- (9747 / 100)),
           sr_Comments = ''A tornado. (OUN)'', sr_Type = ''tornado''\<rparr>])"
proof -
  have "sample_header \<noteq> []" "\<forall>f \<in> set sample_header. one_line f" "\<forall>l \<in> set sample_lines. line_ok Some l"
    by code_simp+
  from parse_csv_reports_roundtrip [OF this, of "\<lambda>_. 0" "''tornado''"]
  have "parse_csv_reports Some (\<lambda>_. 0) False
      (concat (map row_text (sample_header # map line_fields sample_lines))) ''tornado'' =
    Returns (Inr (List.map_filter (\<lambda>(i, l). line_report Some ''tornado'' 0 l) (enumerate 1 sample_lines)))" .
  moreover have "List.map_filter (\<lambda>(i, l). line_report Some ''tornado'' 0 l) (enumerate 1 sample_lines) =
      [\<lparr>sr_Time = 23 * (3600 * second) + 15 * (60 * second), sr_Magnitude = ''UNK'',
           sr_Location = ''3 SW Norman, OK'', sr_County = ''Cleveland'', sr_State = ''OK'',
           sr_Lat = Finite (3519 / 100), sr_Lon = Finite (- (9747 / 100)),
           sr_Comments = ''A tornado. (OUN)'', sr_Type = ''tornado''\<rparr>]" by code_simp
  moreover have "line_fields (sample_lines ! 1) =
     [''2315'', ''UNK'', ''3 SW Norman, OK'', ''Cleveland'', ''OK '', ''35.19'', ''-97.47'', '' A tornado. (OUN)'']"
    by code_simp
  ultimately show ?thesis by simp
qed

section \<open>Times of day\<close>

lemma day_start_same_day: "day_start t \<le> t \<and> t < day_start t + day"
proof -
  have "(0 :: int) < day" by (simp add: day_def second_def)
  then show ?thesis using pos_mod_bound [of day t] pos_mod_sign [of day t] by (simp add: day_start_def)
qed

text \<open>
  C28: the time of a report depends on the UTC day on which its file is read. A row of the evening,
  read again after midnight, gets another time, a day later, and that time lies in the future until
  the clock reaches it; the same row read twice on one day gets one time.
\<close>

theorem report_time_across_midnight:
  assumes "length s = 4" and "list_all is_digit s"
  shows "\<exists>x y. report_time t s = Returns x \<and> report_time u s = Returns y \<and>
    (x = y \<longleftrightarrow> day_start t = day_start u) \<and>
    (t < x \<longleftrightarrow>
       t - day_start t < digits_val 0 (take 2 s) * (3600 * second) + digits_val 0 (drop 2 s) * (60 * second))"
  using assms by (auto simp: report_time_hhmm)

theorem report_time_across_midnight_witness:
  "report_time (86400 * second - 1) ''2350'' \<noteq> report_time (86400 * second) ''2350'' \<and>
    (\<exists>x. report_time (86400 * second) ''2350'' = Returns x \<and> 86400 * second < x)"
proof -
  have "length ''2350'' = 4 \<and> list_all is_digit ''2350'' \<and> digits_val 0 (take 2 ''2350'') = 23 \<and>
      digits_val 0 (drop 2 ''2350'') = 50" by code_simp
  then show ?thesis
    using report_time_across_midnight [of "''2350''" "86400 * second - 1" "86400 * second"]
      report_time_across_midnight [of "''2350''" "86400 * second" "86400 * second"]
    by (auto simp: day_start_def day_def second_def)
qed

end
