(* ===== verification/Database.thy ===== *)
theory Database
  imports Spc Nws_Types "HOL-Library.Multiset"
begin

text \<open>
  The two tables of \<open>internal/store/queries.go\<close> and the statements on them. A table is the list of
  its rows; the identity column, which nothing reads, is left out. A statement that reads the clock
  takes \<open>now\<close>, the value of \<open>NOW()\<close> in its transaction. The server may reject a statement; that
  is the caller's environment, and here a statement is what it does when the server accepts it.
\<close>

section \<open>Rows\<close>

record event_row =
  er_nws_id :: string
  er_event_type :: string
  er_severity :: string
  er_headline :: string
  er_description :: string
  er_instruction :: string
  er_area_desc :: string
  er_sender_name :: string
  er_geometry :: "string option"
  er_properties :: string
  er_effective_at :: time
  er_expires_at :: time
  er_ingested_at :: time
  er_updated_at :: time
  er_retired_at :: "time option"

record report_row =
  rr_report_type :: string
  rr_magnitude :: string
  rr_location :: string
  rr_county :: string
  rr_state :: string
  rr_comments :: string
  rr_lon :: float64
  rr_lat :: float64
  rr_reported_at :: time
  rr_ingested_at :: time

record db =
  weather_events :: "event_row list"
  storm_reports :: "report_row list"

text \<open>The arguments of \<open>upsertAlertSQL\<close>, \<open>$1\<close> to \<open>$12\<close>.\<close>

record alert_args =
  arg_id :: string
  arg_event :: string
  arg_severity :: string
  arg_headline :: string
  arg_description :: string
  arg_instruction :: string
  arg_area_desc :: string
  arg_sender_name :: string
  arg_geometry :: "string option"
  arg_properties :: string
  arg_effective_at :: time
  arg_expires_at :: time

section \<open>Statements\<close>

definition inserted_row :: "time \<Rightarrow> alert_args \<Rightarrow> event_row" where
  "inserted_row now a =
     \<lparr>er_nws_id = arg_id a, er_event_type = arg_event a, er_severity = arg_severity a,
      er_headline = arg_headline a, er_description = arg_description a,
      er_instruction = arg_instruction a, er_area_desc = arg_area_desc a,
      er_sender_name = arg_sender_name a, er_geometry = arg_geometry a,
      er_properties = arg_properties a, er_effective_at = arg_effective_at a,
      er_expires_at = arg_expires_at a, er_ingested_at = now, er_updated_at = now,
      er_retired_at = None\<rparr>"

text \<open>
  The conflict branch sets the listed columns alone: \<open>sender_name\<close>, \<open>effective_at\<close>,
  \<open>ingested_at\<close> and \<open>retired_at\<close> keep what the row had.
\<close>

definition conflict_row :: "time \<Rightarrow> alert_args \<Rightarrow> event_row \<Rightarrow> event_row" where
  "conflict_row now a r =
     r\<lparr>er_event_type := arg_event a, er_severity := arg_severity a, er_headline := arg_headline a,
       er_description := arg_description a, er_instruction := arg_instruction a,
       er_area_desc := arg_area_desc a, er_geometry := arg_geometry a,
       er_properties := arg_properties a, er_expires_at := arg_expires_at a, er_updated_at := now\<rparr>"

fun upsert_event :: "time \<Rightarrow> alert_args \<Rightarrow> event_row list \<Rightarrow> event_row list" where
  "upsert_event now a [] = [inserted_row now a]"
| "upsert_event now a (r # rs) =
     (if er_nws_id r = arg_id a then conflict_row now a r # rs else r # upsert_event now a rs)"

text \<open>\<open>retireByReferenceSQL\<close> and the number of rows it affects.\<close>

definition retire_match :: "string list \<Rightarrow> string \<Rightarrow> event_row \<Rightarrow> bool" where
  "retire_match ids eventType r \<longleftrightarrow>
     er_nws_id r \<in> set ids \<and> er_retired_at r = None \<and> er_event_type r = eventType"

definition retire_by_reference :: "time \<Rightarrow> string list \<Rightarrow> string \<Rightarrow> event_row list \<Rightarrow> event_row list" where
  "retire_by_reference now ids eventType rs =
     map (\<lambda>r. if retire_match ids eventType r then r\<lparr>er_retired_at := Some now\<rparr> else r) rs"

definition retire_affected :: "string list \<Rightarrow> string \<Rightarrow> event_row list \<Rightarrow> nat" where
  "retire_affected ids eventType rs = length (filter (retire_match ids eventType) rs)"

text \<open>
  \<open>activeAlertsSQL\<close>: rows of equal \<open>effective_at\<close> come in any order the server likes, which is
  \<open>scan\<close>, a reordering of the rows before the sort.
\<close>

definition is_active :: "time \<Rightarrow> event_row \<Rightarrow> bool" where
  "is_active now r \<longleftrightarrow> now < er_expires_at r \<and> er_retired_at r = None"

definition active_rows :: "(event_row list \<Rightarrow> event_row list) \<Rightarrow> time \<Rightarrow> event_row list \<Rightarrow> event_row list" where
  "active_rows scan now rs = sort_key (\<lambda>r. - er_effective_at r) (scan (filter (is_active now) rs))"

definition purge_expired :: "time \<Rightarrow> event_row list \<Rightarrow> event_row list" where
  "purge_expired now rs = filter (\<lambda>r. \<not> er_expires_at r < now) rs"

definition purge_affected :: "time \<Rightarrow> event_row list \<Rightarrow> nat" where
  "purge_affected now rs = length (filter (\<lambda>r. er_expires_at r < now) rs)"

definition report_key :: "report_row \<Rightarrow> string \<times> string \<times> time" where
  "report_key r = (rr_report_type r, rr_location r, rr_reported_at r)"

definition report_row_of :: "time \<Rightarrow> storm_report \<Rightarrow> report_row" where
  "report_row_of now r =
     \<lparr>rr_report_type = sr_Type r, rr_magnitude = sr_Magnitude r, rr_location = sr_Location r,
      rr_county = sr_County r, rr_state = sr_State r, rr_comments = sr_Comments r,
      rr_lon = sr_Lon r, rr_lat = sr_Lat r, rr_reported_at = sr_Time r, rr_ingested_at = now\<rparr>"

definition upsert_report :: "time \<Rightarrow> storm_report \<Rightarrow> report_row list \<Rightarrow> report_row list" where
  "upsert_report now r rs =
     (if report_key (report_row_of now r) \<in> report_key ` set rs then rs else rs @ [report_row_of now r])"

section \<open>Keys are unique\<close>

definition wf_events :: "event_row list \<Rightarrow> bool" where
  "wf_events rs \<longleftrightarrow> distinct (map er_nws_id rs)"

definition wf_db :: "db \<Rightarrow> bool" where
  "wf_db d \<longleftrightarrow> wf_events (weather_events d) \<and> distinct (map report_key (storm_reports d))"

definition event_row_at :: "event_row list \<Rightarrow> string \<Rightarrow> event_row option" where
  "event_row_at rs i = List.find (\<lambda>r. er_nws_id r = i) rs"

lemma event_row_at_simps [simp]:
  "event_row_at [] i = None"
  "event_row_at (r # rs) i = (if er_nws_id r = i then Some r else event_row_at rs i)"
  by (simp_all add: event_row_at_def)

lemma event_row_at_None: "event_row_at rs i = None \<longleftrightarrow> i \<notin> er_nws_id ` set rs"
  by (induction rs) auto

lemma event_row_at_Some: "event_row_at rs i = Some r \<Longrightarrow> r \<in> set rs \<and> er_nws_id r = i"
  by (induction rs) (auto split: if_splits)

lemma event_row_at_in: "wf_events rs \<Longrightarrow> event_row_at rs i = Some r \<longleftrightarrow> r \<in> set rs \<and> er_nws_id r = i"
  by (induction rs) (auto simp: wf_events_def split: if_splits)

lemma event_row_at_map:
  "(\<And>r. er_nws_id (f r) = er_nws_id r) \<Longrightarrow> event_row_at (map f rs) i = map_option f (event_row_at rs i)"
  by (induction rs) auto

lemma conflict_row_id [simp]: "er_nws_id (conflict_row now a r) = er_nws_id r"
  by (simp add: conflict_row_def)

lemma inserted_row_id [simp]: "er_nws_id (inserted_row now a) = arg_id a"
  by (simp add: inserted_row_def)

text \<open>An upsert is one lookup table update.\<close>

lemma upsert_event_at:
  "event_row_at (upsert_event now a rs) i =
     (if i = arg_id a
      then Some (case event_row_at rs i of None \<Rightarrow> inserted_row now a | Some r \<Rightarrow> conflict_row now a r)
      else event_row_at rs i)"
  by (induction rs) auto

lemma upsert_event_ids:
  "map er_nws_id (upsert_event now a rs) =
     (if arg_id a \<in> er_nws_id ` set rs then map er_nws_id rs else map er_nws_id rs @ [arg_id a])"
  by (induction rs) auto

lemma upsert_event_wf: "wf_events rs \<Longrightarrow> wf_events (upsert_event now a rs)"
  by (auto simp: wf_events_def upsert_event_ids)

lemma retire_ids [simp]: "map er_nws_id (retire_by_reference now ids et rs) = map er_nws_id rs"
  by (induction rs) (auto simp: retire_by_reference_def)

lemma retire_wf: "wf_events rs \<Longrightarrow> wf_events (retire_by_reference now ids et rs)"
  by (simp add: wf_events_def)

lemma retire_at:
  "event_row_at (retire_by_reference now ids et rs) i =
     map_option (\<lambda>r. if retire_match ids et r then r\<lparr>er_retired_at := Some now\<rparr> else r) (event_row_at rs i)"
  unfolding retire_by_reference_def by (rule event_row_at_map) simp

lemma purge_wf: "wf_events rs \<Longrightarrow> wf_events (purge_expired now rs)"
  by (auto simp: wf_events_def purge_expired_def intro: distinct_filter_map)

lemma upsert_report_keys:
  "distinct (map report_key rs) \<Longrightarrow> distinct (map report_key (upsert_report now r rs))"
  by (auto simp: upsert_report_def)

section \<open>Effects of the statements\<close>

text \<open>A retired row stays retired under an upsert of its id.\<close>

lemma conflict_keeps_retired [frame]: "er_retired_at (conflict_row now a r) = er_retired_at r"
  by (simp add: conflict_row_def)

lemma retire_idem:
  "retire_by_reference now' ids et (retire_by_reference now ids et rs) = retire_by_reference now ids et rs"
  by (auto simp: retire_by_reference_def retire_match_def)

lemma retire_commute:
  "et \<noteq> et' \<Longrightarrow> retire_by_reference now ids et (retire_by_reference now ids' et' rs) =
     retire_by_reference now ids' et' (retire_by_reference now ids et rs)"
  by (auto simp: retire_by_reference_def retire_match_def)

lemma retire_absent:
  "set ids \<inter> er_nws_id ` set rs = {} \<Longrightarrow> retire_by_reference now ids et rs = rs"
  unfolding retire_by_reference_def by (rule map_idI) (auto simp: retire_match_def)

lemma retire_affected_change:
  "retire_affected ids et rs = 0 \<longleftrightarrow> (\<forall>now. retire_by_reference now ids et rs = rs)"
proof
  assume "retire_affected ids et rs = 0"
  then show "\<forall>now. retire_by_reference now ids et rs = rs"
    unfolding retire_by_reference_def
    by (intro allI map_idI) (auto simp: retire_affected_def filter_empty_conv)
next
  assume unchanged: "\<forall>now. retire_by_reference now ids et rs = rs"
  have "\<not> retire_match ids et r" if "r \<in> set rs" for r
  proof
    assume m: "retire_match ids et r"
    have "r \<in> set (retire_by_reference 0 ids et rs)" using unchanged that by metis
    then obtain r' where "r' \<in> set rs" "r = (if retire_match ids et r' then r'\<lparr>er_retired_at := Some 0\<rparr> else r')"
      by (auto simp: retire_by_reference_def)
    with m show False by (auto simp: retire_match_def split: if_splits)
  qed
  then show "retire_affected ids et rs = 0" by (auto simp: retire_affected_def filter_empty_conv)
qed

lemma purge_keeps_active: "filter (is_active now) (purge_expired now rs) = filter (is_active now) rs"
  by (induction rs) (auto simp: purge_expired_def is_active_def)

lemma active_rows_set:
  assumes "mset (scan (filter (is_active now) rs)) = mset (filter (is_active now) rs)"
  shows "set (active_rows scan now rs) = {r \<in> set rs. is_active now r}"
proof -
  have "set (active_rows scan now rs) = set (filter (is_active now) rs)"
    unfolding active_rows_def set_sort by (rule mset_eq_setD) (rule assms)
  then show ?thesis by simp
qed

lemma active_rows_sorted: "sorted (map (\<lambda>r. - er_effective_at r) (active_rows scan now rs))"
  by (simp add: active_rows_def)

end
