(* ===== verification/Migrate.thy ===== *)
theory Migrate
  imports Retry
begin

text \<open>
  The schema and its migration: \<open>migrateSQL\<close> of \<open>internal/store/queries.go\<close> as a list of statements
  over a catalog, and \<open>Store.Migrate\<close> of \<open>internal/store/postgres.go\<close>, which every node of the fleet
  runs at boot against the same database, as a step function of the nodes. \<open>New\<close> and the
  configuration of its connection pool are here as well.
\<close>

section \<open>The statements\<close>

datatype ddl =
    CreateExtension string
  | CreateTable string "(string \<times> string) list" "string list list"   \<comment> \<open>columns, unique keys\<close>
  | CreateIndex string string "string list"                            \<comment> \<open>the columns it reads\<close>
  | AddColumn string string string

record table =
  tb_columns :: "(string \<times> string) list"
  tb_unique :: "string list list"

record catalog =
  ca_extensions :: "string list"
  ca_tables :: "string \<Rightarrow> table option"
  ca_indexes :: "string list"

definition add_new :: "'a \<Rightarrow> 'a list \<Rightarrow> 'a list" where
  "add_new x xs = (if x \<in> set xs then xs else xs @ [x])"

definition columns :: "table \<Rightarrow> string set" where
  "columns tb = fst ` set (tb_columns tb)"

definition is_geometry :: "string \<Rightarrow> bool" where
  "is_geometry ty = (take 8 ty = ''GEOMETRY'')"

text \<open>
  Every statement carries \<open>IF NOT EXISTS\<close>: what exists is left as it is, whatever its shape. A
  table needs the extension that provides the types of its columns; an index needs its table and
  columns, whether it exists or not. Tables and indexes have names of their own.
\<close>

fun exec_ddl :: "ddl \<Rightarrow> catalog \<Rightarrow> catalog option" where
  "exec_ddl (CreateExtension e) cat = Some (cat\<lparr>ca_extensions := add_new e (ca_extensions cat)\<rparr>)"
| "exec_ddl (CreateTable t cols keys) cat =
     (case ca_tables cat t of
        Some _ \<Rightarrow> Some cat
      | None \<Rightarrow>
          if list_ex (\<lambda>(c, ty). is_geometry ty) cols \<and> ''postgis'' \<notin> set (ca_extensions cat) then None
          else Some (cat\<lparr>ca_tables := (ca_tables cat)(t \<mapsto> \<lparr>tb_columns = cols, tb_unique = keys\<rparr>)\<rparr>))"
| "exec_ddl (CreateIndex i t cs) cat =
     (case ca_tables cat t of
        None \<Rightarrow> None
      | Some tb \<Rightarrow>
          if set cs \<subseteq> columns tb then Some (cat\<lparr>ca_indexes := add_new i (ca_indexes cat)\<rparr>) else None)"
| "exec_ddl (AddColumn t c ty) cat =
     (case ca_tables cat t of
        None \<Rightarrow> None
      | Some tb \<Rightarrow>
          if c \<in> columns tb then Some cat
          else Some (cat\<lparr>ca_tables := (ca_tables cat)(t \<mapsto> tb\<lparr>tb_columns := tb_columns tb @ [(c, ty)]\<rparr>)\<rparr>))"

fun run_ddl :: "ddl list \<Rightarrow> catalog \<Rightarrow> catalog option" where
  "run_ddl [] cat = Some cat"
| "run_ddl (d # ds) cat = (case exec_ddl d cat of None \<Rightarrow> None | Some cat' \<Rightarrow> run_ddl ds cat')"

definition weather_columns :: "(string \<times> string) list" where
  "weather_columns =
     [(''id'', ''BIGINT GENERATED ALWAYS AS IDENTITY PRIMARY KEY''), (''nws_id'', ''TEXT UNIQUE NOT NULL''),
      (''event_type'', ''TEXT NOT NULL''), (''severity'', ''TEXT''), (''headline'', ''TEXT''),
      (''description'', ''TEXT''), (''instruction'', ''TEXT''), (''area_desc'', ''TEXT''),
      (''sender_name'', ''TEXT''), (''geometry'', ''GEOMETRY(Geometry, 4326)''), (''properties'', ''JSONB''),
      (''effective_at'', ''TIMESTAMPTZ''), (''expires_at'', ''TIMESTAMPTZ''),
      (''ingested_at'', ''TIMESTAMPTZ DEFAULT NOW()''), (''updated_at'', ''TIMESTAMPTZ DEFAULT NOW()'')]"

definition report_columns :: "(string \<times> string) list" where
  "report_columns =
     [(''id'', ''BIGINT GENERATED ALWAYS AS IDENTITY PRIMARY KEY''), (''report_type'', ''TEXT NOT NULL''),
      (''magnitude'', ''TEXT''), (''location'', ''TEXT''), (''county'', ''TEXT''), (''state'', ''TEXT''),
      (''comments'', ''TEXT''), (''geometry'', ''GEOMETRY(Point, 4326)''),
      (''reported_at'', ''TIMESTAMPTZ NOT NULL''), (''ingested_at'', ''TIMESTAMPTZ DEFAULT NOW()'')]"

definition migrate_sql :: "ddl list" where
  "migrate_sql =
     [CreateExtension ''postgis'',
      CreateTable ''weather_events'' weather_columns [],
      CreateIndex ''idx_events_geometry'' ''weather_events'' [''geometry''],
      CreateIndex ''idx_events_type_time'' ''weather_events'' [''event_type'', ''effective_at''],
      CreateIndex ''idx_events_nws_id'' ''weather_events'' [''nws_id''],
      CreateIndex ''idx_events_expires'' ''weather_events'' [''expires_at''],
      AddColumn ''weather_events'' ''retired_at'' ''TIMESTAMPTZ'',
      CreateIndex ''idx_events_active'' ''weather_events'' [''expires_at'', ''retired_at''],
      CreateTable ''storm_reports'' report_columns [[''report_type'', ''location'', ''reported_at'']],
      CreateIndex ''idx_reports_geometry'' ''storm_reports'' [''geometry''],
      CreateIndex ''idx_reports_type_time'' ''storm_reports'' [''report_type'', ''reported_at'']]"

section \<open>What the statements do\<close>

text \<open>A catalog in which every table that exists has at least its first columns.\<close>

definition legacy_ok :: "catalog \<Rightarrow> bool" where
  "legacy_ok cat \<longleftrightarrow>
     (\<forall>tb. ca_tables cat ''weather_events'' = Some tb \<longrightarrow> fst ` set weather_columns \<subseteq> columns tb) \<and>
     (\<forall>tb. ca_tables cat ''storm_reports'' = Some tb \<longrightarrow> fst ` set report_columns \<subseteq> columns tb)"

definition with_column :: "string \<Rightarrow> string \<Rightarrow> table \<Rightarrow> table" where
  "with_column c ty tb = (if c \<in> columns tb then tb else tb\<lparr>tb_columns := tb_columns tb @ [(c, ty)]\<rparr>)"

definition events_table :: "catalog \<Rightarrow> table" where
  "events_table cat = (case ca_tables cat ''weather_events'' of
     Some tb \<Rightarrow> tb | None \<Rightarrow> \<lparr>tb_columns = weather_columns, tb_unique = []\<rparr>)"

definition reports_table :: "catalog \<Rightarrow> table" where
  "reports_table cat = (case ca_tables cat ''storm_reports'' of
     Some tb \<Rightarrow> tb
   | None \<Rightarrow> \<lparr>tb_columns = report_columns, tb_unique = [[''report_type'', ''location'', ''reported_at'']]\<rparr>)"

definition index_names :: "string list" where
  "index_names =
     [''idx_events_geometry'', ''idx_events_type_time'', ''idx_events_nws_id'', ''idx_events_expires'',
      ''idx_events_active'', ''idx_reports_geometry'', ''idx_reports_type_time'']"

definition migrated :: "catalog \<Rightarrow> catalog" where
  "migrated cat = cat\<lparr>
     ca_extensions := add_new ''postgis'' (ca_extensions cat),
     ca_tables := (ca_tables cat)
       (''weather_events'' \<mapsto> with_column ''retired_at'' ''TIMESTAMPTZ'' (events_table cat),
        ''storm_reports'' \<mapsto> reports_table cat),
     ca_indexes := fold add_new index_names (ca_indexes cat)\<rparr>"

lemma add_new_set [simp]: "set (add_new x xs) = insert x (set xs)"
  by (auto simp: add_new_def)

lemma add_new_id [simp]: "x \<in> set xs \<Longrightarrow> add_new x xs = xs"
  by (simp add: add_new_def)

lemma fold_add_new_set: "set (fold add_new ys xs) = set ys \<union> set xs"
  by (induction ys arbitrary: xs) auto

lemma fold_add_new_id: "set ys \<subseteq> set xs \<Longrightarrow> fold add_new ys xs = xs"
  by (induction ys) auto

lemma exec_index:
  "ca_tables cat t = Some tb \<Longrightarrow> set cs \<subseteq> columns tb \<Longrightarrow>
     exec_ddl (CreateIndex i t cs) cat = Some (cat\<lparr>ca_indexes := add_new i (ca_indexes cat)\<rparr>)"
  by simp

lemma columns_with [simp]: "columns (with_column c ty tb) = insert c (columns tb)"
  by (auto simp: with_column_def columns_def)

lemma exec_table:
  "''postgis'' \<in> set (ca_extensions cat) \<Longrightarrow> exec_ddl (CreateTable t cols keys) cat =
     Some (cat\<lparr>ca_tables := (ca_tables cat)(t \<mapsto>
       (case ca_tables cat t of Some tb \<Rightarrow> tb | None \<Rightarrow> \<lparr>tb_columns = cols, tb_unique = keys\<rparr>))\<rparr>)"
  by (auto simp: fun_upd_idem split: option.splits)

lemma exec_column:
  "ca_tables cat t = Some tb \<Longrightarrow>
     exec_ddl (AddColumn t c ty) cat = Some (cat\<lparr>ca_tables := (ca_tables cat)(t \<mapsto> with_column c ty tb)\<rparr>)"
  by (auto simp: with_column_def fun_upd_idem)

lemma base_columns:
  assumes "legacy_ok cat"
  shows "fst ` set weather_columns \<subseteq> columns (events_table cat)"
    and "fst ` set report_columns \<subseteq> columns (reports_table cat)"
  using assms by (auto simp: legacy_ok_def events_table_def reports_table_def columns_def split: option.splits)

lemma indexed_columns:
  "{''geometry'', ''event_type'', ''effective_at'', ''nws_id'', ''expires_at''} \<subseteq> fst ` set weather_columns"
  "{''geometry'', ''report_type'', ''reported_at''} \<subseteq> fst ` set report_columns"
  by (simp_all add: weather_columns_def report_columns_def)

lemma legacy_tables:
  assumes "legacy_ok cat"
  shows "{''geometry'', ''event_type'', ''effective_at'', ''nws_id'', ''expires_at''} \<subseteq> columns (events_table cat)"
    and "{''geometry'', ''report_type'', ''reported_at''} \<subseteq> columns (reports_table cat)"
  by (rule order_trans [OF indexed_columns(1) base_columns(1) [OF assms]],
      rule order_trans [OF indexed_columns(2) base_columns(2) [OF assms]])

lemma run_migrate:
  assumes "legacy_ok cat"
  shows "run_ddl migrate_sql cat = Some (migrated cat)"
proof -
  note cols = legacy_tables [OF assms]
  show ?thesis
    using cols
    by (simp add: migrate_sql_def exec_index exec_table exec_column migrated_def index_names_def
        events_table_def [symmetric] reports_table_def [symmetric] del: exec_ddl.simps(2-4))
qed

lemma legacy_migrated:
  "legacy_ok cat \<Longrightarrow> legacy_ok (migrated cat)"
  using base_columns [of cat] by (auto simp: legacy_ok_def migrated_def)

lemma with_column_id: "c \<in> columns tb \<Longrightarrow> with_column c ty tb = tb"
  by (simp add: with_column_def)

lemma migrated_again: "migrated (migrated cat) = migrated cat"
proof -
  have "ca_extensions (migrated (migrated cat)) = ca_extensions (migrated cat)"
    "ca_indexes (migrated (migrated cat)) = ca_indexes (migrated cat)"
    by (simp_all add: migrated_def fold_add_new_id fold_add_new_set)
  moreover have "ca_tables (migrated (migrated cat)) = ca_tables (migrated cat)"
    by (simp add: migrated_def events_table_def reports_table_def with_column_id fun_eq_iff)
  ultimately show ?thesis by simp
qed

lemma run_migrate_again: "legacy_ok cat \<Longrightarrow> run_ddl migrate_sql (migrated cat) = Some (migrated cat)"
  by (simp add: run_migrate legacy_migrated migrated_again)

text \<open>What an upgrade may do to a table: add columns at its end, nothing else.\<close>

definition extends :: "table \<Rightarrow> table \<Rightarrow> bool" where
  "extends tb tb' \<longleftrightarrow> tb_unique tb' = tb_unique tb \<and> (\<exists>new. tb_columns tb' = tb_columns tb @ new)"

definition upgrades :: "catalog \<Rightarrow> catalog \<Rightarrow> bool" where
  "upgrades cat cat' \<longleftrightarrow>
     (\<forall>t tb. ca_tables cat t = Some tb \<longrightarrow> (\<exists>tb'. ca_tables cat' t = Some tb' \<and> extends tb tb')) \<and>
     set (ca_extensions cat) \<subseteq> set (ca_extensions cat') \<and> set (ca_indexes cat) \<subseteq> set (ca_indexes cat')"

lemma extends_with: "extends tb (with_column c ty tb)"
  by (simp add: extends_def with_column_def)

lemma extends_refl: "extends tb tb"
  by (simp add: extends_def)

lemma upgrades_migrated: "upgrades cat (migrated cat)"
  by (auto simp: upgrades_def migrated_def fold_add_new_set events_table_def reports_table_def extends_with extends_refl)

text \<open>The columns that the statements of the store read and write.\<close>

definition events_columns :: "string set" where
  "events_columns = {''nws_id'', ''event_type'', ''severity'', ''headline'', ''description'', ''instruction'',
     ''area_desc'', ''sender_name'', ''geometry'', ''properties'', ''effective_at'', ''expires_at'', ''updated_at'',
     ''retired_at''}"

definition reports_columns :: "string set" where
  "reports_columns = {''report_type'', ''magnitude'', ''location'', ''county'', ''state'', ''comments'', ''geometry'',
     ''reported_at''}"

lemma used_columns:
  "events_columns \<subseteq> insert ''retired_at'' (fst ` set weather_columns)"
  "reports_columns \<subseteq> fst ` set report_columns"
  by (simp_all add: events_columns_def reports_columns_def weather_columns_def report_columns_def)

lemma migrated_columns:
  assumes "legacy_ok cat"
  shows "\<exists>tb. ca_tables (migrated cat) ''weather_events'' = Some tb \<and> events_columns \<subseteq> columns tb"
    and "\<exists>tb. ca_tables (migrated cat) ''storm_reports'' = Some tb \<and> reports_columns \<subseteq> columns tb"
  using order_trans [OF used_columns(1) insert_mono [OF base_columns(1) [OF assms]]]
    order_trans [OF used_columns(2) base_columns(2) [OF assms]]
  by (simp_all add: migrated_def)

text \<open>
  C35: the migration brings any database of this service up to date. On an empty catalog, and on one
  whose tables were made by an earlier release, all statements succeed in their order; afterwards
  every column the store uses exists, the retirement column of older tables included; existing
  tables keep their columns and keys, in place; and running the migration again changes nothing.
\<close>

theorem migrate_sql_upgrades:
  assumes "legacy_ok cat"
  shows "\<exists>cat'. run_ddl migrate_sql cat = Some cat' \<and> run_ddl migrate_sql cat' = Some cat' \<and> upgrades cat cat' \<and>
    (\<exists>tb. ca_tables cat' ''weather_events'' = Some tb \<and> events_columns \<subseteq> columns tb) \<and>
    (\<exists>tb. ca_tables cat' ''storm_reports'' = Some tb \<and> reports_columns \<subseteq> columns tb)"
  using run_migrate [OF assms] run_migrate_again [OF assms] upgrades_migrated [of cat] migrated_columns [OF assms]
  by (intro exI [of _ "migrated cat"]) simp

text \<open>A database of the release before the retirement column.\<close>

definition sample_catalog :: catalog where
  "sample_catalog =
     \<lparr>ca_extensions = [''postgis''],
      ca_tables = [''weather_events'' \<mapsto> \<lparr>tb_columns = weather_columns, tb_unique = []\<rparr>],
      ca_indexes = [''idx_events_nws_id'']\<rparr>"

lemma sample_legacy: "legacy_ok sample_catalog"
  by (simp add: legacy_ok_def sample_catalog_def columns_def)

theorem migrate_sql_upgrades_witness:
  "\<exists>cat'. run_ddl migrate_sql sample_catalog = Some cat' \<and> run_ddl migrate_sql cat' = Some cat' \<and>
    (\<exists>tb. ca_tables cat' ''weather_events'' = Some tb \<and> ''retired_at'' \<in> columns tb)"
  using migrate_sql_upgrades [OF sample_legacy] by (auto simp: events_columns_def)

section \<open>The connection pool\<close>

text \<open>
  \<open>buildPoolConfig\<close> overrides five settings of the configuration that pgx reads from the URL; whether
  the URL parses, the pool comes up and the ping is answered is the environment's.
\<close>

record pool_config =
  MaxConns :: int
  MinConns :: int
  MaxConnIdleTime :: duration
  MaxConnLifetime :: duration
  RuntimeParams :: "string \<Rightarrow> string option"

datatype connect_error = ParsingURL string | Connecting string | Pinging string

definition build_pool_config :: "(string \<Rightarrow> string + pool_config) \<Rightarrow> string \<Rightarrow> connect_error + pool_config" where
  "build_pool_config parse_config databaseURL =
     (case parse_config databaseURL of
        Inl e \<Rightarrow> Inl (ParsingURL e)
      | Inr cfg \<Rightarrow>
          Inr (cfg\<lparr>MaxConns := 16, MinConns := 2, MaxConnIdleTime := 4 * 60 * second,
                   MaxConnLifetime := 30 * 60 * second,
                   RuntimeParams := (RuntimeParams cfg)(''statement_timeout'' \<mapsto> ''15000'')\<rparr>))"

text \<open>The configuration of the pool that \<open>New\<close> hands to the store, or why there is none.\<close>

definition store_new ::
  "(string \<Rightarrow> string + pool_config) \<Rightarrow> string option \<Rightarrow> string option \<Rightarrow> string \<Rightarrow> connect_error + pool_config" where
  "store_new parse_config pool_err ping_err databaseURL =
     (case build_pool_config parse_config databaseURL of
        Inl e \<Rightarrow> Inl e
      | Inr cfg \<Rightarrow>
          (case pool_err of
             Some e \<Rightarrow> Inl (Connecting e)
           | None \<Rightarrow> (case ping_err of Some e \<Rightarrow> Inl (Pinging e) | None \<Rightarrow> Inr cfg)))"

lemma store_new_statement_timeout:
  "store_new pc pe ge url = Inr cfg \<Longrightarrow> RuntimeParams cfg ''statement_timeout'' = Some ''15000'' \<and> MinConns cfg \<le> MaxConns cfg"
  by (auto simp: store_new_def build_pool_config_def split: sum.splits option.splits)

section \<open>The fleet at boot\<close>

text \<open>
  A node goes through \<open>Migrate\<close> statement by statement. The server accepts a statement or rejects it
  with a code; a rejected commit may have been applied. The advisory lock is granted to one
  transaction at a time: a node that asks while another holds it stays blocked until the holder's
  transaction ends or its own lock timeout expires. A session starts without a lock timeout, the
  server's default of zero, and a wait expires only in a session that has set one; the setting is
  local to the transaction. Two sessions that both change the catalog race, and the second fails.
\<close>

definition migrateLockTimeout :: duration where
  "migrateLockTimeout = 15 * second"

datatype migrate_error = MgBegin | MgStatementTimeout | MgLockTimeout | MgTimedOut | MgLock | MgRun | MgRaced | MgCommit

datatype boot = Booting | InTx | Untimed | Bounded | Holding | Altered catalog | Booted | BootFailed migrate_error

text \<open>\<open>Expired\<close>: the lock timeout fires while the statement waits for a lock.\<close>

datatype reply = Accepted | Rejected string bool | Expired

record fleet =
  fl_catalog :: catalog
  fl_lock :: "nat option"
  fl_lock_timeout :: "nat \<Rightarrow> duration"    \<comment> \<open>per session; zero is none\<close>
  fl_nodes :: "boot list"

fun inside :: "boot \<Rightarrow> bool" where
  "inside Holding = True"
| "inside (Altered _) = True"
| "inside _ = False"

fun ended :: "boot \<Rightarrow> bool" where
  "ended Booted = True"
| "ended (BootFailed _) = True"
| "ended _ = False"

fun is_altered :: "boot \<Rightarrow> bool" where
  "is_altered (Altered _) = True"
| "is_altered _ = False"

lemma altered_inside: "is_altered b \<Longrightarrow> inside b"
  by (cases b) simp_all

definition goes :: "nat \<Rightarrow> boot \<Rightarrow> fleet \<Rightarrow> fleet" where
  "goes i b fl = fl\<lparr>fl_nodes := (fl_nodes fl)[i := b]\<rparr>"

text \<open>The end of a node's transaction releases its lock: the deferred rollback, or the commit.\<close>

definition ends :: "nat \<Rightarrow> boot \<Rightarrow> fleet \<Rightarrow> fleet" where
  "ends i b fl = (goes i b fl)\<lparr>fl_lock := (if fl_lock fl = Some i then None else fl_lock fl),
     fl_lock_timeout := (fl_lock_timeout fl)(i := 0)\<rparr>"

definition altering :: "nat \<Rightarrow> fleet \<Rightarrow> bool" where
  "altering i fl = list_ex (\<lambda>j. j \<noteq> i \<and> is_altered (fl_nodes fl ! j)) [0..<length (fl_nodes fl)]"

definition migrate_step :: "nat \<Rightarrow> reply \<Rightarrow> fleet \<Rightarrow> fleet option" where
  "migrate_step i r fl =
     (if i \<ge> length (fl_nodes fl) then None
      else case (fl_nodes fl ! i, r) of
        (Booting, Accepted) \<Rightarrow> Some (goes i InTx fl)
      | (Booting, Rejected _ _) \<Rightarrow> Some (goes i (BootFailed MgBegin) fl)
      | (InTx, Accepted) \<Rightarrow> Some (goes i Untimed fl)
      | (InTx, Rejected _ _) \<Rightarrow> Some (ends i (BootFailed MgStatementTimeout) fl)
      | (Untimed, Accepted) \<Rightarrow>
          Some ((goes i Bounded fl)\<lparr>fl_lock_timeout := (fl_lock_timeout fl)(i := migrateLockTimeout)\<rparr>)
      | (Untimed, Rejected _ _) \<Rightarrow> Some (ends i (BootFailed MgLockTimeout) fl)
      | (Bounded, Accepted) \<Rightarrow>
          if fl_lock fl = None then Some ((goes i Holding fl)\<lparr>fl_lock := Some i\<rparr>) else None
      | (Bounded, Rejected sqlstate _) \<Rightarrow>
          Some (ends i (BootFailed (if sqlstate = ''55P03'' then MgTimedOut else MgLock)) fl)
      | (Bounded, Expired) \<Rightarrow>
          if fl_lock fl \<noteq> None \<and> 0 < fl_lock_timeout fl i then Some (ends i (BootFailed MgTimedOut) fl) else None
      | (Holding, Accepted) \<Rightarrow>
          if altering i fl then Some (ends i (BootFailed MgRaced) fl)
          else (case run_ddl migrate_sql (fl_catalog fl) of
                  None \<Rightarrow> Some (ends i (BootFailed MgRun) fl)
                | Some cat \<Rightarrow> Some (goes i (Altered cat) fl))
      | (Holding, Rejected _ _) \<Rightarrow> Some (ends i (BootFailed MgRun) fl)
      | (Holding, Expired) \<Rightarrow>
          if 0 < fl_lock_timeout fl i then Some (ends i (BootFailed MgRun) fl) else None
      | (Altered cat, Accepted) \<Rightarrow> Some ((ends i Booted fl)\<lparr>fl_catalog := cat\<rparr>)
      | (Altered cat, Rejected _ applied) \<Rightarrow>
          Some ((ends i (BootFailed MgCommit) fl)\<lparr>fl_catalog := (if applied then cat else fl_catalog fl)\<rparr>)
      | (_, _) \<Rightarrow> None)"

definition fleet_start :: "nat \<Rightarrow> catalog \<Rightarrow> fleet" where
  "fleet_start n cat =
     \<lparr>fl_catalog = cat, fl_lock = None, fl_lock_timeout = (\<lambda>_. 0), fl_nodes = replicate n Booting\<rparr>"

fun fleet_run :: "(nat \<times> reply) list \<Rightarrow> fleet \<Rightarrow> fleet option" where
  "fleet_run [] fl = Some fl"
| "fleet_run ((i, r) # rs) fl = (case migrate_step i r fl of None \<Rightarrow> None | Some fl' \<Rightarrow> fleet_run rs fl')"

section \<open>One migration at a time\<close>

definition fleet_inv :: "catalog \<Rightarrow> fleet \<Rightarrow> bool" where
  "fleet_inv cat fl \<longleftrightarrow>
     (\<forall>i < length (fl_nodes fl). inside (fl_nodes fl ! i) \<longleftrightarrow> fl_lock fl = Some i) \<and>
     (\<forall>i. fl_lock fl = Some i \<longrightarrow> i < length (fl_nodes fl)) \<and>
     fl_catalog fl \<in> {cat, migrated cat} \<and>
     (\<forall>i < length (fl_nodes fl). \<forall>c. fl_nodes fl ! i = Altered c \<longrightarrow> c = migrated cat) \<and>
     BootFailed MgRaced \<notin> set (fl_nodes fl) \<and>
     (Booted \<in> set (fl_nodes fl) \<longrightarrow> fl_catalog fl = migrated cat)"

fun boot_rank :: "boot \<Rightarrow> nat" where
  "boot_rank Booting = 6"
| "boot_rank InTx = 5"
| "boot_rank Untimed = 4"
| "boot_rank Bounded = 3"
| "boot_rank Holding = 2"
| "boot_rank (Altered _) = 1"
| "boot_rank _ = 0"

lemma fleet_run_snoc:
  "fleet_run (rs @ [(i, r)]) fl = (case fleet_run rs fl of None \<Rightarrow> None | Some fl' \<Rightarrow> migrate_step i r fl')"
  by (induction rs arbitrary: fl) (auto split: option.splits)

lemma migrate_step_rank:
  assumes "migrate_step i r fl = Some fl'"
  shows "length (fl_nodes fl') = length (fl_nodes fl) \<and> i < length (fl_nodes fl) \<and>
    boot_rank (fl_nodes fl' ! i) < boot_rank (fl_nodes fl ! i) \<and>
    (\<forall>j. j \<noteq> i \<longrightarrow> fl_nodes fl' ! j = fl_nodes fl ! j)"
proof -
  have i: "i < length (fl_nodes fl)" using assms by (auto simp: migrate_step_def split: if_splits)
  show ?thesis
    using assms i
    by (cases "fl_nodes fl ! i"; cases r)
      (auto simp: migrate_step_def goes_def ends_def split: if_splits option.splits)
qed

lemma not_altering:
  assumes "fleet_inv cat fl" and "i < length (fl_nodes fl)" and "fl_nodes fl ! i = Holding"
  shows "\<not> altering i fl"
proof -
  have "fl_lock fl = Some i" using assms by (simp add: fleet_inv_def) (metis inside.simps(1))
  with assms(1) have "\<not> inside (fl_nodes fl ! j)" if "j < length (fl_nodes fl)" "j \<noteq> i" for j
    using that by (auto simp: fleet_inv_def)
  then show ?thesis by (auto simp: altering_def list_ex_iff dest: altered_inside)
qed

text \<open>What a step that keeps the invariant has to say about the node that moves.\<close>

lemma fleet_inv_moves:
  assumes "fleet_inv cat fl" and "i < length (fl_nodes fl)"
    and "inside b \<Longrightarrow> \<not> inside (fl_nodes fl ! i) \<Longrightarrow> fl_lock fl = None"
    and "l = (if inside b then Some i else if fl_lock fl = Some i then None else fl_lock fl)"
    and "k = fl_catalog fl \<or> k = migrated cat"
    and "\<And>c. b = Altered c \<Longrightarrow> c = migrated cat" and "b \<noteq> BootFailed MgRaced" and "b = Booted \<Longrightarrow> k = migrated cat"
  shows "fleet_inv cat \<lparr>fl_catalog = k, fl_lock = l, fl_lock_timeout = tm, fl_nodes = (fl_nodes fl)[i := b]\<rparr>"
proof -
  have in_lock: "inside (fl_nodes fl ! j) \<longleftrightarrow> fl_lock fl = Some j" if "j < length (fl_nodes fl)" for j
    using assms(1) that by (simp add: fleet_inv_def)
  have "inside ((fl_nodes fl)[i := b] ! j) \<longleftrightarrow> l = Some j" if j: "j < length (fl_nodes fl)" for j
  proof (cases "j = i")
    case True
    with j show ?thesis by (simp add: assms(4))
  next
    case False
    then have "\<not> inside (fl_nodes fl ! j)" if "inside b"
      using assms(3) [OF that] in_lock [OF j] in_lock [OF assms(2)] by (cases "inside (fl_nodes fl ! i)") simp_all
    with False j in_lock [OF j] show ?thesis by (auto simp: assms(4))
  qed
  moreover have "l = Some j \<Longrightarrow> j < length (fl_nodes fl)" for j
    using assms(1,2) by (auto simp: fleet_inv_def assms(4) split: if_splits)
  moreover have "k \<in> {cat, migrated cat}" using assms(1,5) by (auto simp: fleet_inv_def)
  moreover have "(fl_nodes fl)[i := b] ! j = Altered c \<Longrightarrow> c = migrated cat" if "j < length (fl_nodes fl)" for j c
    using assms(1,2,6) that by (cases "j = i") (auto simp: fleet_inv_def)
  moreover have "BootFailed MgRaced \<notin> set ((fl_nodes fl)[i := b])"
    using assms(1,7) set_update_subset_insert [of "fl_nodes fl" i b] by (auto simp: fleet_inv_def)
  moreover have "k = migrated cat" if "Booted \<in> set ((fl_nodes fl)[i := b])"
  proof (cases "b = Booted")
    case False
    with that have "Booted \<in> set (fl_nodes fl)" using set_update_subset_insert [of "fl_nodes fl" i b] by auto
    with assms(1,5) show ?thesis by (auto simp: fleet_inv_def)
  qed (rule assms(8))
  ultimately show ?thesis by (simp add: fleet_inv_def)
qed

lemma fleet_inv_goes:
  assumes "fleet_inv cat fl" and "i < length (fl_nodes fl)"
    and "\<not> inside (fl_nodes fl ! i)" and "\<not> inside b" and "\<not> ended b"
  shows "fleet_inv cat (goes i b fl)"
proof -
  have "fl_lock fl \<noteq> Some i" using assms(1-3) by (simp add: fleet_inv_def)
  then have "fleet_inv cat
      \<lparr>fl_catalog = fl_catalog fl, fl_lock = fl_lock fl, fl_lock_timeout = tm, fl_nodes = (fl_nodes fl)[i := b]\<rparr>" for tm
    using assms by (intro fleet_inv_moves) auto
  then show ?thesis by (simp add: goes_def fleet_inv_def)
qed

lemma fleet_inv_ends:
  assumes "fleet_inv cat fl" and "i < length (fl_nodes fl)" and "ended b" and "b \<noteq> BootFailed MgRaced"
    and "k = fl_catalog fl \<or> k = migrated cat" and "b = Booted \<Longrightarrow> k = migrated cat"
  shows "fleet_inv cat ((ends i b fl)\<lparr>fl_catalog := k\<rparr>)"
proof -
  have "\<not> inside b" "\<And>c. b \<noteq> Altered c" using assms(3) by (cases b; simp)+
  with assms have "fleet_inv cat
      \<lparr>fl_catalog = k, fl_lock = (if fl_lock fl = Some i then None else fl_lock fl), fl_lock_timeout = tm,
       fl_nodes = (fl_nodes fl)[i := b]\<rparr>" for tm
    by (intro fleet_inv_moves) auto
  then show ?thesis by (simp add: ends_def goes_def fleet_inv_def)
qed

lemma fleet_inv_fails:
  assumes "fleet_inv cat fl" and "i < length (fl_nodes fl)" and "e \<noteq> MgRaced"
  shows "fleet_inv cat (ends i (BootFailed e) fl)"
  using fleet_inv_ends [of cat fl i "BootFailed e" "fl_catalog fl"] assms by (simp add: ends_def goes_def)

lemma fleet_inv_locks:
  assumes "fleet_inv cat fl" and "i < length (fl_nodes fl)" and "fl_lock fl = None"
  shows "fleet_inv cat ((goes i Holding fl)\<lparr>fl_lock := Some i\<rparr>)"
proof -
  have "fleet_inv cat
      \<lparr>fl_catalog = fl_catalog fl, fl_lock = Some i, fl_lock_timeout = tm, fl_nodes = (fl_nodes fl)[i := Holding]\<rparr>" for tm
    using assms by (intro fleet_inv_moves) auto
  then show ?thesis by (simp add: goes_def fleet_inv_def)
qed

lemma fleet_inv_alters:
  assumes "fleet_inv cat fl" and "i < length (fl_nodes fl)" and "fl_nodes fl ! i = Holding"
  shows "fleet_inv cat (goes i (Altered (migrated cat)) fl)"
proof -
  have "fl_lock fl = Some i" using assms by (simp add: fleet_inv_def) (metis inside.simps(1))
  with assms have "fleet_inv cat
      \<lparr>fl_catalog = fl_catalog fl, fl_lock = fl_lock fl, fl_lock_timeout = tm,
       fl_nodes = (fl_nodes fl)[i := Altered (migrated cat)]\<rparr>" for tm
    by (intro fleet_inv_moves) auto
  then show ?thesis by (simp add: goes_def fleet_inv_def)
qed

lemma fleet_inv_timeout: "fleet_inv cat (fl\<lparr>fl_lock_timeout := tm\<rparr>) = fleet_inv cat fl"
  by (simp add: fleet_inv_def)

lemmas fleet_inv_intros = fleet_inv_goes fleet_inv_ends fleet_inv_fails fleet_inv_locks fleet_inv_alters

lemma fleet_inv_step:
  assumes "legacy_ok cat" and "fleet_inv cat fl" and "migrate_step i r fl = Some fl'"
  shows "fleet_inv cat fl'"
proof -
  have i: "i < length (fl_nodes fl)" using assms(3) by (auto simp: migrate_step_def split: if_splits)
  have alt: "fl_nodes fl ! i = Altered c \<Longrightarrow> c = migrated cat" for c using assms(2) i by (auto simp: fleet_inv_def)
  have run: "run_ddl migrate_sql (fl_catalog fl) = Some (migrated cat)"
    using assms(1,2) run_migrate [OF assms(1)] run_migrate_again [OF assms(1)] by (auto simp: fleet_inv_def)
  have boot: "fleet_inv cat (goes i (BootFailed MgBegin) fl)" if "fl_nodes fl ! i = Booting"
  proof -
    have "fl_lock fl \<noteq> Some i" using assms(2) i that by (simp add: fleet_inv_def) (metis inside.simps(3))
    then have "goes i (BootFailed MgBegin) fl = (ends i (BootFailed MgBegin) fl)\<lparr>fl_lock_timeout := fl_lock_timeout fl\<rparr>"
      by (simp add: ends_def goes_def)
    with fleet_inv_fails [OF assms(2) i, of MgBegin] show ?thesis by (simp add: fleet_inv_timeout)
  qed
  note inv = fleet_inv_intros [OF assms(2) i]
  show ?thesis
    using assms(3) i alt run boot inv(1) [of Bounded] not_altering [OF assms(2) i]
    by (cases "fl_nodes fl ! i"; cases r)
      (auto simp: migrate_step_def fleet_inv_timeout intro: inv split: if_splits)
qed

lemma fleet_inv_start: "fleet_inv cat (fleet_start n cat)"
  by (simp add: fleet_inv_def fleet_start_def)

lemma fleet_run_inv:
  assumes "legacy_ok cat" and "fleet_run steps (fleet_start n cat) = Some fl"
  shows "fleet_inv cat fl \<and> length (fl_nodes fl) = n \<and>
    (\<forall>i < n. boot_rank (fl_nodes fl ! i) + length (filter (\<lambda>s. fst s = i) steps) \<le> 6)"
  using assms(2)
proof (induction steps arbitrary: fl rule: rev_induct)
  case Nil
  then show ?case using fleet_inv_start by (auto simp: fleet_start_def)
next
  case (snoc s steps)
  obtain i r where s: "s = (i, r)" by (cases s)
  with snoc.prems obtain fl0 where fl0: "fleet_run steps (fleet_start n cat) = Some fl0" "migrate_step i r fl0 = Some fl"
    by (auto simp: fleet_run_snoc split: option.splits)
  note IH = snoc.IH [OF fl0(1)] and step = migrate_step_rank [OF fl0(2)]
  have "boot_rank (fl_nodes fl ! j) + length (filter (\<lambda>s. fst s = j) (steps @ [s])) \<le> 6" if "j < n" for j
    using IH step that by (cases "j = i") (auto simp: s dest!: spec [of _ j])
  then show ?case using IH step fleet_inv_step [OF assms(1) _ fl0(2)] by simp
qed


lemma fleet_lock_free:
  assumes "fleet_inv cat fl" and "list_all ended (fl_nodes fl)"
  shows "fl_lock fl = None"
proof (cases "fl_lock fl")
  case (Some i)
  with assms(1) have "i < length (fl_nodes fl)" "inside (fl_nodes fl ! i)" by (auto simp: fleet_inv_def)
  with assms(2) show ?thesis by (cases "fl_nodes fl ! i") (auto simp: list_all_length)
qed

text \<open>A session that may wait for a lock has set its lock timeout.\<close>

fun may_wait :: "boot \<Rightarrow> bool" where
  "may_wait Bounded = True"
| "may_wait Holding = True"
| "may_wait _ = False"

definition waits_bounded :: "fleet \<Rightarrow> bool" where
  "waits_bounded fl \<longleftrightarrow> (\<forall>i < length (fl_nodes fl). may_wait (fl_nodes fl ! i) \<longrightarrow> 0 < fl_lock_timeout fl i)"

lemma waits_bounded_step:
  assumes "waits_bounded fl" and "migrate_step i r fl = Some fl'"
  shows "waits_bounded fl'"
proof -
  have i: "i < length (fl_nodes fl)" using assms(2) by (auto simp: migrate_step_def split: if_splits)
  have "0 < migrateLockTimeout" by (simp add: migrateLockTimeout_def second_def)
  with assms i show ?thesis
    by (cases "fl_nodes fl ! i"; cases r)
      (auto simp: migrate_step_def goes_def ends_def waits_bounded_def nth_list_update split: if_splits option.splits)
qed

lemma waits_bounded_run: "fleet_run steps (fleet_start n cat) = Some fl \<Longrightarrow> waits_bounded fl"
proof (induction steps arbitrary: fl rule: rev_induct)
  case Nil
  then show ?case by (auto simp: fleet_start_def waits_bounded_def)
next
  case (snoc s steps)
  then show ?case by (cases s) (auto simp: fleet_run_snoc split: option.splits intro: waits_bounded_step)
qed

text \<open>Without a rejection a node can go on, or it waits for another node's lock and its wait expires.\<close>

lemma node_moves:
  assumes "waits_bounded fl" and "i < length (fl_nodes fl)" and "\<not> ended (fl_nodes fl ! i)"
    and "fl_lock fl = Some i \<Longrightarrow> inside (fl_nodes fl ! i)"
  shows "migrate_step i Accepted fl \<noteq> None \<or>
    (\<exists>j. fl_lock fl = Some j \<and> j \<noteq> i \<and> migrate_step i Expired fl \<noteq> None)"
  using assms by (cases "fl_nodes fl ! i") (auto simp: migrate_step_def waits_bounded_def split: option.splits)

text \<open>
  C34: a fleet may boot all at once. Whatever the order of the nodes' statements and whatever the
  server rejects, at most one node is between the lock and the end of its transaction; no node ever
  races another's schema change; the catalog is the old one or the migrated one, and the migrated
  one as soon as some node has booted; a node is through after six replies; without any rejection, a node
  that is not through can always go on, unless another node has the lock, and then its own lock
  timeout is set and ends the wait, as it does for the locks that the schema change itself waits for;
  and once all are through the lock is free.
\<close>

theorem fleet_migrates_safely:
  assumes "legacy_ok cat" and "fleet_run steps (fleet_start n cat) = Some fl"
  shows "(\<forall>i < n. \<forall>j < n. inside (fl_nodes fl ! i) \<and> inside (fl_nodes fl ! j) \<longrightarrow> i = j) \<and>
    BootFailed MgRaced \<notin> set (fl_nodes fl) \<and>
    (fl_catalog fl = cat \<or> run_ddl migrate_sql cat = Some (fl_catalog fl)) \<and>
    (Booted \<in> set (fl_nodes fl) \<longrightarrow> run_ddl migrate_sql cat = Some (fl_catalog fl)) \<and>
    (\<forall>i < n. length (filter (\<lambda>s. fst s = i) steps) \<le> 6 \<and>
       (ended (fl_nodes fl ! i) \<or> migrate_step i Accepted fl \<noteq> None \<or>
        (\<exists>j. fl_lock fl = Some j \<and> j \<noteq> i \<and> migrate_step i Expired fl \<noteq> None)) \<and>
       (fl_nodes fl ! i = Holding \<longrightarrow> migrate_step i Expired fl \<noteq> None)) \<and>
    (list_all ended (fl_nodes fl) \<longrightarrow> fl_lock fl = None)"
proof -
  from fleet_run_inv [OF assms] have inv: "fleet_inv cat fl" and n: "length (fl_nodes fl) = n"
    and rank: "\<forall>i < n. boot_rank (fl_nodes fl ! i) + length (filter (\<lambda>s. fst s = i) steps) \<le> 6" by auto
  have "length (filter (\<lambda>s. fst s = i) steps) \<le> 6" if "i < n" for i using rank that by (meson le_trans le_add2)
  moreover have "inside (fl_nodes fl ! i) \<Longrightarrow> inside (fl_nodes fl ! j) \<Longrightarrow> i = j" if "i < n" "j < n" for i j
    using inv that by (simp add: fleet_inv_def n)
  moreover have "fl_catalog fl = cat \<or> run_ddl migrate_sql cat = Some (fl_catalog fl)"
    "Booted \<in> set (fl_nodes fl) \<longrightarrow> run_ddl migrate_sql cat = Some (fl_catalog fl)"
    "BootFailed MgRaced \<notin> set (fl_nodes fl)"
    using inv run_migrate [OF assms(1)] by (auto simp: fleet_inv_def)
  moreover have "ended (fl_nodes fl ! i) \<or> migrate_step i Accepted fl \<noteq> None \<or>
      (\<exists>j. fl_lock fl = Some j \<and> j \<noteq> i \<and> migrate_step i Expired fl \<noteq> None)" if "i < n" for i
    using node_moves [OF waits_bounded_run [OF assms(2)], of i] inv that by (auto simp: n fleet_inv_def)
  moreover have "migrate_step i Expired fl \<noteq> None" if "i < n" "fl_nodes fl ! i = Holding" for i
    using waits_bounded_run [OF assms(2)] that by (simp add: n waits_bounded_def migrate_step_def)
  ultimately show ?thesis using fleet_lock_free [OF inv] by simp
qed

text \<open>Two nodes: the first takes the lock, the second times out waiting for it, the first commits.\<close>

definition sample_boots :: "(nat \<times> reply) list" where
  "sample_boots =
     [(0, Accepted), (1, Accepted), (1, Accepted), (0, Accepted), (0, Accepted), (0, Accepted), (1, Accepted),
      (0, Accepted), (1, Expired), (0, Accepted)]"

theorem fleet_migrates_safely_witness:
  "\<exists>fl. fleet_run sample_boots (fleet_start 2 sample_catalog) = Some fl \<and> Booted \<in> set (fl_nodes fl) \<and>
    fl_lock fl = None \<and> run_ddl migrate_sql sample_catalog = Some (fl_catalog fl)"
proof -
  have "map_option fl_nodes (fleet_run sample_boots (fleet_start 2 sample_catalog)) = Some [Booted, BootFailed MgTimedOut]"
    by (simp add: sample_boots_def fleet_start_def migrate_step_def goes_def ends_def altering_def numeral_2_eq_2
        run_migrate [OF sample_legacy] migrateLockTimeout_def second_def)
  then obtain fl where fl: "fleet_run sample_boots (fleet_start 2 sample_catalog) = Some fl"
    "fl_nodes fl = [Booted, BootFailed MgTimedOut]" by auto
  with fleet_migrates_safely [OF sample_legacy fl(1)] show ?thesis by simp
qed

end
