(* ===== verification/Collapse.thy ===== *)
theory Collapse
  imports Vtec Tags Detection Motion Fips "HOL-Library.Multiset"
begin

text \<open>
  The rows of a snapshot (\<open>ActiveAlertGeoJSON\<close> of \<open>internal/store/postgres.go\<close>), the derivation of
  the states they cover, and the collapse of re-issued warnings (\<open>internal/store/collapse.go\<close>).
\<close>

section \<open>Snapshot rows\<close>

record active_alert =
  NWSID :: string
  EventType :: string
  aa_Severity :: string
  aa_Headline :: string
  aa_Description :: string
  aa_AreaDesc :: string
  aa_States :: "string list"
  aa_Geometry :: "string option"
  EffectiveAt :: time
  ExpiresAt :: time
  StormMotion :: "storm_motion option"
  WarningTags :: "warning_tags option"
  Tornado :: "tornado_detection option"
  VTECEventID :: string
  VTECAction :: string
  eventID :: string

section \<open>States\<close>

text \<open>A set of strings built by insertion is a list without duplicates.\<close>

fun same_loop :: "string list \<Rightarrow> string list \<Rightarrow> string list" where
  "same_loop [] seen = seen"
| "same_loop (c # cs) seen =
     (case state_for_same_code c of
        Some st \<Rightarrow> same_loop cs (List.insert st seen)
      | None \<Rightarrow> same_loop cs seen)"

fun segments_loop :: "string list \<Rightarrow> string list \<Rightarrow> string list" where
  "segments_loop [] seen = seen"
| "segments_loop (s # ss) seen =
     (let segment = trim_space s
      in case after_last (CHR '','') segment of
           Some rest \<Rightarrow>
             (let candidate = trim_space rest; upper = to_upper candidate
              in if length candidate = 2 \<and> is_valid_state_code upper
                 then segments_loop ss (List.insert upper seen)
                 else segments_loop ss seen)
         | None \<Rightarrow> segments_loop ss seen)"

definition derive_states :: "string list \<Rightarrow> string \<Rightarrow> string list \<times> bool" where
  "derive_states sameCodes areaDesc =
     (let seen = same_loop sameCodes [];
          usedFallback = (seen = [] \<and> areaDesc \<noteq> '''');
          seen = (if usedFallback then segments_loop (split_on (CHR '';'') areaDesc) seen else seen)
      in (sort seen, usedFallback))"

section \<open>The collapse\<close>

definition later_issuance :: "active_alert \<Rightarrow> active_alert \<Rightarrow> bool" where
  "later_issuance candidate incumbent =
     (if EffectiveAt candidate \<noteq> EffectiveAt incumbent then EffectiveAt candidate > EffectiveAt incumbent
      else if ExpiresAt candidate \<noteq> ExpiresAt incumbent then ExpiresAt candidate > ExpiresAt incumbent
      else NWSID candidate > NWSID incumbent)"

definition collapse_key :: "active_alert \<Rightarrow> string" where
  "collapse_key a = eventID a @ [CHR 0x00] @ EventType a @ [CHR 0x00] @ aa_AreaDesc a"

text \<open>One round of the loop on \<open>winners\<close>, from keys to indices, and \<open>out\<close>.\<close>

definition collapse_step ::
  "active_alert \<Rightarrow> (string \<Rightarrow> nat option) \<times> active_alert list \<Rightarrow> (string \<Rightarrow> nat option) \<times> active_alert list" where
  "collapse_step a st =
     (case st of (winners, out) \<Rightarrow>
        if eventID a = '''' then (winners, out @ [a])
        else let key = collapse_key a
             in case winners key of
                  None \<Rightarrow> (winners(key \<mapsto> length out), out @ [a])
                | Some idx \<Rightarrow>
                    if later_issuance a (out ! idx) then (winners, out[idx := a]) else (winners, out))"

definition collapse_by_event :: "active_alert list \<Rightarrow> active_alert list" where
  "collapse_by_event alerts = snd (fold collapse_step alerts (Map.empty, []))"

section \<open>Issuances are linearly ordered\<close>

datatype issuance = Issuance time time string

instantiation issuance :: linorder
begin

fun less_eq_issuance :: "issuance \<Rightarrow> issuance \<Rightarrow> bool" where
  "Issuance e x i \<le> Issuance e' x' i' \<longleftrightarrow> e < e' \<or> e = e' \<and> (x < x' \<or> x = x' \<and> i \<le> i')"

fun less_issuance :: "issuance \<Rightarrow> issuance \<Rightarrow> bool" where
  "Issuance e x i < Issuance e' x' i' \<longleftrightarrow> e < e' \<or> e = e' \<and> (x < x' \<or> x = x' \<and> i < i')"

instance
proof
  fix a b c :: issuance
  show "a < b \<longleftrightarrow> a \<le> b \<and> \<not> b \<le> a" by (cases a; cases b) auto
  show "a \<le> a" by (cases a) auto
  show "a \<le> b \<Longrightarrow> b \<le> c \<Longrightarrow> a \<le> c" by (cases a; cases b; cases c) auto
  show "a \<le> b \<Longrightarrow> b \<le> a \<Longrightarrow> a = b" by (cases a; cases b) auto
  show "a \<le> b \<or> b \<le> a" by (cases a; cases b) auto
qed

end

definition issuance_of :: "active_alert \<Rightarrow> issuance" where
  "issuance_of a = Issuance (EffectiveAt a) (ExpiresAt a) (NWSID a)"

lemma later_issuance_less: "later_issuance a b \<longleftrightarrow> issuance_of b < issuance_of a"
  by (auto simp: later_issuance_def issuance_of_def)

lemma issuance_of_id: "issuance_of a = issuance_of b \<Longrightarrow> NWSID a = NWSID b"
  by (simp add: issuance_of_def)

section \<open>The reference: one pass for the places, one maximum per group\<close>

definition vtec_row :: "active_alert \<Rightarrow> bool" where
  "vtec_row a \<longleftrightarrow> eventID a \<noteq> ''''"

fun firsts :: "string list \<Rightarrow> active_alert list \<Rightarrow> active_alert list" where
  "firsts seen [] = []"
| "firsts seen (a # as) =
     (if \<not> vtec_row a then a # firsts seen as
      else if collapse_key a \<in> set seen then firsts seen as
      else a # firsts (collapse_key a # seen) as)"

definition group_of :: "active_alert list \<Rightarrow> string \<Rightarrow> active_alert list" where
  "group_of xs k = filter (\<lambda>a. vtec_row a \<and> collapse_key a = k) xs"

fun latest_of :: "active_alert list \<Rightarrow> active_alert" where
  "latest_of (a # as) = fold (\<lambda>b w. if later_issuance b w then b else w) as a"

definition survivor :: "active_alert list \<Rightarrow> active_alert \<Rightarrow> active_alert" where
  "survivor xs a = (if vtec_row a then latest_of (group_of xs (collapse_key a)) else a)"

lemma firsts_snoc:
  "firsts seen (xs @ [a]) = firsts seen xs @
     (if vtec_row a \<and> (collapse_key a \<in> set seen \<or> group_of xs (collapse_key a) \<noteq> []) then [] else [a])"
  by (induction xs arbitrary: seen) (auto simp: group_of_def)

lemma group_of_snoc:
  "group_of (xs @ [a]) k = group_of xs k @ (if vtec_row a \<and> collapse_key a = k then [a] else [])"
  by (simp add: group_of_def)

lemma latest_of_snoc:
  "xs \<noteq> [] \<Longrightarrow> latest_of (xs @ [a]) = (if later_issuance a (latest_of xs) then a else latest_of xs)"
  by (cases xs) auto

lemma firsts_set: "set (firsts seen xs) \<subseteq> set xs"
  by (induction xs arbitrary: seen) auto

lemma firsts_has_group:
  "a \<in> set xs \<Longrightarrow> vtec_row a \<Longrightarrow> collapse_key a \<notin> set seen \<Longrightarrow>
     \<exists>b \<in> set (firsts seen xs). vtec_row b \<and> collapse_key b = collapse_key a"
proof (induction xs arbitrary: seen)
  case Nil
  then show ?case by simp
next
  case (Cons c xs)
  show ?case
  proof (cases "vtec_row c \<and> collapse_key c = collapse_key a")
    case True
    with Cons.prems(3) show ?thesis by simp
  next
    case False
    with Cons.prems(1,2) have a: "a \<in> set xs" by auto
    have "collapse_key a \<notin> set (if vtec_row c \<and> collapse_key c \<notin> set seen then collapse_key c # seen else seen)"
      using Cons.prems(3) False by auto
    from Cons.IH [OF a Cons.prems(2) this] show ?thesis by (auto split: if_splits)
  qed
qed

lemma firsts_fresh: "b \<in> set (firsts seen xs) \<Longrightarrow> vtec_row b \<Longrightarrow> collapse_key b \<notin> set seen"
proof (induction xs arbitrary: seen)
  case (Cons a xs)
  show ?case
    using Cons.prems Cons.IH [of seen] Cons.IH [of "collapse_key a # seen"]
    by (auto split: if_splits)
qed simp

lemma firsts_distinct: "distinct (map collapse_key (filter vtec_row (firsts seen xs)))"
  by (induction xs arbitrary: seen) (auto dest: firsts_fresh)

lemma firsts_nth_inj:
  assumes "i < length (firsts seen xs)" "j < length (firsts seen xs)"
    "vtec_row (firsts seen xs ! i)" "vtec_row (firsts seen xs ! j)"
    "collapse_key (firsts seen xs ! i) = collapse_key (firsts seen xs ! j)"
  shows "i = j"
  using assms
proof (induction xs arbitrary: seen i j)
  case Nil
  then show ?case by simp
next
  case (Cons a xs)
  have fresh: "collapse_key (firsts (k # seen) xs ! n) \<noteq> k"
    if "n < length (firsts (k # seen) xs)" "vtec_row (firsts (k # seen) xs ! n)" for n k
    using firsts_fresh [of "firsts (k # seen) xs ! n" "k # seen" xs] that by auto
  show ?case
  proof (cases "vtec_row a")
    case False
    with Cons show ?thesis by (cases i; cases j) auto
  next
    case True
    show ?thesis
    proof (cases "collapse_key a \<in> set seen")
      case True
      with \<open>vtec_row a\<close> Cons show ?thesis by auto
    next
      case False
      with \<open>vtec_row a\<close> Cons fresh [of _ "collapse_key a"] show ?thesis
        by (cases i; cases j) (auto, metis+)
    qed
  qed
qed

text \<open>The invariant of the loop: the places are those of the first of each group.\<close>

definition collapse_inv ::
  "active_alert list \<Rightarrow> (string \<Rightarrow> nat option) \<times> active_alert list \<Rightarrow> bool" where
  "collapse_inv xs st \<longleftrightarrow>
     snd st = map (survivor xs) (firsts [] xs) \<and>
     (\<forall>k i. fst st k = Some i \<longleftrightarrow>
        i < length (firsts [] xs) \<and> vtec_row (firsts [] xs ! i) \<and> collapse_key (firsts [] xs ! i) = k)"

lemma survivor_snoc_other:
  "\<not> vtec_row a \<or> collapse_key a \<noteq> collapse_key b \<Longrightarrow> survivor (xs @ [a]) b = survivor xs b"
  by (auto simp: survivor_def group_of_snoc)

lemma group_index:
  assumes "collapse_inv xs st"
  shows "fst st k = None \<longleftrightarrow> group_of xs k = []"
proof
  assume none: "fst st k = None"
  show "group_of xs k = []"
  proof (rule ccontr)
    assume "group_of xs k \<noteq> []"
    then obtain a where a: "a \<in> set xs" "vtec_row a" "collapse_key a = k"
      by (auto simp: group_of_def filter_empty_conv)
    from firsts_has_group [OF a(1,2), of "[]"] obtain b where b: "b \<in> set (firsts [] xs)" "vtec_row b"
      "collapse_key b = k" using a by auto
    then obtain i where "i < length (firsts [] xs)" "b = firsts [] xs ! i" by (auto simp: in_set_conv_nth)
    with b have "fst st k = Some i" using assms by (simp add: collapse_inv_def)
    with none show False by simp
  qed
next
  assume empty: "group_of xs k = []"
  show "fst st k = None"
  proof (rule ccontr)
    assume "fst st k \<noteq> None"
    then obtain i where i: "i < length (firsts [] xs)" "vtec_row (firsts [] xs ! i)"
      "collapse_key (firsts [] xs ! i) = k"
      using assms by (auto simp: collapse_inv_def)
    then have "firsts [] xs ! i \<in> set xs" using firsts_set [of "[]" xs] by auto
    with i empty show False by (auto simp: group_of_def filter_empty_conv)
  qed
qed

lemma map_survivor_other:
  assumes "vtec_row a \<Longrightarrow> \<forall>b \<in> set bs. vtec_row b \<longrightarrow> collapse_key b \<noteq> collapse_key a"
  shows "map (survivor (xs @ [a])) bs = map (survivor xs) bs"
proof (rule map_cong)
  fix b
  assume b: "b \<in> set bs"
  show "survivor (xs @ [a]) b = survivor xs b"
  proof (cases "vtec_row b")
    case True
    then have "\<not> vtec_row a \<or> collapse_key a \<noteq> collapse_key b" using assms b by auto
    then show ?thesis by (rule survivor_snoc_other)
  qed (simp add: survivor_def)
qed simp

text \<open>Another row of a group that is known replaces at most its survivor.\<close>

lemma map_survivor_member:
  assumes "i < length (firsts [] xs)" and "vtec_row (firsts [] xs ! i)"
    and "collapse_key (firsts [] xs ! i) = collapse_key a" and "vtec_row a" and "group_of xs (collapse_key a) \<noteq> []"
    and "out = map (survivor xs) (firsts [] xs)"
  shows "map (survivor (xs @ [a])) (firsts [] xs) = out[i := if later_issuance a (out ! i) then a else out ! i]"
proof (rule nth_equalityI)
  let ?f = "firsts [] xs" and ?k = "collapse_key a"
  have old: "out ! i = latest_of (group_of xs ?k)" using assms by (simp add: survivor_def)
  have new: "survivor (xs @ [a]) (?f ! i) = (if later_issuance a (out ! i) then a else out ! i)"
    using assms by (simp add: survivor_def group_of_snoc latest_of_snoc old)
  fix j
  assume "j < length (map (survivor (xs @ [a])) ?f)"
  then have j: "j < length ?f" by simp
  have "survivor (xs @ [a]) (?f ! j) = survivor xs (?f ! j)" if "j \<noteq> i"
  proof (cases "vtec_row (?f ! j)")
    case True
    then have "?k \<noteq> collapse_key (?f ! j)"
      using firsts_nth_inj [OF j assms(1) _ assms(2)] assms(3) that by auto
    then show ?thesis by (intro survivor_snoc_other) simp
  qed (simp add: survivor_def)
  then show "map (survivor (xs @ [a])) ?f ! j = out[i := if later_issuance a (out ! i) then a else out ! i] ! j"
    using j new by (cases "j = i") (simp_all add: assms(6))
qed (simp add: assms(6))

lemma collapse_step_inv:
  assumes inv: "collapse_inv xs st"
  shows "collapse_inv (xs @ [a]) (collapse_step a st)"
proof -
  obtain w out where st: "st = (w, out)" by (cases st)
  let ?f = "firsts [] xs" and ?k = "collapse_key a"
  have out: "out = map (survivor xs) ?f"
    and w: "w k = Some i \<longleftrightarrow> i < length ?f \<and> vtec_row (?f ! i) \<and> collapse_key (?f ! i) = k" for k i
    using inv by (auto simp: collapse_inv_def st)
  consider (plain) "\<not> vtec_row a" | (first) "vtec_row a" "w ?k = None" | (member) i where "vtec_row a" "w ?k = Some i"
    by fastforce
  then show ?thesis
  proof cases
    case plain
    then have "firsts [] (xs @ [a]) = ?f @ [a]" by (simp add: firsts_snoc)
    with plain show ?thesis
      by (auto simp: collapse_inv_def st collapse_step_def vtec_row_def out w nth_append survivor_def
          map_survivor_other [unfolded vtec_row_def])
  next
    case first
    then have empty: "group_of xs ?k = []" using group_index [OF inv] by (simp add: st)
    with first have f: "firsts [] (xs @ [a]) = ?f @ [a]" by (simp add: firsts_snoc)
    have "\<forall>b \<in> set ?f. vtec_row b \<longrightarrow> collapse_key b \<noteq> ?k"
      using empty firsts_set [of "[]" xs] by (auto simp: group_of_def filter_empty_conv)
    then have m: "map (survivor (xs @ [a])) ?f = map (survivor xs) ?f" by (intro map_survivor_other)
    have "survivor (xs @ [a]) a = a" using first empty by (simp add: survivor_def group_of_snoc)
    moreover have "(w(?k \<mapsto> length ?f)) k = Some i \<longleftrightarrow>
        i < Suc (length ?f) \<and> vtec_row ((?f @ [a]) ! i) \<and> collapse_key ((?f @ [a]) ! i) = k" for k i
      using w [of k i] first w [of ?k i] by (auto simp: nth_append less_Suc_eq)
    ultimately show ?thesis
      using first by (simp add: collapse_inv_def st collapse_step_def vtec_row_def Let_def out f m)
  next
    case member
    then have i: "i < length ?f" "vtec_row (?f ! i)" "collapse_key (?f ! i) = ?k" using w by simp_all
    have group: "group_of xs ?k \<noteq> []" using group_index [OF inv, of ?k] member by (simp add: st)
    then have f: "firsts [] (xs @ [a]) = ?f" using member by (simp add: firsts_snoc)
    have "collapse_step a st = (w, out[i := if later_issuance a (out ! i) then a else out ! i])"
      using member by (simp add: collapse_step_def st vtec_row_def list_update_id)
    with map_survivor_member [OF i member(1) group out] show ?thesis by (simp add: collapse_inv_def f w)
  qed
qed

lemma collapse_inv_fold: "collapse_inv xs (fold collapse_step xs (Map.empty, []))"
proof (induction xs rule: rev_induct)
  case Nil
  show ?case by (simp add: collapse_inv_def)
next
  case (snoc a xs)
  then show ?case using collapse_step_inv by simp
qed

lemma collapse_by_event_reference: "collapse_by_event xs = map (survivor xs) (firsts [] xs)"
  using collapse_inv_fold [of xs] by (simp add: collapse_inv_def collapse_by_event_def)

section \<open>The survivor of a group\<close>

lemma fold_latest:
  "fold (\<lambda>b w. if later_issuance b w then b else w) as a \<in> set (a # as) \<and>
   (\<forall>b \<in> set (a # as). issuance_of b \<le> issuance_of (fold (\<lambda>b w. if later_issuance b w then b else w) as a))"
proof (induction as arbitrary: a)
  case (Cons c as)
  show ?case
  proof (cases "later_issuance c a")
    case True
    with Cons.IH [of c] show ?thesis by (auto simp: later_issuance_less intro: less_imp_le order_trans)
  next
    case False
    with Cons.IH [of a] show ?thesis by (auto simp: later_issuance_less not_less intro: order_trans)
  qed
qed simp

lemma latest_of_max:
  assumes "g \<noteq> []"
  shows "latest_of g \<in> set g" and "b \<in> set g \<Longrightarrow> issuance_of b \<le> issuance_of (latest_of g)"
proof -
  obtain a as where g: "g = a # as" using assms by (cases g) auto
  show "latest_of g \<in> set g" using fold_latest [of as a] g by simp
  show "b \<in> set g \<Longrightarrow> issuance_of b \<le> issuance_of (latest_of g)" using fold_latest [of as a] g by auto
qed

lemma survivor_in_group:
  assumes "a \<in> set xs" "vtec_row a"
  shows "survivor xs a \<in> set xs" "vtec_row (survivor xs a)" "collapse_key (survivor xs a) = collapse_key a"
    "issuance_of a \<le> issuance_of (survivor xs a)"
proof -
  have a: "a \<in> set (group_of xs (collapse_key a))" using assms by (simp add: group_of_def)
  then have "latest_of (group_of xs (collapse_key a)) \<in> set (group_of xs (collapse_key a))"
    by (intro latest_of_max(1)) auto
  with assms(2) show "survivor xs a \<in> set xs" "vtec_row (survivor xs a)"
    "collapse_key (survivor xs a) = collapse_key a"
    by (auto simp: survivor_def group_of_def)
  show "issuance_of a \<le> issuance_of (survivor xs a)"
    using latest_of_max(2) [OF _ a] a assms(2) by (force simp: survivor_def)
qed

lemma survivor_not_vtec: "\<not> vtec_row a \<Longrightarrow> survivor xs a = a"
  by (simp add: survivor_def)

lemma survivor_same_key:
  "vtec_row a \<Longrightarrow> vtec_row b \<Longrightarrow> collapse_key a = collapse_key b \<Longrightarrow> survivor xs a = survivor xs b"
  by (simp add: survivor_def)

lemma collapse_set: "set (collapse_by_event xs) = survivor xs ` set xs"
proof
  show "set (collapse_by_event xs) \<subseteq> survivor xs ` set xs"
    using firsts_set [of "[]" xs] by (auto simp: collapse_by_event_reference)
  show "survivor xs ` set xs \<subseteq> set (collapse_by_event xs)"
  proof
    fix s
    assume "s \<in> survivor xs ` set xs"
    then obtain a where a: "a \<in> set xs" "s = survivor xs a" by auto
    show "s \<in> set (collapse_by_event xs)"
    proof (cases "vtec_row a")
      case True
      from firsts_has_group [OF a(1) True, of "[]"] obtain b where "b \<in> set (firsts [] xs)" "vtec_row b"
        "collapse_key b = collapse_key a" by auto
      with True a(2) show ?thesis by (metis collapse_by_event_reference imageI list.set_map survivor_same_key)
    next
      case False
      then have "a \<in> set (firsts seen xs)" for seen using a(1) by (induction xs arbitrary: seen) auto
      with a(2) show ?thesis by (simp add: collapse_by_event_reference)
    qed
  qed
qed

lemma survivor_keys:
  "set as \<subseteq> set xs \<Longrightarrow> map collapse_key (filter vtec_row (map (survivor xs) as)) = map collapse_key (filter vtec_row as)"
proof (induction as)
  case (Cons a as)
  then show ?case
    using survivor_in_group(2,3) [of a xs] by (cases "vtec_row a") (auto simp: survivor_not_vtec)
qed simp

lemma firsts_not_vtec: "filter (\<lambda>a. \<not> vtec_row a) (firsts seen xs) = filter (\<lambda>a. \<not> vtec_row a) xs"
  by (induction xs arbitrary: seen) auto

lemma map_survivor_not_vtec:
  "set as \<subseteq> set xs \<Longrightarrow> filter (\<lambda>a. \<not> vtec_row a) (map (survivor xs) as) = filter (\<lambda>a. \<not> vtec_row a) as"
proof (induction as)
  case (Cons a as)
  then show ?case
    using survivor_in_group(2) [of a xs] by (cases "vtec_row a") (auto simp: survivor_not_vtec)
qed simp

lemma collapse_not_vtec: "filter (\<lambda>a. eventID a = '''') (collapse_by_event xs) = filter (\<lambda>a. eventID a = '''') xs"
  using map_survivor_not_vtec [of "firsts [] xs" xs] firsts_not_vtec [of "[]" xs] firsts_set [of "[]" xs]
  by (simp add: collapse_by_event_reference vtec_row_def)

lemma distinct_vtec_Cons:
  "distinct (map collapse_key (filter vtec_row (a # as))) \<Longrightarrow> vtec_row a \<Longrightarrow> b \<in> set as \<Longrightarrow> vtec_row b \<Longrightarrow>
     collapse_key b \<noteq> collapse_key a"
  by (auto simp: image_iff)

lemma firsts_fixed:
  "distinct (map collapse_key (filter vtec_row as)) \<Longrightarrow>
     (\<forall>a \<in> set as. vtec_row a \<longrightarrow> collapse_key a \<notin> set seen) \<Longrightarrow> firsts seen as = as"
proof (induction as arbitrary: seen)
  case (Cons a as)
  then show ?case
  proof (cases "vtec_row a")
    case True
    then have "\<forall>b \<in> set as. vtec_row b \<longrightarrow> collapse_key b \<notin> set (collapse_key a # seen)"
      using Cons.prems(2) distinct_vtec_Cons [OF Cons.prems(1) True] by auto
    with Cons True show ?thesis by auto
  qed auto
qed simp

lemma group_fixed:
  assumes "distinct (map collapse_key (filter vtec_row as))" "a \<in> set as" "vtec_row a"
  shows "group_of as (collapse_key a) = [a]"
  using assms
proof (induction as)
  case (Cons b as)
  show ?case
  proof (cases "a = b")
    case True
    then have "\<forall>c \<in> set as. vtec_row c \<longrightarrow> collapse_key c \<noteq> collapse_key a"
      using distinct_vtec_Cons [OF Cons.prems(1)] Cons.prems(3) by auto
    with True Cons.prems(3) show ?thesis by (auto simp: group_of_def filter_empty_conv)
  next
    case False
    then have "vtec_row b \<Longrightarrow> collapse_key b \<noteq> collapse_key a"
      using distinct_vtec_Cons [OF Cons.prems(1), of a] Cons.prems(2,3) by auto
    moreover have "group_of as (collapse_key a) = [a]" using Cons False by (cases "vtec_row b") auto
    ultimately show ?thesis by (auto simp: group_of_def)
  qed
qed simp

lemma collapse_fixed:
  assumes "distinct (map collapse_key (filter vtec_row as))"
  shows "collapse_by_event as = as"
  unfolding collapse_by_event_reference
  using assms group_fixed [OF assms] by (simp add: firsts_fixed survivor_def map_idI)

text \<open>Two issuances of one warning around a statement without VTEC, and another warning.\<close>

definition sample_alert :: "string \<Rightarrow> time \<Rightarrow> string \<Rightarrow> active_alert" where
  "sample_alert i t ev =
     \<lparr>NWSID = i, EventType = ''Tornado Warning'', aa_Severity = ''Extreme'', aa_Headline = '''',
      aa_Description = '''', aa_AreaDesc = ''Cleveland, OK'', aa_States = [''OK''], aa_Geometry = None,
      EffectiveAt = t, ExpiresAt = t + 1800, StormMotion = None, WarningTags = None, Tornado = None,
      VTECEventID = ev, VTECAction = '''', eventID = ev\<rparr>"

definition sample_alerts :: "active_alert list" where
  "sample_alerts =
     [sample_alert ''a'' 100 ''KOUN.TO.W.0015'', sample_alert ''b'' 90 '''',
      sample_alert ''c'' 200 ''KOUN.TO.W.0015'', sample_alert ''d'' 80 ''KTSA.TO.W.0002'']"

section \<open>Properties of the collapse\<close>

text \<open>
  The three fields of the key are told apart by the NUL between them, since no column of the
  database holds one.
\<close>

definition no_nul :: "active_alert \<Rightarrow> bool" where
  "no_nul a \<longleftrightarrow> CHR 0x00 \<notin> set (eventID a) \<and> CHR 0x00 \<notin> set (EventType a) \<and> CHR 0x00 \<notin> set (aa_AreaDesc a)"

definition same_warning :: "active_alert \<Rightarrow> active_alert \<Rightarrow> bool" where
  "same_warning a b \<longleftrightarrow>
     eventID a \<noteq> '''' \<and> eventID a = eventID b \<and> EventType a = EventType b \<and> aa_AreaDesc a = aa_AreaDesc b"

lemma split_at_first: "p @ c # r = q @ c # s \<Longrightarrow> c \<notin> set p \<Longrightarrow> c \<notin> set q \<Longrightarrow> p = q \<and> r = s"
proof (induction p arbitrary: q)
  case Nil
  then show ?case by (cases q) auto
next
  case (Cons x p)
  then show ?case by (cases q) auto
qed

lemma collapse_key_inj:
  assumes "no_nul a" "no_nul b"
  shows "collapse_key a = collapse_key b \<longleftrightarrow>
    eventID a = eventID b \<and> EventType a = EventType b \<and> aa_AreaDesc a = aa_AreaDesc b"
  using assms split_at_first [of "eventID a" "CHR 0x00" _ "eventID b"]
    split_at_first [of "EventType a" "CHR 0x00" "aa_AreaDesc a" "EventType b" "aa_AreaDesc b"]
  by (auto simp: collapse_key_def no_nul_def)

lemma same_warning_key:
  "no_nul a \<Longrightarrow> no_nul b \<Longrightarrow> same_warning a b \<longleftrightarrow> vtec_row a \<and> vtec_row b \<and> collapse_key a = collapse_key b"
  by (auto simp: same_warning_def vtec_row_def collapse_key_inj)

text \<open>
  C21: no warning is dropped and none is shown twice. For every row with a VTEC event there is
  exactly one survivor with its event, type and area, it is a row of the input and at least as
  late as every row of its group; rows without a VTEC event all survive, in their order and number.
\<close>

theorem collapse_keeps_one_latest_per_warning:
  assumes "list_all no_nul xs"
  shows "(\<forall>a \<in> set xs. eventID a \<noteq> '''' \<longrightarrow>
      (\<exists>!s. s \<in> set (collapse_by_event xs) \<and> same_warning a s)) \<and>
    (\<forall>a \<in> set xs. \<forall>s \<in> set (collapse_by_event xs). same_warning a s \<longrightarrow> issuance_of a \<le> issuance_of s) \<and>
    set (collapse_by_event xs) \<subseteq> set xs \<and>
    distinct (map collapse_key (filter vtec_row (collapse_by_event xs))) \<and>
    filter (\<lambda>a. eventID a = '''') (collapse_by_event xs) = filter (\<lambda>a. eventID a = '''') xs"
proof -
  have nul: "no_nul a" if "a \<in> set xs" for a using assms that by (simp add: list_all_iff)
  have sub: "set (collapse_by_event xs) \<subseteq> set xs"
  proof
    fix s assume "s \<in> set (collapse_by_event xs)"
    then obtain a where "a \<in> set xs" "s = survivor xs a" by (auto simp: collapse_set)
    then show "s \<in> set xs" using survivor_in_group(1) [of a xs] by (cases "vtec_row a") (auto simp: survivor_not_vtec)
  qed
  have the_one: "s = survivor xs a"
    if a: "a \<in> set xs" and s: "s \<in> set (collapse_by_event xs)" "same_warning a s" for a s
  proof -
    from s(1) obtain b where b: "b \<in> set xs" "s = survivor xs b" by (auto simp: collapse_set)
    have key: "vtec_row a" "vtec_row s" "collapse_key a = collapse_key s"
      using s sub nul a same_warning_key [of a s] by auto
    then have "vtec_row b" using b(2) by (cases "vtec_row b") (auto simp: survivor_not_vtec)
    moreover from this have "collapse_key b = collapse_key a"
      using survivor_in_group(3) [OF b(1)] b(2) key by simp
    ultimately show ?thesis using b(2) key(1) survivor_same_key by metis
  qed
  have ex: "survivor xs a \<in> set (collapse_by_event xs) \<and> same_warning a (survivor xs a)"
    if "a \<in> set xs" "vtec_row a" for a
    using that survivor_in_group [of a xs] same_warning_key [of a "survivor xs a"] nul
    by (auto simp: collapse_set)
  have "(\<forall>a \<in> set xs. eventID a \<noteq> '''' \<longrightarrow> (\<exists>!s. s \<in> set (collapse_by_event xs) \<and> same_warning a s))"
    using ex the_one by (metis vtec_row_def)
  moreover have "\<forall>a \<in> set xs. \<forall>s \<in> set (collapse_by_event xs). same_warning a s \<longrightarrow> issuance_of a \<le> issuance_of s"
    using the_one survivor_in_group(4) by (metis same_warning_def vtec_row_def)
  moreover have "map collapse_key (filter vtec_row (collapse_by_event xs)) =
      map collapse_key (filter vtec_row (firsts [] xs))"
    using survivor_keys [of "firsts [] xs" xs] firsts_set [of "[]" xs] by (simp add: collapse_by_event_reference)
  ultimately show ?thesis
    using sub firsts_distinct [of "[]" xs] collapse_not_vtec [of xs] by simp
qed

lemma sample_no_nul: "list_all no_nul sample_alerts"
  by code_simp

theorem collapse_keeps_one_latest_per_warning_witness:
  "eventID (sample_alerts ! 0) \<noteq> '''' \<and>
    (\<exists>!s. s \<in> set (collapse_by_event sample_alerts) \<and> same_warning (sample_alerts ! 0) s) \<and>
    filter (\<lambda>a. eventID a = '''') (collapse_by_event sample_alerts) = [sample_alerts ! 1]"
proof -
  have "sample_alerts ! 0 \<in> set sample_alerts" by (simp add: sample_alerts_def)
  moreover have "eventID (sample_alerts ! 0) \<noteq> ''''" by code_simp
  moreover have "filter (\<lambda>a. eventID a = '''') sample_alerts = [sample_alerts ! 1]"
    by (simp add: sample_alerts_def sample_alert_def)
  ultimately show ?thesis
    using collapse_keeps_one_latest_per_warning [OF sample_no_nul] by simp
qed

section \<open>The order of the rows does not matter\<close>

lemma survivor_mset:
  assumes "mset xs = mset ys" and "inj_on issuance_of (set xs)" and "a \<in> set xs"
  shows "survivor xs a = survivor ys a"
proof (cases "vtec_row a")
  case True
  have set_eq: "set ys = set xs" using assms(1) by (metis mset_eq_setD)
  let ?s = "survivor xs a" and ?t = "survivor ys a"
  have s: "?s \<in> set xs" "vtec_row ?s" "collapse_key ?s = collapse_key a"
    using survivor_in_group [OF assms(3) True] by auto
  have t: "?t \<in> set xs" "vtec_row ?t" "collapse_key ?t = collapse_key a"
    using survivor_in_group [of a ys] True assms(3) set_eq by auto
  have "survivor xs ?t = ?s" using survivor_same_key [OF t(2) True t(3)] .
  then have "issuance_of ?t \<le> issuance_of ?s" using survivor_in_group(4) [OF t(1,2)] by simp
  moreover have "survivor ys ?s = ?t" using survivor_same_key [OF s(2) True s(3)] .
  then have "issuance_of ?s \<le> issuance_of ?t" using survivor_in_group(4) [of ?s ys] s set_eq by simp
  ultimately show ?thesis using assms(2) s(1) t(1) by (auto dest: inj_onD)
qed (simp add: survivor_not_vtec)

lemma collapse_vtec_distinct: "distinct (filter vtec_row (collapse_by_event xs))"
  using survivor_keys [of "firsts [] xs" xs] firsts_set [of "[]" xs] firsts_distinct [of "[]" xs]
  by (simp add: collapse_by_event_reference) (metis distinct_map)

lemma inj_issuance: "distinct (map NWSID xs) \<Longrightarrow> inj_on issuance_of (set xs)"
  by (auto simp: inj_on_def distinct_map dest: issuance_of_id)

text \<open>
  The snapshot does not depend on the order in which the database returns equally recent rows.
  Two orders of the same rows, each with its own id, leave the same survivors, and collapsing twice
  is collapsing once.
\<close>

lemma collapse_order:
  assumes "mset xs = mset ys" and "distinct (map NWSID xs)"
  shows "mset (collapse_by_event xs) = mset (collapse_by_event ys) \<and>
    collapse_by_event (collapse_by_event xs) = collapse_by_event xs"
proof
  let ?cx = "collapse_by_event xs" and ?cy = "collapse_by_event ys"
  have set_eq: "set ys = set xs" using assms(1) by (metis mset_eq_setD)
  have "set ?cx = set ?cy"
    using survivor_mset [OF assms(1) inj_issuance [OF assms(2)]] by (simp add: collapse_set set_eq)
  then have "set (filter vtec_row ?cx) = set (filter vtec_row ?cy)" by auto
  then have "mset (filter vtec_row ?cx) = mset (filter vtec_row ?cy)"
    using set_eq_iff_mset_eq_distinct [OF collapse_vtec_distinct collapse_vtec_distinct] by blast
  moreover have "mset (filter (\<lambda>a. \<not> vtec_row a) ?cx) = mset (filter (\<lambda>a. \<not> vtec_row a) ?cy)"
    using collapse_not_vtec [of xs] collapse_not_vtec [of ys] assms(1) by (simp add: vtec_row_def mset_filter)
  ultimately show "mset ?cx = mset ?cy"
    using multiset_partition [of "mset ?cx" vtec_row] multiset_partition [of "mset ?cy" vtec_row]
    by (simp add: mset_filter)
  have "map collapse_key (filter vtec_row ?cx) = map collapse_key (filter vtec_row (firsts [] xs))"
    using survivor_keys [of "firsts [] xs" xs] firsts_set [of "[]" xs] by (simp add: collapse_by_event_reference)
  then show "collapse_by_event ?cx = ?cx"
    using firsts_distinct [of "[]" xs] by (intro collapse_fixed) simp
qed

section \<open>States\<close>

definition segment_state :: "string \<Rightarrow> string option" where
  "segment_state s =
     (case after_last (CHR '','') (trim_space s) of
        None \<Rightarrow> None
      | Some rest \<Rightarrow>
          if length (trim_space rest) = 2 \<and> is_valid_state_code (to_upper (trim_space rest))
          then Some (to_upper (trim_space rest)) else None)"

lemma same_loop_set: "set (same_loop cs seen) = set seen \<union> {st. \<exists>c \<in> set cs. state_for_same_code c = Some st}"
  by (induction cs arbitrary: seen) (auto split: option.splits)

lemma segments_loop_set: "set (segments_loop ss seen) = set seen \<union> {st. \<exists>s \<in> set ss. segment_state s = Some st}"
  by (induction ss arbitrary: seen) (auto simp: Let_def segment_state_def split: option.splits)

lemma same_loop_distinct: "distinct seen \<Longrightarrow> distinct (same_loop cs seen)"
  by (induction cs arbitrary: seen) (auto split: option.splits)

lemma segments_loop_distinct: "distinct seen \<Longrightarrow> distinct (segments_loop ss seen)"
  by (induction ss arbitrary: seen) (auto simp: Let_def split: option.splits)

lemma segment_state_valid: "segment_state s = Some st \<Longrightarrow> is_valid_state_code st"
  by (auto simp: segment_state_def split: option.splits if_splits)

text \<open>
  C22: the states of an alert are sorted, without repetition, and all real state codes. They are
  those of its SAME codes whenever one of them resolves; only otherwise are they the codes that end
  the segments of the area description, and the flag says which.
\<close>

theorem derive_states_spec:
  "let resolved = {st. \<exists>c \<in> set same. state_for_same_code c = Some st};
       (states, usedFallback) = derive_states same area
   in sorted states \<and> distinct states \<and> list_all is_valid_state_code states \<and>
      (usedFallback \<longleftrightarrow> resolved = {} \<and> area \<noteq> '''') \<and>
      set states = (if resolved \<noteq> {} then resolved
                    else {st. \<exists>s \<in> set (split_on (CHR '';'') area). segment_state s = Some st})"
proof -
  let ?r = "{st. \<exists>c \<in> set same. state_for_same_code c = Some st}"
  have seen: "set (same_loop same []) = ?r" by (simp add: same_loop_set)
  then have none: "same_loop same [] = [] \<longleftrightarrow> ?r = {}" by (metis set_empty)
  have blank: "segment_state '''' = None" by code_simp
  have valid: "st \<in> ?r \<Longrightarrow> is_valid_state_code st" for st using state_for_same_code_valid by blast
  show ?thesis
    using seen none blank valid same_loop_distinct [of "[]" same]
      segments_loop_set [of "split_on (CHR '';'') area" "[]"]
      segments_loop_distinct [of "[]" "split_on (CHR '';'') area"]
    by (auto simp: derive_states_def Let_def list_all_iff dest: segment_state_valid split: if_splits)
qed

end
