(* ===== verification/Store.thy ===== *)
theory Store
  imports Database Collapse
begin

text \<open>
  The store of \<open>internal/store/postgres.go\<close> and \<open>supersede.go\<close>: the batch upserts with their
  per-row fallback, supersession by reference, the read of the active alerts and the purge. The
  server and the context are the environment: for every statement, the error the call returns. A
  commit or an autocommitted statement whose reply is lost may have been applied all the same.
  \<open>parse_time\<close> is \<open>time.Parse(time.RFC3339, _)\<close>, \<open>marshal\<close> is \<open>json.Marshal\<close> of the properties.
\<close>

section \<open>Errors and arguments\<close>

datatype db_err = CtxErr ctx_err | SqlErr string | MarshalErr string

definition is_fatal_batch_err :: "db_err \<Rightarrow> bool" where
  "is_fatal_batch_err e = (case e of CtxErr _ \<Rightarrow> True | _ \<Rightarrow> False)"

text \<open>\<open>Some (effectiveAt, expiresAt)\<close> where the source returns \<open>ok\<close>.\<close>

definition parse_alert_times ::
  "(string \<Rightarrow> time option) \<Rightarrow> alert_properties \<Rightarrow> time \<Rightarrow> (time \<times> time) option" where
  "parse_alert_times parse_time props receivedAt =
     (case parse_time (Expires props) of
        None \<Rightarrow> None
      | Some expiresAt \<Rightarrow>
          (case parse_time (Effective props) of
             None \<Rightarrow> Some (receivedAt, expiresAt)
           | Some effectiveAt \<Rightarrow> Some (effectiveAt, expiresAt)))"

definition geom_str :: "string \<Rightarrow> string option" where
  "geom_str g = (if g \<noteq> '''' \<and> g \<noteq> ''null'' then Some g else None)"

datatype upsert_args = Args alert_args | SkipRow | ArgsErr db_err

definition alert_upsert_args ::
  "(string \<Rightarrow> time option) \<Rightarrow> (alert_properties \<Rightarrow> string option) \<Rightarrow> alert \<Rightarrow> time \<Rightarrow> upsert_args" where
  "alert_upsert_args parse_time marshal a receivedAt =
     (let props = Properties a
      in case parse_alert_times parse_time props receivedAt of
           None \<Rightarrow> SkipRow
         | Some (effectiveAt, expiresAt) \<Rightarrow>
             (case marshal props of
                None \<Rightarrow> ArgsErr (MarshalErr (ID props))
              | Some propsJSON \<Rightarrow>
                  Args \<lparr>arg_id = ID props, arg_event = Event props, arg_severity = Severity props,
                        arg_headline = Headline props, arg_description = Description props,
                        arg_instruction = Instruction props, arg_area_desc = AreaDesc props,
                        arg_sender_name = SenderName props, arg_geometry = geom_str (Geometry a),
                        arg_properties = propsJSON, arg_effective_at = effectiveAt,
                        arg_expires_at = expiresAt\<rparr>))"

section \<open>Supersession\<close>

text \<open>The map from event types to referenced ids, as an association list without repeated keys.\<close>

fun append_ref :: "string \<Rightarrow> string \<Rightarrow> (string \<times> string list) list \<Rightarrow> (string \<times> string list) list" where
  "append_ref et i [] = [(et, [i])]"
| "append_ref et i ((k, ids) # m) = (if k = et then (k, ids @ [i]) # m else (k, ids) # append_ref et i m)"

fun refs_loop ::
  "string \<Rightarrow> alert_reference list \<Rightarrow> (string \<times> string list) list \<Rightarrow> (string \<times> string list) list" where
  "refs_loop et [] out = out"
| "refs_loop et (r # rs) out =
     (if Identifier r = '''' then refs_loop et rs out
      else refs_loop et rs (append_ref et (Identifier r) out))"

definition references_by_event_type :: "alert list \<Rightarrow> (string \<times> string list) list" where
  "references_by_event_type alerts =
     fold (\<lambda>a out. refs_loop (Event (Properties a)) (References (Properties a)) out) alerts []"

text \<open>
  The loop over the map: \<open>shuffle\<close> is the order in which Go happens to visit the keys, \<open>err\<close> the
  error of the statement of an event type, \<open>now\<close> its clock.
\<close>

fun retire_loop ::
  "(string \<Rightarrow> db_err option) \<Rightarrow> (string \<Rightarrow> time) \<Rightarrow> nat \<Rightarrow> (string \<times> string list) list \<Rightarrow>
   event_row list \<Rightarrow> (nat \<times> db_err option) \<times> event_row list" where
  "retire_loop err now acc [] rs = ((acc, None), rs)"
| "retire_loop err now acc ((et, ids) # m) rs =
     (case err et of
        Some e \<Rightarrow> ((acc, Some e), rs)
      | None \<Rightarrow> retire_loop err now (acc + retire_affected ids et rs) m
                  (retire_by_reference (now et) ids et rs))"

type_synonym shuffle = "(string \<times> string list) list \<Rightarrow> (string \<times> string list) list"

definition retire_referenced ::
  "shuffle \<Rightarrow> (string \<Rightarrow> db_err option) \<Rightarrow> (string \<Rightarrow> time) \<Rightarrow> alert list \<Rightarrow> event_row list \<Rightarrow>
   (nat \<times> db_err option) \<times> event_row list" where
  "retire_referenced shuffle err now alerts rs =
     retire_loop err now 0 (shuffle (references_by_event_type alerts)) rs"

section \<open>The batch transaction\<close>

record tx_env =
  tx_begin_err :: "db_err option"
  tx_received_at :: time
  tx_now :: time
  tx_row_err :: "nat \<Rightarrow> db_err option"
  tx_close_err :: "db_err option"
  tx_retire_err :: "string \<Rightarrow> db_err option"
  tx_shuffle :: shuffle
  tx_commit_err :: "db_err option"
  tx_commit_applied :: bool              \<comment> \<open>a commit that reported an error took effect\<close>

text \<open>The queueing loop: the alerts queued with their arguments, and the number skipped.\<close>

fun queue_loop ::
  "(string \<Rightarrow> time option) \<Rightarrow> (alert_properties \<Rightarrow> string option) \<Rightarrow> time \<Rightarrow> alert list \<Rightarrow>
   (alert \<times> alert_args) list \<Rightarrow> nat \<Rightarrow> db_err + ((alert \<times> alert_args) list \<times> nat)" where
  "queue_loop pt ms receivedAt [] queued skipped = Inr (queued, skipped)"
| "queue_loop pt ms receivedAt (a # as) queued skipped =
     (case alert_upsert_args pt ms a receivedAt of
        ArgsErr e \<Rightarrow> Inl e
      | SkipRow \<Rightarrow> queue_loop pt ms receivedAt as queued (skipped + 1)
      | Args args \<Rightarrow> queue_loop pt ms receivedAt as (queued @ [(a, args)]) skipped)"

text \<open>The first error of the \<open>n\<close> results of a batch, or of closing it.\<close>

definition batch_error :: "(nat \<Rightarrow> db_err option) \<Rightarrow> db_err option \<Rightarrow> nat \<Rightarrow> db_err option" where
  "batch_error row_err close_err n =
     (case List.find (\<lambda>i. row_err i \<noteq> None) [0..<n] of
        Some i \<Rightarrow> row_err i
      | None \<Rightarrow> close_err)"

definition upsert_events :: "time \<Rightarrow> alert_args list \<Rightarrow> event_row list \<Rightarrow> event_row list" where
  "upsert_events now args rs = fold (upsert_event now) args rs"

definition commit :: "tx_env \<Rightarrow> 'd \<Rightarrow> 'd \<Rightarrow> db_err option \<times> 'd" where
  "commit env old new =
     (case tx_commit_err env of
        None \<Rightarrow> (None, new)
      | Some e \<Rightarrow> (Some e, if tx_commit_applied env then new else old))"

definition upsert_alerts_batch_tx ::
  "(string \<Rightarrow> time option) \<Rightarrow> (alert_properties \<Rightarrow> string option) \<Rightarrow> tx_env \<Rightarrow> alert list \<Rightarrow>
   event_row list \<Rightarrow> (nat \<times> nat \<times> db_err option) \<times> event_row list" where
  "upsert_alerts_batch_tx pt ms env alerts rs =
     (case tx_begin_err env of
        Some e \<Rightarrow> ((0, 0, Some e), rs)
      | None \<Rightarrow>
          (case queue_loop pt ms (tx_received_at env) alerts [] 0 of
             Inl e \<Rightarrow> ((0, 0, Some e), rs)
           | Inr (queued, skipped) \<Rightarrow>
               if queued = [] then
                 (case commit env rs rs of
                    (Some e, rs') \<Rightarrow> ((0, skipped, Some e), rs')
                  | (None, rs') \<Rightarrow> ((0, skipped, None), rs'))
               else
                 (case batch_error (tx_row_err env) (tx_close_err env) (length queued) of
                    Some e \<Rightarrow> ((0, 0, Some e), rs)
                  | None \<Rightarrow>
                      (let rs1 = upsert_events (tx_now env) (map snd queued) rs
                       in case retire_referenced (tx_shuffle env) (tx_retire_err env)
                                 (\<lambda>_. tx_now env) (map fst queued) rs1 of
                            ((_, Some e), _) \<Rightarrow> ((0, 0, Some e), rs)
                          | ((_, None), rs2) \<Rightarrow>
                              (case commit env rs rs2 of
                                 (Some e, rs') \<Rightarrow> ((0, 0, Some e), rs')
                               | (None, rs') \<Rightarrow> ((length queued, skipped, None), rs'))))))"

section \<open>The batch with its fallback\<close>

record row_env =
  re_received_at :: time
  re_now :: time
  re_err :: "db_err option"
  re_applied :: bool                     \<comment> \<open>a statement that reported an error took effect\<close>

datatype upsert_outcome = Upserted | SkippedUnparseable | UpsertFailed db_err

definition upsert_alert ::
  "(string \<Rightarrow> time option) \<Rightarrow> (alert_properties \<Rightarrow> string option) \<Rightarrow> row_env \<Rightarrow> alert \<Rightarrow>
   event_row list \<Rightarrow> upsert_outcome \<times> event_row list" where
  "upsert_alert pt ms env a rs =
     (case alert_upsert_args pt ms a (re_received_at env) of
        SkipRow \<Rightarrow> (SkippedUnparseable, rs)
      | ArgsErr e \<Rightarrow> (UpsertFailed e, rs)
      | Args args \<Rightarrow>
          (let rs' = upsert_event (re_now env) args rs
           in case re_err env of
                None \<Rightarrow> (Upserted, rs')
              | Some e \<Rightarrow> (UpsertFailed e, if re_applied env then rs' else rs)))"

record fallback_state =
  fb_count :: nat
  fb_skipped :: nat
  fb_succeeded :: "alert list"
  fb_rows :: "event_row list"

text \<open>The fallback loop from alert number \<open>i\<close> on; a fatal error ends it.\<close>

fun fallback_loop ::
  "(string \<Rightarrow> time option) \<Rightarrow> (alert_properties \<Rightarrow> string option) \<Rightarrow> (nat \<Rightarrow> row_env) \<Rightarrow> nat \<Rightarrow>
   alert list \<Rightarrow> fallback_state \<Rightarrow> db_err option \<times> fallback_state" where
  "fallback_loop pt ms env i [] st = (None, st)"
| "fallback_loop pt ms env i (a # as) st =
     (case upsert_alert pt ms (env i) a (fb_rows st) of
        (UpsertFailed e, rs') \<Rightarrow>
          if is_fatal_batch_err e then (Some e, st\<lparr>fb_rows := rs'\<rparr>)
          else fallback_loop pt ms env (i + 1) as (st\<lparr>fb_rows := rs'\<rparr>)
      | (SkippedUnparseable, rs') \<Rightarrow>
          fallback_loop pt ms env (i + 1) as (st\<lparr>fb_skipped := fb_skipped st + 1, fb_rows := rs'\<rparr>)
      | (Upserted, rs') \<Rightarrow>
          fallback_loop pt ms env (i + 1) as
            (st\<lparr>fb_count := fb_count st + 1, fb_succeeded := fb_succeeded st @ [a], fb_rows := rs'\<rparr>))"

record batch_env =
  be_tx :: tx_env
  be_ctx_err :: "ctx_err option"         \<comment> \<open>\<open>ctx.Err()\<close> after the failed transaction\<close>
  be_row :: "nat \<Rightarrow> row_env"
  be_retire_err :: "string \<Rightarrow> db_err option"
  be_retire_now :: "string \<Rightarrow> time"
  be_shuffle :: shuffle

record batch_result =
  br_inserted :: nat
  br_skipped :: nat
  br_degraded :: bool
  br_err :: "db_err option"

definition upsert_alerts_batch ::
  "(string \<Rightarrow> time option) \<Rightarrow> (alert_properties \<Rightarrow> string option) \<Rightarrow> batch_env \<Rightarrow> alert list \<Rightarrow>
   event_row list \<Rightarrow> batch_result \<times> event_row list" where
  "upsert_alerts_batch pt ms env alerts rs =
     (if alerts = [] then (\<lparr>br_inserted = 0, br_skipped = 0, br_degraded = False, br_err = None\<rparr>, rs)
      else case upsert_alerts_batch_tx pt ms (be_tx env) alerts rs of
        ((inserted, skipped, None), rs') \<Rightarrow>
          (\<lparr>br_inserted = inserted, br_skipped = skipped, br_degraded = False, br_err = None\<rparr>, rs')
      | ((_, _, Some e), rs') \<Rightarrow>
          if is_fatal_batch_err e
          then (\<lparr>br_inserted = 0, br_skipped = 0, br_degraded = False, br_err = Some e\<rparr>, rs')
          else (case be_ctx_err env of
            Some c \<Rightarrow> (\<lparr>br_inserted = 0, br_skipped = 0, br_degraded = False, br_err = Some (CtxErr c)\<rparr>, rs')
          | None \<Rightarrow>
              (case fallback_loop pt ms (be_row env) 0 alerts
                      \<lparr>fb_count = 0, fb_skipped = 0, fb_succeeded = [], fb_rows = rs'\<rparr> of
                 (Some e, st) \<Rightarrow>
                   (\<lparr>br_inserted = fb_count st, br_skipped = fb_skipped st, br_degraded = True,
                     br_err = Some e\<rparr>, fb_rows st)
               | (None, st) \<Rightarrow>
                   (\<lparr>br_inserted = fb_count st, br_skipped = fb_skipped st, br_degraded = True,
                     br_err = None\<rparr>,
                    snd (retire_referenced (be_shuffle env) (be_retire_err env) (be_retire_now env)
                           (fb_succeeded st) (fb_rows st))))))"

section \<open>Storm reports\<close>

record report_env =
  rt_begin_err :: "db_err option"
  rt_now :: time
  rt_row_err :: "nat \<Rightarrow> db_err option"
  rt_close_err :: "db_err option"
  rt_commit_err :: "db_err option"
  rt_commit_applied :: bool
  rt_ctx_err :: "ctx_err option"
  rt_row :: "nat \<Rightarrow> row_env"

definition upsert_reports :: "time \<Rightarrow> storm_report list \<Rightarrow> report_row list \<Rightarrow> report_row list" where
  "upsert_reports now reports rs = fold (upsert_report now) reports rs"

definition upsert_storm_reports_batch_tx ::
  "report_env \<Rightarrow> storm_report list \<Rightarrow> report_row list \<Rightarrow> (nat \<times> db_err option) \<times> report_row list" where
  "upsert_storm_reports_batch_tx env reports rs =
     (case rt_begin_err env of
        Some e \<Rightarrow> ((0, Some e), rs)
      | None \<Rightarrow>
          (case batch_error (rt_row_err env) (rt_close_err env) (length reports) of
             Some e \<Rightarrow> ((0, Some e), rs)
           | None \<Rightarrow>
               (let rs' = upsert_reports (rt_now env) reports rs
                in case rt_commit_err env of
                     Some e \<Rightarrow> ((0, Some e), if rt_commit_applied env then rs' else rs)
                   | None \<Rightarrow> ((length reports, None), rs'))))"

definition upsert_storm_report ::
  "row_env \<Rightarrow> storm_report \<Rightarrow> report_row list \<Rightarrow> db_err option \<times> report_row list" where
  "upsert_storm_report env r rs =
     (let rs' = upsert_report (re_now env) r rs
      in case re_err env of
           None \<Rightarrow> (None, rs')
         | Some e \<Rightarrow> (Some e, if re_applied env then rs' else rs))"

fun report_fallback_loop ::
  "(nat \<Rightarrow> row_env) \<Rightarrow> nat \<Rightarrow> storm_report list \<Rightarrow> nat \<Rightarrow> report_row list \<Rightarrow>
   (nat \<times> db_err option) \<times> report_row list" where
  "report_fallback_loop env i [] cnt rs = ((cnt, None), rs)"
| "report_fallback_loop env i (r # reports) cnt rs =
     (case upsert_storm_report (env i) r rs of
        (Some e, rs') \<Rightarrow>
          if is_fatal_batch_err e then ((cnt, Some e), rs')
          else report_fallback_loop env (i + 1) reports cnt rs'
      | (None, rs') \<Rightarrow> report_fallback_loop env (i + 1) reports (cnt + 1) rs')"

text \<open>The count, whether the fallback ran, and the error.\<close>

definition upsert_storm_reports_batch ::
  "report_env \<Rightarrow> storm_report list \<Rightarrow> report_row list \<Rightarrow> (nat \<times> bool \<times> db_err option) \<times> report_row list" where
  "upsert_storm_reports_batch env reports rs =
     (if reports = [] then ((0, False, None), rs)
      else case upsert_storm_reports_batch_tx env reports rs of
        ((inserted, None), rs') \<Rightarrow> ((inserted, False, None), rs')
      | ((_, Some e), rs') \<Rightarrow>
          if is_fatal_batch_err e then ((0, False, Some e), rs')
          else (case rt_ctx_err env of
            Some c \<Rightarrow> ((0, False, Some (CtxErr c)), rs')
          | None \<Rightarrow>
              (case report_fallback_loop (rt_row env) 0 reports 0 rs' of
                 ((cnt, err), rs'') \<Rightarrow> ((cnt, True, err), rs''))))"

section \<open>Reading and purging\<close>

text \<open>
  How reading the cursor can fail: it does not open, a row does not scan, or the cursor ends with
  an error after some rows.
\<close>

datatype query_fault = QueryFails string | ScanFails nat string | CursorFails nat string | NoFault

datatype read_err = QueryErr string | ScanErr string | ReadErr string

text \<open>
  What the scan depends on: \<open>json.Unmarshal\<close> of the properties column into parameters and geocode
  (with what it filled in before an error, and whether there was one), the text PostGIS gives for a
  stored geometry, and the parameters of the motion parser.
\<close>

record read_env =
  rd_fault :: query_fault
  rd_now :: time
  rd_scan :: "event_row list \<Rightarrow> event_row list"
  rd_unmarshal :: "string \<Rightarrow> (params \<times> alert_geocode) \<times> bool"
  rd_geojson :: "string \<Rightarrow> string"
  rd_float :: "rat \<Rightarrow> rat option"
  rd_parse_time :: "string \<Rightarrow> time option"
  rd_clock :: "string \<Rightarrow> time"           \<comment> \<open>the clock when the motion of a row is read\<close>

definition active_alert_of :: "read_env \<Rightarrow> event_row \<Rightarrow> active_alert" where
  "active_alert_of env r =
     (let (parameters, geocode) =
            (if er_properties r \<noteq> '''' then fst (rd_unmarshal env (er_properties r))
             else (Map.empty, \<lparr>SAME = [], UGC = []\<rparr>));
          motion = (case parse_event_motion (rd_float env) (rd_parse_time env)
                           (rd_clock env (er_nws_id r)) parameters of
                      Inl _ \<Rightarrow> None | Inr m \<Rightarrow> m);
          (states, usedFallback) = derive_states (SAME geocode) (er_area_desc r);
          detection = (case detect_tornado parameters (er_description r) of
                         Inl _ \<Rightarrow> None | Inr d \<Rightarrow> d);
          (event, act) = (case parse_vtec parameters of
                            Inr (Some v) \<Rightarrow> (event_id v, Action v) | _ \<Rightarrow> ('''', ''''))
      in \<lparr>NWSID = er_nws_id r, EventType = er_event_type r, aa_Severity = er_severity r,
          aa_Headline = er_headline r, aa_Description = er_description r,
          aa_AreaDesc = er_area_desc r, aa_States = states,
          aa_Geometry = map_option (rd_geojson env) (er_geometry r),
          EffectiveAt = er_effective_at r, ExpiresAt = er_expires_at r, StormMotion = motion,
          WarningTags = parse_warning_tags (er_description r), Tornado = detection,
          VTECEventID = event, VTECAction = act, eventID = event\<rparr>)"

text \<open>The rows the loop gets through, and the error that ends it.\<close>

fun read_rows :: "query_fault \<Rightarrow> event_row list \<Rightarrow> event_row list \<times> read_err option" where
  "read_rows (QueryFails e) rs = ([], Some (QueryErr e))"
| "read_rows (ScanFails n e) rs = (take n rs, Some (ScanErr e))"
| "read_rows (CursorFails n e) rs = (take n rs, Some (ReadErr e))"
| "read_rows NoFault rs = (rs, None)"

definition get_active_alerts :: "read_env \<Rightarrow> event_row list \<Rightarrow> read_err + active_alert list" where
  "get_active_alerts env rs =
     (let (read, err) = read_rows (rd_fault env) (active_rows (rd_scan env) (rd_now env) rs);
          alerts = map (active_alert_of env) read
      in case err of Some e \<Rightarrow> Inl e | None \<Rightarrow> Inr (collapse_by_event alerts))"

definition store_purge_expired ::
  "db_err option \<Rightarrow> time \<Rightarrow> event_row list \<Rightarrow> (nat \<times> db_err option) \<times> event_row list" where
  "store_purge_expired fault now rs =
     (case fault of
        Some e \<Rightarrow> ((0, Some e), rs)
      | None \<Rightarrow> ((purge_affected now rs, None), purge_expired now rs))"

section \<open>Supersession as a map over the rows\<close>

definition refers :: "alert \<Rightarrow> string \<Rightarrow> string \<Rightarrow> bool" where
  "refers a et i \<longleftrightarrow>
     i \<noteq> '''' \<and> Event (Properties a) = et \<and> i \<in> Identifier ` set (References (Properties a))"

definition listed :: "(string \<times> string list) list \<Rightarrow> string \<Rightarrow> string \<Rightarrow> bool" where
  "listed m et i \<longleftrightarrow> (\<exists>ids. (et, ids) \<in> set m \<and> i \<in> set ids)"

lemma listed_Nil [simp]: "\<not> listed [] et i"
  by (simp add: listed_def)

lemma listed_Cons: "listed ((k, ids) # m) et i \<longleftrightarrow> k = et \<and> i \<in> set ids \<or> listed m et i"
  by (auto simp: listed_def)

lemma listed_append_ref: "listed (append_ref k j m) et i \<longleftrightarrow> k = et \<and> j = i \<or> listed m et i"
  by (induction k j m rule: append_ref.induct) (auto simp: listed_Cons)

lemma listed_refs_loop:
  "listed (refs_loop k rs out) et i \<longleftrightarrow> k = et \<and> i \<noteq> '''' \<and> i \<in> Identifier ` set rs \<or> listed out et i"
  by (induction k rs out rule: refs_loop.induct) (auto simp: listed_append_ref)

lemma listed_references: "listed (references_by_event_type alerts) et i \<longleftrightarrow> (\<exists>a \<in> set alerts. refers a et i)"
proof -
  have "listed (fold (\<lambda>a out. refs_loop (Event (Properties a)) (References (Properties a)) out) alerts m) et i \<longleftrightarrow>
      (\<exists>a \<in> set alerts. refers a et i) \<or> listed m et i" for m
    by (induction alerts arbitrary: m) (auto simp: listed_refs_loop refers_def)
  from this [of "[]"] show ?thesis by (simp add: references_by_event_type_def)
qed

text \<open>The effect on one row of the statements for the entries of \<open>m\<close>.\<close>

definition retire_row :: "(string \<Rightarrow> time) \<Rightarrow> (string \<Rightarrow> string \<Rightarrow> bool) \<Rightarrow> event_row \<Rightarrow> event_row" where
  "retire_row now superseded r =
     (if er_retired_at r = None \<and> superseded (er_event_type r) (er_nws_id r)
      then r\<lparr>er_retired_at := Some (now (er_event_type r))\<rparr> else r)"

lemma retire_row_fields [simp]:
  "er_nws_id (retire_row now p r) = er_nws_id r"
  "er_event_type (retire_row now p r) = er_event_type r"
  "er_expires_at (retire_row now p r) = er_expires_at r"
  "er_effective_at (retire_row now p r) = er_effective_at r"
  by (simp_all add: retire_row_def)

lemma retire_row_none [simp]:
  "map (retire_row now (\<lambda>_ _. False)) rs = rs" "map (retire_row now (listed [])) rs = rs"
  by (rule map_idI, simp add: retire_row_def)+

lemma retire_row_cons:
  "map (retire_row now (listed m)) (retire_by_reference (now et) ids et rs) =
     map (retire_row now (listed ((et, ids) # m))) rs"
proof -
  have "retire_row now (listed m) (if retire_match ids et r then r\<lparr>er_retired_at := Some (now et)\<rparr> else r) =
      retire_row now (listed ((et, ids) # m)) r" for r
    by (cases "retire_match ids et r") (auto simp: retire_row_def retire_match_def listed_Cons)
  then show ?thesis by (simp add: retire_by_reference_def)
qed

lemma retire_loop_rows:
  "retire_loop err now acc m rs = ((n, None), rs') \<Longrightarrow> rs' = map (retire_row now (listed m)) rs"
proof (induction err now acc m rs rule: retire_loop.induct)
  case (2 err now acc et ids m rs)
  then show ?case by (simp add: retire_row_cons split: option.splits)
qed simp

lemma retire_loop_partial:
  "\<exists>m'. set m' \<subseteq> set m \<and> snd (retire_loop err now acc m rs) = map (retire_row now (listed m')) rs"
proof (induction err now acc m rs rule: retire_loop.induct)
  case (1 err now acc rs)
  then show ?case by (intro exI [of _ "[]"]) simp
next
  case (2 err now acc et ids m rs)
  show ?case
  proof (cases "err et")
    case None
    with 2 obtain m' where "set m' \<subseteq> set m" "snd (retire_loop err now acc ((et, ids) # m) rs) =
        map (retire_row now (listed m')) (retire_by_reference (now et) ids et rs)" by auto
    then show ?thesis by (intro exI [of _ "(et, ids) # m'"]) (auto simp: retire_row_cons)
  next
    case (Some e)
    then show ?thesis by (intro exI [of _ "[]"]) simp
  qed
qed

definition shuffle_ok :: "shuffle \<Rightarrow> bool" where
  "shuffle_ok shuffle \<longleftrightarrow> (\<forall>m. mset (shuffle m) = mset m)"

lemma shuffle_set: "shuffle_ok shuffle \<Longrightarrow> set (shuffle m) = set m"
  unfolding shuffle_ok_def by (metis mset_eq_setD)

lemma listed_cong: "set m = set m' \<Longrightarrow> listed m = listed m'"
  by (auto simp: listed_def fun_eq_iff)

lemma retire_referenced_rows:
  assumes "shuffle_ok shuffle" and "retire_referenced shuffle err now alerts rs = ((n, None), rs')"
  shows "rs' = map (retire_row now (\<lambda>et i. \<exists>a \<in> set alerts. refers a et i)) rs"
proof -
  have "rs' = map (retire_row now (listed (shuffle (references_by_event_type alerts)))) rs"
    using assms(2) by (auto simp: retire_referenced_def dest: retire_loop_rows)
  also have "listed (shuffle (references_by_event_type alerts)) = listed (references_by_event_type alerts)"
    by (rule listed_cong) (rule shuffle_set [OF assms(1)])
  also have "\<dots> = (\<lambda>et i. \<exists>a \<in> set alerts. refers a et i)"
    by (simp add: fun_eq_iff listed_references)
  finally show ?thesis .
qed

text \<open>
  Supersession retires, whatever the order in which the map of event types is visited, exactly
  the live rows that an alert of the row's own event type references by a non-empty identifier, and
  changes nothing else of any row.
\<close>

theorem retire_referenced_exact:
  assumes "shuffle_ok shuffle" and "retire_referenced shuffle err now alerts rs = ((n, None), rs')"
  shows "rs' = map (retire_row now (\<lambda>et i. \<exists>a \<in> set alerts. refers a et i)) rs"
  using assms by (rule retire_referenced_rows)

text \<open>Two predecessors, one of another event type, and an alert that references both.\<close>

definition sample_event_row :: "string \<Rightarrow> string \<Rightarrow> time \<Rightarrow> event_row" where
  "sample_event_row i et expires =
     \<lparr>er_nws_id = i, er_event_type = et, er_severity = ''Severe'', er_headline = '''',
      er_description = '''', er_instruction = '''', er_area_desc = ''Cleveland, OK'',
      er_sender_name = '''', er_geometry = None, er_properties = '''', er_effective_at = 10,
      er_expires_at = expires, er_ingested_at = 5, er_updated_at = 5, er_retired_at = None\<rparr>"

definition sample_superseding :: alert where
  "sample_superseding =
     \<lparr>alert_ID = ''n3'', alert_Type = ''Feature'',
      Properties = blank_properties\<lparr>ID := ''n3'', Event := ''Tornado Warning'', Expires := ''200'',
        References := [\<lparr>ref_ID = '''', Identifier = ''n1'', Sender = '''', Sent = ''''\<rparr>,
                       \<lparr>ref_ID = '''', Identifier = ''n2'', Sender = '''', Sent = ''''\<rparr>]\<rparr>,
      Geometry = ''null''\<rparr>"

definition sample_table :: "event_row list" where
  "sample_table = [sample_event_row ''n1'' ''Tornado Warning'' 150, sample_event_row ''n2'' ''Flood Watch'' 150]"

theorem retire_referenced_exact_witness:
  "map er_retired_at (snd (retire_referenced rev (\<lambda>_. None) (\<lambda>_. 99) [sample_superseding] sample_table)) =
     [Some 99, None]"
proof -
  have "shuffle_ok rev" by (simp add: shuffle_ok_def)
  moreover obtain n rs' where r: "retire_referenced rev (\<lambda>_. None) (\<lambda>_. 99) [sample_superseding] sample_table = ((n, None), rs')"
    by (simp add: retire_referenced_def references_by_event_type_def sample_superseding_def)
  ultimately have "rs' = map (retire_row (\<lambda>_. 99) (\<lambda>et i. \<exists>a \<in> set [sample_superseding]. refers a et i)) sample_table"
    by (rule retire_referenced_exact)
  then show ?thesis
    unfolding r by (simp add: sample_table_def sample_event_row_def retire_row_def refers_def sample_superseding_def)
qed

section \<open>What a batch can do to the table\<close>

text \<open>
  Every outcome of a batch, faults included, is reached by steps of two kinds: the upsert of an
  alert of the batch, and the retirement of rows that alerts of the batch reference, once those
  alerts are in the table themselves.
\<close>

definition landed :: "(string \<Rightarrow> time option) \<Rightarrow> alert \<Rightarrow> event_row list \<Rightarrow> bool" where
  "landed pt a rs \<longleftrightarrow> pt (Expires (Properties a)) \<noteq> None \<and> event_row_at rs (ID (Properties a)) \<noteq> None"

inductive batch_reach ::
  "(string \<Rightarrow> time option) \<Rightarrow> (alert_properties \<Rightarrow> string option) \<Rightarrow> alert list \<Rightarrow>
   event_row list \<Rightarrow> event_row list \<Rightarrow> bool"
  for pt ms alerts rs where
  start: "batch_reach pt ms alerts rs rs"
| upsert: "batch_reach pt ms alerts rs rs1 \<Longrightarrow> a \<in> set alerts \<Longrightarrow>
    alert_upsert_args pt ms a t = Args args \<Longrightarrow> batch_reach pt ms alerts rs (upsert_event now args rs1)"
| retire: "batch_reach pt ms alerts rs rs1 \<Longrightarrow>
    (\<And>et i. p et i \<Longrightarrow> \<exists>a \<in> set alerts. refers a et i \<and> landed pt a rs1) \<Longrightarrow>
    batch_reach pt ms alerts rs (map (retire_row clock p) rs1)"

lemma upsert_args_id: "alert_upsert_args pt ms a t = Args args \<Longrightarrow> arg_id args = ID (Properties a)"
  by (auto simp: alert_upsert_args_def Let_def split: option.splits)

lemma upsert_args_expires:
  "alert_upsert_args pt ms a t = Args args \<Longrightarrow> pt (Expires (Properties a)) = Some (arg_expires_at args)"
  by (auto simp: alert_upsert_args_def parse_alert_times_def Let_def split: option.splits)

lemma upsert_args_skip: "alert_upsert_args pt ms a t = SkipRow \<longleftrightarrow> pt (Expires (Properties a)) = None"
  by (auto simp: alert_upsert_args_def parse_alert_times_def Let_def split: option.splits)

lemma upsert_lands:
  "alert_upsert_args pt ms a t = Args args \<Longrightarrow> landed pt a (upsert_event now args rs)"
  by (simp add: landed_def upsert_event_at upsert_args_id upsert_args_expires)

lemma landed_upsert: "landed pt a rs \<Longrightarrow> landed pt a (upsert_event now args rs)"
  by (simp add: landed_def upsert_event_at)

lemma upsert_events_Cons:
  "upsert_events now (x # xs) rs = upsert_events now xs (upsert_event now x rs)"
  "upsert_events now [] rs = rs"
  by (simp_all add: upsert_events_def)

lemma reach_upsert_events:
  assumes "batch_reach pt ms alerts rs rs1"
    and "\<forall>(a, args) \<in> set queued. a \<in> set alerts \<and> alert_upsert_args pt ms a t = Args args"
  shows "batch_reach pt ms alerts rs (upsert_events now (map snd queued) rs1) \<and>
    (\<forall>a. a \<in> fst ` set queued \<or> landed pt a rs1 \<longrightarrow> landed pt a (upsert_events now (map snd queued) rs1))"
  using assms
proof (induction queued arbitrary: rs1)
  case Nil
  then show ?case by (simp add: upsert_events_Cons)
next
  case (Cons q queued)
  obtain a args where q: "q = (a, args)" by (cases q)
  with Cons.prems have a: "a \<in> set alerts" "alert_upsert_args pt ms a t = Args args" by auto
  have "batch_reach pt ms alerts rs (upsert_event now args rs1)"
    by (rule batch_reach.upsert [OF Cons.prems(1) a])
  moreover have "\<forall>(a, args) \<in> set queued. a \<in> set alerts \<and> alert_upsert_args pt ms a t = Args args"
    using Cons.prems(2) by simp
  ultimately show ?case
    using Cons.IH [of "upsert_event now args rs1"] upsert_lands [OF a(2)] landed_upsert
    by (fastforce simp: q upsert_events_Cons)
qed

definition parseable :: "(string \<Rightarrow> time option) \<Rightarrow> alert \<Rightarrow> bool" where
  "parseable pt a \<longleftrightarrow> pt (Expires (Properties a)) \<noteq> None"

lemma queue_loop_spec:
  assumes "queue_loop pt ms t alerts queued skipped = Inr (queued', skipped')"
  shows "\<exists>new. queued' = queued @ new \<and> set (map fst new) \<subseteq> set alerts \<and>
    (\<forall>(a, args) \<in> set new. alert_upsert_args pt ms a t = Args args) \<and>
    map fst new = filter (parseable pt) alerts \<and>
    skipped' = skipped + length (filter (\<lambda>a. \<not> parseable pt a) alerts)"
  using assms
proof (induction alerts arbitrary: queued skipped)
  case Nil
  then show ?case by simp
next
  case (Cons a alerts)
  show ?case
  proof (cases "alert_upsert_args pt ms a t")
    case (Args args)
    then have "parseable pt a" by (simp add: parseable_def upsert_args_expires)
    moreover from Cons.prems Args Cons.IH [of "queued @ [(a, args)]" skipped] obtain new where
      "queued' = queued @ (a, args) # new" "set (map fst new) \<subseteq> set alerts"
      "\<forall>(a, args) \<in> set new. alert_upsert_args pt ms a t = Args args"
      "map fst new = filter (parseable pt) alerts"
      "skipped' = skipped + length (filter (\<lambda>a. \<not> parseable pt a) alerts)" by auto
    ultimately show ?thesis using Args by (intro exI [of _ "(a, args) # new"]) auto
  next
    case SkipRow
    then have "\<not> parseable pt a" by (simp add: parseable_def upsert_args_skip)
    with Cons.prems SkipRow Cons.IH [of queued "skipped + 1"] show ?thesis by auto
  next
    case (ArgsErr e)
    with Cons.prems show ?thesis by simp
  qed
qed

lemma landed_retire: "landed pt a (map (retire_row now p) rs) \<longleftrightarrow> landed pt a rs"
  by (simp add: landed_def event_row_at_map)

lemma reach_retire_referenced:
  assumes "batch_reach pt ms alerts rs rs1" and "shuffle_ok sh"
    and "\<forall>a \<in> set done. a \<in> set alerts \<and> landed pt a rs1"
  shows "batch_reach pt ms alerts rs (snd (retire_referenced sh err now done rs1))"
proof -
  obtain m' where m': "set m' \<subseteq> set (sh (references_by_event_type done))"
    "snd (retire_referenced sh err now done rs1) = map (retire_row now (listed m')) rs1"
    using retire_loop_partial [of "sh (references_by_event_type done)" err now 0 rs1]
    unfolding retire_referenced_def by blast
  have "\<exists>a \<in> set alerts. refers a et i \<and> landed pt a rs1" if "listed m' et i" for et i
  proof -
    from that m'(1) have "listed (references_by_event_type done) et i"
      by (auto simp: listed_def shuffle_set [OF assms(2)])
    with assms(3) show ?thesis by (auto simp: listed_references)
  qed
  then show ?thesis unfolding m'(2) by (rule batch_reach.retire [OF assms(1)])
qed

text \<open>The transaction: rolled back, or everything at once.\<close>

text \<open>The transaction is rolled back, or it reaches its commit with the table \<open>rs2\<close>.\<close>

lemma batch_tx_stages:
  assumes "upsert_alerts_batch_tx pt ms env alerts rs = ((n, s, err), rs')"
  obtains (early) e where "err = Some e" "rs' = rs"
  | (commits) queued skipped rs2 where
      "queue_loop pt ms (tx_received_at env) alerts [] 0 = Inr (queued, skipped)"
      "queued = [] \<and> rs2 = rs \<or> (\<exists>k. retire_referenced (tx_shuffle env) (tx_retire_err env) (\<lambda>_. tx_now env)
         (map fst queued) (upsert_events (tx_now env) (map snd queued) rs) = ((k, None), rs2))"
      "commit env rs rs2 = (err, rs')" "err = None \<Longrightarrow> n = length queued \<and> s = skipped"
proof (cases "tx_begin_err env = None \<and> (\<exists>qs. queue_loop pt ms (tx_received_at env) alerts [] 0 = Inr qs)")
  case False
  with assms show ?thesis
    by (cases err) (auto simp: upsert_alerts_batch_tx_def intro: early split: option.splits sum.splits)
next
  case True
  then obtain queued skipped where q: "tx_begin_err env = None"
    "queue_loop pt ms (tx_received_at env) alerts [] 0 = Inr (queued, skipped)" by auto
  let ?ret = "retire_referenced (tx_shuffle env) (tx_retire_err env) (\<lambda>_. tx_now env)
    (map fst queued) (upsert_events (tx_now env) (map snd queued) rs)"
  obtain k re rs2 where ret: "?ret = ((k, re), rs2)" by (metis surj_pair)
  consider (empty) "queued = []"
    | (failed) "queued \<noteq> []" "batch_error (tx_row_err env) (tx_close_err env) (length queued) \<noteq> None \<or> re \<noteq> None"
    | (retired) "queued \<noteq> []" "batch_error (tx_row_err env) (tx_close_err env) (length queued) = None" "re = None"
    by fastforce
  then show ?thesis
  proof cases
    case empty
    show ?thesis
      by (rule commits [OF q(2), of rs]) (use assms q empty in \<open>auto simp: upsert_alerts_batch_tx_def split: prod.splits option.splits\<close>)
  next
    case failed
    with assms q ret show ?thesis
      by (cases err) (auto simp: upsert_alerts_batch_tx_def Let_def intro: early split: option.splits)
  next
    case retired
    show ?thesis
      by (rule commits [OF q(2), of rs2])
        (use assms q retired ret in \<open>auto simp: upsert_alerts_batch_tx_def Let_def split: prod.splits option.splits\<close>)
  qed
qed

lemma batch_tx_rows:
  assumes "queue_loop pt ms (tx_received_at env) alerts [] 0 = Inr (queued, skipped)" and "shuffle_ok (tx_shuffle env)"
    and "queued = [] \<and> rs2 = rs \<or> (\<exists>k. retire_referenced (tx_shuffle env) (tx_retire_err env) (\<lambda>_. tx_now env)
         (map fst queued) (upsert_events (tx_now env) (map snd queued) rs) = ((k, None), rs2))"
  shows "rs2 = map (retire_row (\<lambda>_. tx_now env) (\<lambda>et i. \<exists>a \<in> set (filter (parseable pt) alerts). refers a et i))
      (upsert_events (tx_now env) (map snd queued) rs) \<and> batch_reach pt ms alerts rs rs2"
proof -
  let ?rs1 = "upsert_events (tx_now env) (map snd queued) rs"
  from queue_loop_spec [OF assms(1)] have q: "map fst queued = filter (parseable pt) alerts"
    "\<forall>(a, args) \<in> set queued. a \<in> set alerts \<and> alert_upsert_args pt ms a (tx_received_at env) = Args args" by auto
  from reach_upsert_events [OF batch_reach.start q(2), of rs "tx_now env"]
  have reach1: "batch_reach pt ms alerts rs ?rs1" and land1: "\<forall>a \<in> fst ` set queued. landed pt a ?rs1" by blast+
  from assms(3) show ?thesis
  proof (elim disjE exE conjE)
    assume "queued = []" "rs2 = rs"
    with q(1) show ?thesis by (simp add: upsert_events_Cons batch_reach.start flip: q(1))
  next
    fix k
    assume ret: "retire_referenced (tx_shuffle env) (tx_retire_err env) (\<lambda>_. tx_now env) (map fst queued) ?rs1 =
      ((k, None), rs2)"
    have "\<forall>a \<in> set (map fst queued). a \<in> set alerts \<and> landed pt a ?rs1" using q(2) land1 by auto
    from reach_retire_referenced [OF reach1 assms(2) this, of "tx_retire_err env" "\<lambda>_. tx_now env"]
    have "batch_reach pt ms alerts rs rs2" by (simp only: ret snd_conv)
    with retire_referenced_rows [OF assms(2) ret] q(1) show ?thesis by simp
  qed
qed

lemma batch_tx_cases:
  assumes "upsert_alerts_batch_tx pt ms env alerts rs = ((n, s, err), rs')" and "shuffle_ok (tx_shuffle env)"
  obtains (rolled_back) e where "err = Some e" "rs' = rs"
  | (unconfirmed) e where "err = Some e" "tx_commit_applied env" "batch_reach pt ms alerts rs rs'"
  | (committed) queued where "err = None" "n = length (filter (parseable pt) alerts)"
      "s = length (filter (\<lambda>a. \<not> parseable pt a) alerts)"
      "map fst queued = filter (parseable pt) alerts"
      "\<forall>(a, args) \<in> set queued. alert_upsert_args pt ms a (tx_received_at env) = Args args"
      "rs' = map (retire_row (\<lambda>_. tx_now env) (\<lambda>et i. \<exists>a \<in> set (filter (parseable pt) alerts). refers a et i))
               (upsert_events (tx_now env) (map snd queued) rs)"
      "batch_reach pt ms alerts rs rs'"
  using assms(1)
proof (cases rule: batch_tx_stages)
  case (early e)
  then show ?thesis by (rule rolled_back)
next
  case (commits queued skipped rs2)
  note rows = batch_tx_rows [OF commits(1) assms(2) commits(2)]
  from queue_loop_spec [OF commits(1)] have q: "map fst queued = filter (parseable pt) alerts"
    "\<forall>(a, args) \<in> set queued. alert_upsert_args pt ms a (tx_received_at env) = Args args"
    "skipped = length (filter (\<lambda>a. \<not> parseable pt a) alerts)" by auto
  show ?thesis
  proof (cases err)
    case None
    then have "rs' = rs2" "length queued = length (filter (parseable pt) alerts)"
      using commits(3) q(1) by (auto simp: commit_def split: option.splits) (metis length_map)
    with None rows commits(4) q show ?thesis by (intro committed [of queued]) auto
  next
    case (Some e)
    with commits(3) rows show ?thesis
      by (cases "tx_commit_applied env") (auto simp: commit_def split: option.splits intro: rolled_back unconfirmed)
  qed
qed

lemma upsert_alert_cases:
  assumes "upsert_alert pt ms env a rs = (out, rs')"
  obtains (same) "rs' = rs" "out \<noteq> Upserted" "out = SkippedUnparseable \<longleftrightarrow> \<not> parseable pt a"
  | (wrote) args where "alert_upsert_args pt ms a (re_received_at env) = Args args"
      "rs' = upsert_event (re_now env) args rs" "out \<noteq> SkippedUnparseable"
proof (cases "alert_upsert_args pt ms a (re_received_at env)")
  case (Args args)
  then have "parseable pt a" by (simp add: parseable_def upsert_args_expires)
  with assms Args show ?thesis
    by (cases "re_err env"; cases "re_applied env") (auto simp: upsert_alert_def Let_def intro: same wrote)
next
  case SkipRow
  then have "\<not> parseable pt a" by (simp add: parseable_def upsert_args_skip)
  with assms SkipRow show ?thesis by (auto simp: upsert_alert_def intro: same)
next
  case (ArgsErr e)
  then have "parseable pt a" by (metis parseable_def upsert_args.distinct(5) upsert_args_skip)
  with assms ArgsErr show ?thesis by (auto simp: upsert_alert_def intro: same)
qed

definition fallback_inv ::
  "(string \<Rightarrow> time option) \<Rightarrow> (alert_properties \<Rightarrow> string option) \<Rightarrow> alert list \<Rightarrow> event_row list \<Rightarrow>
   fallback_state \<Rightarrow> bool" where
  "fallback_inv pt ms alerts rs st \<longleftrightarrow>
     batch_reach pt ms alerts rs (fb_rows st) \<and>
     (\<forall>a \<in> set (fb_succeeded st). a \<in> set alerts \<and> landed pt a (fb_rows st)) \<and>
     fb_count st = length (fb_succeeded st)"

lemma fallback_step:
  assumes inv: "fallback_inv pt ms alerts rs st" and a: "a \<in> set alerts"
    and u: "upsert_alert pt ms env a (fb_rows st) = (out, rs')"
  shows "fallback_inv pt ms alerts rs (st\<lparr>fb_rows := rs'\<rparr>)"
    and "out = Upserted \<Longrightarrow> landed pt a rs'"
proof -
  show "fallback_inv pt ms alerts rs (st\<lparr>fb_rows := rs'\<rparr>)"
    using u
  proof (cases rule: upsert_alert_cases)
    case same
    with inv show ?thesis by (simp add: fallback_inv_def)
  next
    case (wrote args)
    with inv a show ?thesis
      by (auto simp: fallback_inv_def intro: batch_reach.upsert landed_upsert)
  qed
  show "out = Upserted \<Longrightarrow> landed pt a rs'"
    using u by (cases rule: upsert_alert_cases) (auto intro: upsert_lands)
qed

lemma fallback_loop_inv:
  assumes "fallback_inv pt ms alerts rs st" and "set as \<subseteq> set alerts"
    and "fallback_loop pt ms env i as st = (err, st')"
  shows "fallback_inv pt ms alerts rs st' \<and>
    fb_count st' + fb_skipped st' \<le> fb_count st + fb_skipped st + length as \<and>
    (err = None \<longrightarrow> fb_skipped st' = fb_skipped st + length (filter (\<lambda>a. \<not> parseable pt a) as)) \<and>
    (\<forall>e. err = Some e \<longrightarrow> is_fatal_batch_err e)"
  using assms
proof (induction as arbitrary: i st)
  case Nil
  then show ?case by simp
next
  case (Cons a as)
  obtain out rs' where u: "upsert_alert pt ms (env i) a (fb_rows st) = (out, rs')" by fastforce
  have a: "a \<in> set alerts" and as: "set as \<subseteq> set alerts" using Cons.prems(2) by auto
  note inv' = fallback_step(1) [OF Cons.prems(1) a u]
  show ?case
  proof (cases out)
    case Upserted
    then have "parseable pt a" using fallback_step(2) [OF Cons.prems(1) a u] by (simp add: landed_def parseable_def)
    moreover have "fallback_inv pt ms alerts rs
        (st\<lparr>fb_count := fb_count st + 1, fb_succeeded := fb_succeeded st @ [a], fb_rows := rs'\<rparr>)"
      using inv' fallback_step(2) [OF Cons.prems(1) a u Upserted] a by (auto simp: fallback_inv_def)
    ultimately show ?thesis
      using Cons.IH [OF _ as] Cons.prems(3) u Upserted by fastforce
  next
    case SkippedUnparseable
    have "\<not> parseable pt a" using u SkippedUnparseable by (cases rule: upsert_alert_cases) auto
    moreover have "fallback_inv pt ms alerts rs (st\<lparr>fb_skipped := fb_skipped st + 1, fb_rows := rs'\<rparr>)"
      using inv' by (simp add: fallback_inv_def)
    ultimately show ?thesis
      using Cons.IH [OF _ as] Cons.prems(3) u SkippedUnparseable by fastforce
  next
    case (UpsertFailed e)
    have "parseable pt a"
      using u UpsertFailed by (cases rule: upsert_alert_cases) (auto simp: parseable_def upsert_args_expires)
    then show ?thesis
      using Cons.IH [OF inv' as] Cons.prems(3) u UpsertFailed inv' by (fastforce split: if_splits)
  qed
qed

definition env_ok :: "batch_env \<Rightarrow> bool" where
  "env_ok env \<longleftrightarrow> shuffle_ok (tx_shuffle (be_tx env)) \<and> shuffle_ok (be_shuffle env)"

text \<open>The fallback starts where the failed transaction left the table, and ends as its loop does.\<close>

lemma fallback_after_tx:
  assumes "upsert_alerts_batch_tx pt ms (be_tx env) alerts rs = ((n, s, Some e), rs1)" and "env_ok env"
    and "fallback_loop pt ms (be_row env) 0 alerts \<lparr>fb_count = 0, fb_skipped = 0, fb_succeeded = [], fb_rows = rs1\<rparr> = (fe, st)"
  shows "fallback_inv pt ms alerts rs st" and "fb_count st + fb_skipped st \<le> length alerts"
    and "fe = None \<Longrightarrow> fb_skipped st = length (filter (\<lambda>a. \<not> parseable pt a) alerts)"
    and "fe = Some e' \<Longrightarrow> is_fatal_batch_err e'"
    and "batch_reach pt ms alerts rs (snd (retire_referenced (be_shuffle env) (be_retire_err env)
      (be_retire_now env) (fb_succeeded st) (fb_rows st)))"
proof -
  have "batch_reach pt ms alerts rs rs1"
    using assms(1,2) by (elim batch_tx_cases) (auto simp: env_ok_def intro: batch_reach.start)
  then have "fallback_inv pt ms alerts rs \<lparr>fb_count = 0, fb_skipped = 0, fb_succeeded = [], fb_rows = rs1\<rparr>"
    by (simp add: fallback_inv_def)
  note inv = fallback_loop_inv [OF this subset_refl assms(3)]
  then show "fallback_inv pt ms alerts rs st" "fb_count st + fb_skipped st \<le> length alerts"
    "fe = None \<Longrightarrow> fb_skipped st = length (filter (\<lambda>a. \<not> parseable pt a) alerts)"
    "fe = Some e' \<Longrightarrow> is_fatal_batch_err e'" by auto
  from inv assms(2) show "batch_reach pt ms alerts rs (snd (retire_referenced (be_shuffle env) (be_retire_err env)
      (be_retire_now env) (fb_succeeded st) (fb_rows st)))"
    by (intro reach_retire_referenced) (auto simp: fallback_inv_def env_ok_def)
qed

lemma upsert_alerts_batch_cases:
  assumes "upsert_alerts_batch pt ms env alerts rs = (res, rs')" and "env_ok env"
  obtains (empty) "alerts = []" "rs' = rs" "res = \<lparr>br_inserted = 0, br_skipped = 0, br_degraded = False, br_err = None\<rparr>"
  | (clean) n s where "upsert_alerts_batch_tx pt ms (be_tx env) alerts rs = ((n, s, None), rs')"
      "res = \<lparr>br_inserted = n, br_skipped = s, br_degraded = False, br_err = None\<rparr>"
  | (given_up) n s e c where "upsert_alerts_batch_tx pt ms (be_tx env) alerts rs = ((n, s, Some e), rs')"
      "res = \<lparr>br_inserted = 0, br_skipped = 0, br_degraded = False, br_err = Some (CtxErr c)\<rparr>"
  | (interrupted) st e rs0 where "fallback_inv pt ms alerts rs st" "is_fatal_batch_err e" "rs' = fb_rows st"
      "res = \<lparr>br_inserted = fb_count st, br_skipped = fb_skipped st, br_degraded = True, br_err = Some e\<rparr>"
      "fb_count st + fb_skipped st \<le> length alerts"
  | (fallback) st rs0 where "fallback_inv pt ms alerts rs st" "batch_reach pt ms alerts rs rs'"
      "rs' = snd (retire_referenced (be_shuffle env) (be_retire_err env) (be_retire_now env) (fb_succeeded st) (fb_rows st))"
      "res = \<lparr>br_inserted = fb_count st, br_skipped = fb_skipped st, br_degraded = True, br_err = None\<rparr>"
      "fb_count st + fb_skipped st \<le> length alerts"
      "fb_skipped st = length (filter (\<lambda>a. \<not> parseable pt a) alerts)"
proof (cases "alerts = []")
  case True
  with assms(1) show ?thesis by (intro empty) (auto simp: upsert_alerts_batch_def)
next
  case nonempty: False
  obtain n s err rs1 where tx: "upsert_alerts_batch_tx pt ms (be_tx env) alerts rs = ((n, s, err), rs1)"
    by (metis surj_pair)
  show ?thesis
  proof (cases err)
    case None
    with assms(1) nonempty tx show ?thesis by (intro clean) (auto simp: upsert_alerts_batch_def)
  next
    case (Some e)
    show ?thesis
    proof (cases "is_fatal_batch_err e \<or> be_ctx_err env \<noteq> None")
      case True
      then show ?thesis
        using assms(1) nonempty tx Some
        by (auto simp: upsert_alerts_batch_def is_fatal_batch_err_def intro: given_up split: db_err.splits)
    next
      case False
      let ?st0 = "\<lparr>fb_count = 0, fb_skipped = 0, fb_succeeded = [], fb_rows = rs1\<rparr>"
      obtain fe st where fb: "fallback_loop pt ms (be_row env) 0 alerts ?st0 = (fe, st)" by fastforce
      note after = fallback_after_tx [OF tx [unfolded Some] assms(2) fb]
      show ?thesis
      proof (cases fe)
        case None
        with assms(1) nonempty tx \<open>err = Some e\<close> False fb after(1-3,5) show ?thesis
          by (intro fallback [of st]) (auto simp: upsert_alerts_batch_def)
      next
        case (Some e')
        with assms(1) nonempty tx \<open>err = Some e\<close> False fb after(1,2) after(4) [of e'] show ?thesis
          by (intro interrupted [of st e']) (auto simp: upsert_alerts_batch_def)
      qed
    qed
  qed
qed

section \<open>Invariants of every batch\<close>

lemma event_row_at_retire:
  "event_row_at (map (retire_row now p) rs) i = map_option (retire_row now p) (event_row_at rs i)"
  by (rule event_row_at_map) simp

lemma conflict_row_fields [simp]:
  "er_effective_at (conflict_row now a r) = er_effective_at r"
  "er_retired_at (conflict_row now a r) = er_retired_at r"
  by (simp_all add: conflict_row_def)

lemma wf_retire_row: "wf_events (map (retire_row now p) rs) = wf_events rs"
proof -
  have "er_nws_id \<circ> retire_row now p = er_nws_id" by (simp add: fun_eq_iff)
  then show ?thesis by (simp add: wf_events_def)
qed

lemma reach_wf: "batch_reach pt ms alerts rs rs' \<Longrightarrow> wf_events rs \<Longrightarrow> wf_events rs'"
  by (induction rule: batch_reach.induct) (auto intro: upsert_event_wf simp: wf_retire_row)

lemma reach_keeps:
  "batch_reach pt ms alerts rs rs' \<Longrightarrow> event_row_at rs i = Some r \<Longrightarrow>
     \<exists>r'. event_row_at rs' i = Some r' \<and> er_effective_at r' = er_effective_at r \<and>
       (er_retired_at r \<noteq> None \<longrightarrow> er_retired_at r' = er_retired_at r)"
proof (induction rule: batch_reach.induct)
  case (upsert rs1 a t args now)
  then show ?case by (auto simp: upsert_event_at)
next
  case (retire rs1 p clock)
  then obtain r' where "event_row_at rs1 i = Some r'" "er_effective_at r' = er_effective_at r"
    "er_retired_at r \<noteq> None \<longrightarrow> er_retired_at r' = er_retired_at r" by blast
  then show ?case
    by (intro exI [of _ "retire_row clock p r'"]) (auto simp: event_row_at_retire retire_row_def)
qed simp

lemma reach_retired:
  "batch_reach pt ms alerts rs rs' \<Longrightarrow> event_row_at rs' i = Some r' \<Longrightarrow> er_retired_at r' \<noteq> None \<Longrightarrow>
     (\<exists>r. event_row_at rs i = Some r \<and> er_retired_at r \<noteq> None) \<or>
     (\<exists>a \<in> set alerts. refers a (Event (Properties a)) i \<and> landed pt a rs')"
proof (induction arbitrary: r' rule: batch_reach.induct)
  case start
  then show ?case by blast
next
  case (upsert rs1 a t args now)
  from upsert.prems obtain r1 where "event_row_at rs1 i = Some r1" "er_retired_at r1 \<noteq> None"
    by (auto simp: upsert_event_at inserted_row_def split: if_splits option.splits)
  with upsert.IH show ?case by (meson landed_upsert)
next
  case (retire rs1 p clock)
  from retire.prems obtain r1 where r1: "event_row_at rs1 i = Some r1" "r' = retire_row clock p r1"
    by (auto simp: event_row_at_retire)
  show ?case
  proof (cases "er_retired_at r1 = None")
    case True
    with r1(2) retire.prems(2) have "p (er_event_type r1) (er_nws_id r1)" by (auto simp: retire_row_def split: if_splits)
    moreover have "er_nws_id r1 = i" using event_row_at_Some [OF r1(1)] by simp
    ultimately obtain a where "a \<in> set alerts" "refers a (er_event_type r1) i" "landed pt a rs1"
      using retire.hyps(2) by metis
    then show ?thesis by (auto simp: landed_retire refers_def)
  next
    case False
    with retire.IH [OF r1(1)] show ?thesis by (auto simp: landed_retire)
  qed
qed

lemma reach_untouched:
  "batch_reach pt ms alerts rs rs' \<Longrightarrow> \<forall>a \<in> set alerts. ID (Properties a) = i \<longrightarrow> \<not> parseable pt a \<Longrightarrow>
     map_option (\<lambda>r. r\<lparr>er_retired_at := None\<rparr>) (event_row_at rs' i) =
     map_option (\<lambda>r. r\<lparr>er_retired_at := None\<rparr>) (event_row_at rs i)"
proof (induction rule: batch_reach.induct)
  case (upsert rs1 a t args now)
  then have "arg_id args \<noteq> i" by (auto simp: parseable_def upsert_args_expires upsert_args_id)
  with upsert show ?case by (simp add: upsert_event_at)
next
  case (retire rs1 p clock)
  have "(retire_row clock p r)\<lparr>er_retired_at := None\<rparr> = r\<lparr>er_retired_at := None\<rparr>" for r
    by (simp add: retire_row_def)
  with retire show ?case by (simp add: event_row_at_retire option.map_comp comp_def)
qed simp

lemma batch_reaches:
  assumes "upsert_alerts_batch pt ms env alerts rs = (res, rs')" and "env_ok env"
  shows "batch_reach pt ms alerts rs rs'"
  using assms
proof (cases rule: upsert_alerts_batch_cases)
  case (clean n s)
  from clean(1) show ?thesis
    using assms(2) by (elim batch_tx_cases) (auto simp: env_ok_def)
next
  case (given_up n s e c)
  from given_up(1) show ?thesis
    using assms(2) by (elim batch_tx_cases) (auto simp: env_ok_def intro: batch_reach.start)
qed (auto simp: fallback_inv_def intro: batch_reach.start)

text \<open>
  C18: whatever fails on the way, a batch of alerts keeps the table sound. Ids stay unique, no row is
  lost, a row keeps the instant it took effect, and a retired row stays retired, so a message that
  is sent again never resurrects a superseded warning.
\<close>

theorem upsert_alerts_batch_keeps_rows:
  assumes "upsert_alerts_batch pt ms env alerts rs = (res, rs')" and "env_ok env" and "wf_events rs"
  shows "wf_events rs' \<and>
    (\<forall>i r. event_row_at rs i = Some r \<longrightarrow> (\<exists>r'. event_row_at rs' i = Some r' \<and>
       er_effective_at r' = er_effective_at r \<and>
       (er_retired_at r \<noteq> None \<longrightarrow> er_retired_at r' = er_retired_at r)))"
  using reach_wf [OF batch_reaches [OF assms(1,2)] assms(3)] reach_keeps [OF batch_reaches [OF assms(1,2)]]
  by blast

text \<open>
  C17: a live warning is only ever retired by a message that replaced it. A row that a batch retires
  is referenced by an alert of the batch that has readable times and is itself in the table when
  the batch is over, on the transactional path, on the fallback and when either is cut short.
\<close>

theorem upsert_alerts_batch_retires_only_superseded:
  assumes "upsert_alerts_batch pt ms env alerts rs = (res, rs')" and "env_ok env"
    and "event_row_at rs' i = Some r'" and "er_retired_at r' \<noteq> None"
    and "\<forall>r. event_row_at rs i = Some r \<longrightarrow> er_retired_at r = None"
  shows "\<exists>a \<in> set alerts. refers a (Event (Properties a)) i \<and> landed pt a rs'"
  using reach_retired [OF batch_reaches [OF assms(1,2)] assms(3,4)] assms(5) by auto

text \<open>
  An alert whose expiry does not parse leaves the stored row of its id alone. Unless another
  alert of the batch with that id is readable, the row keeps every column but \<open>retired_at\<close>, in
  particular its expiry, and no row appears for it.
\<close>

theorem upsert_alerts_batch_skips_unreadable:
  assumes "upsert_alerts_batch pt ms env alerts rs = (res, rs')" and "env_ok env"
    and "\<forall>a \<in> set alerts. ID (Properties a) = i \<longrightarrow> \<not> parseable pt a"
  shows "map_option (\<lambda>r. r\<lparr>er_retired_at := None\<rparr>) (event_row_at rs' i) =
    map_option (\<lambda>r. r\<lparr>er_retired_at := None\<rparr>) (event_row_at rs i)"
  using reach_untouched [OF batch_reaches [OF assms(1,2)] assms(3)] .

lemma batch_outcome:
  assumes "upsert_alerts_batch pt ms env alerts rs = (res, rs')" and "env_ok env" and "alerts \<noteq> []"
  shows "(\<not> br_degraded res \<and> br_err res = None \<longrightarrow>
      br_inserted res + br_skipped res = length alerts \<and>
      (\<exists>args. list_all2 (\<lambda>a x. alert_upsert_args pt ms a (tx_received_at (be_tx env)) = Args x)
            (filter (parseable pt) alerts) args \<and>
          rs' = map (retire_row (\<lambda>_. tx_now (be_tx env))
                  (\<lambda>et i. \<exists>a \<in> set (filter (parseable pt) alerts). refers a et i))
                (upsert_events (tx_now (be_tx env)) args rs))) \<and>
    (\<not> br_degraded res \<and> br_err res \<noteq> None \<longrightarrow> tx_commit_applied (be_tx env) \<or> rs' = rs) \<and>
    (\<forall>e. br_err res = Some e \<longrightarrow> is_fatal_batch_err e) \<and>
    br_inserted res + br_skipped res \<le> length alerts"
  using assms(1,2)
proof (cases rule: upsert_alerts_batch_cases)
  case (clean n s)
  have "shuffle_ok (tx_shuffle (be_tx env))" using assms(2) by (simp add: env_ok_def)
  from clean(1) this show ?thesis
  proof (cases rule: batch_tx_cases)
    case (committed queued)
    have "list_all2 (\<lambda>a x. alert_upsert_args pt ms a (tx_received_at (be_tx env)) = Args x)
        (map fst queued) (map snd queued)"
      using committed(5) by (induction queued) auto
    with committed clean(2) show ?thesis
      using length_filter_partition [of "parseable pt" alerts] by (auto intro!: exI [of _ "map snd queued"])
  qed simp_all
next
  case (given_up n s e c)
  have "shuffle_ok (tx_shuffle (be_tx env))" using assms(2) by (simp add: env_ok_def)
  with given_up(1) have "tx_commit_applied (be_tx env) \<or> rs' = rs" by (cases rule: batch_tx_cases) auto
  with given_up(2) show ?thesis by (simp add: is_fatal_batch_err_def)
qed (use assms(3) in auto)

lemma clean_batch_retires:
  assumes "upsert_alerts_batch pt ms env alerts rs = (res, rs')" and "env_ok env"
    and "\<not> br_degraded res" and "br_err res = None"
    and "b \<in> set alerts" and "parseable pt b" and "refers b (er_event_type r) (er_nws_id r)" and "r \<in> set rs'"
  shows "er_retired_at r \<noteq> None"
proof -
  have "alerts \<noteq> []" using assms(5) by auto
  from batch_outcome [OF assms(1,2) this] assms(3,4) obtain args where
    rs': "rs' = map (retire_row (\<lambda>_. tx_now (be_tx env)) (\<lambda>et i. \<exists>a \<in> set (filter (parseable pt) alerts). refers a et i))
      (upsert_events (tx_now (be_tx env)) args rs)" by blast
  from assms(5-8) show ?thesis unfolding rs' by (auto simp: retire_row_def)
qed

text \<open>The superseding alert of above, stored over its predecessors.\<close>

definition sample_parse_time :: "string \<Rightarrow> time option" where
  "sample_parse_time s = (if s = ''200'' then Some 200 else None)"

definition sample_batch_env :: batch_env where
  "sample_batch_env =
     \<lparr>be_tx = \<lparr>tx_begin_err = None, tx_received_at = 20, tx_now = 21, tx_row_err = (\<lambda>_. None),
               tx_close_err = None, tx_retire_err = (\<lambda>_. None), tx_shuffle = rev,
               tx_commit_err = None, tx_commit_applied = False\<rparr>,
      be_ctx_err = None,
      be_row = (\<lambda>_. \<lparr>re_received_at = 20, re_now = 22, re_err = None, re_applied = False\<rparr>),
      be_retire_err = (\<lambda>_. None), be_retire_now = (\<lambda>_. 23), be_shuffle = rev\<rparr>"

definition sample_batch :: "batch_result \<times> event_row list" where
  "sample_batch =
     upsert_alerts_batch sample_parse_time (\<lambda>_. Some ''{}'') sample_batch_env
       [sample_superseding, sample_superseding\<lparr>Properties := blank_properties\<lparr>ID := ''n2'', Expires := ''soon''\<rparr>\<rparr>]
       sample_table"

lemma sample_batch_eq:
  "upsert_alerts_batch sample_parse_time (\<lambda>_. Some ''{}'') sample_batch_env
     [sample_superseding, sample_superseding\<lparr>Properties := blank_properties\<lparr>ID := ''n2'', Expires := ''soon''\<rparr>\<rparr>]
     sample_table = (fst sample_batch, snd sample_batch)"
  by (simp add: sample_batch_def)

lemma sample_env_ok: "env_ok sample_batch_env"
  by (simp add: env_ok_def sample_batch_env_def shuffle_ok_def)

theorem upsert_alerts_batch_keeps_rows_witness:
  "wf_events (snd sample_batch) \<and> (\<exists>r'. event_row_at (snd sample_batch) ''n2'' = Some r' \<and> er_effective_at r' = 10)"
proof -
  have wf: "wf_events sample_table" by (simp add: wf_events_def sample_table_def sample_event_row_def)
  have "event_row_at sample_table ''n2'' = Some (sample_event_row ''n2'' ''Flood Watch'' 150)"
    by (simp add: sample_table_def sample_event_row_def)
  with upsert_alerts_batch_keeps_rows [OF sample_batch_eq sample_env_ok wf] show ?thesis
    by (fastforce simp: sample_event_row_def)
qed

text \<open>
  C19: the counts and the two paths. Without degradation the batch is all or nothing: a nil error
  means that every readable alert was upserted in order, that then exactly the live rows they
  reference with their own event type were retired at the same instant, and that inserted plus
  skipped is the number of alerts; an error means that the table is unchanged, unless a commit
  that reported it took effect. Every error is a context error, and no count exceeds the batch.
\<close>

theorem upsert_alerts_batch_outcome:
  assumes "upsert_alerts_batch pt ms env alerts rs = (res, rs')" and "env_ok env" and "alerts \<noteq> []"
  shows "(\<not> br_degraded res \<and> br_err res = None \<longrightarrow>
      br_inserted res + br_skipped res = length alerts \<and>
      (\<exists>args. list_all2 (\<lambda>a x. alert_upsert_args pt ms a (tx_received_at (be_tx env)) = Args x)
            (filter (parseable pt) alerts) args \<and>
          rs' = map (retire_row (\<lambda>_. tx_now (be_tx env))
                  (\<lambda>et i. \<exists>a \<in> set (filter (parseable pt) alerts). refers a et i))
                (upsert_events (tx_now (be_tx env)) args rs))) \<and>
    (\<not> br_degraded res \<and> br_err res \<noteq> None \<longrightarrow> tx_commit_applied (be_tx env) \<or> rs' = rs) \<and>
    (\<forall>e. br_err res = Some e \<longrightarrow> is_fatal_batch_err e) \<and>
    br_inserted res + br_skipped res \<le> length alerts"
  using assms by (rule batch_outcome)

theorem upsert_alerts_batch_retires_only_superseded_witness:
  "\<exists>a \<in> set [sample_superseding, sample_superseding\<lparr>Properties := blank_properties\<lparr>ID := ''n2'', Expires := ''soon''\<rparr>\<rparr>].
     refers a (Event (Properties a)) ''n1'' \<and> landed sample_parse_time a (snd sample_batch)"
proof -
  have "map_option er_retired_at (event_row_at (snd sample_batch) ''n1'') = Some (Some 21)" by code_simp
  then obtain r' where "event_row_at (snd sample_batch) ''n1'' = Some r'" "er_retired_at r' \<noteq> None" by auto
  moreover have "\<forall>r. event_row_at sample_table ''n1'' = Some r \<longrightarrow> er_retired_at r = None"
    by (simp add: sample_table_def sample_event_row_def)
  ultimately show ?thesis
    by (rule upsert_alerts_batch_retires_only_superseded [OF sample_batch_eq sample_env_ok])
qed

theorem upsert_alerts_batch_skips_unreadable_witness:
  "map_option (\<lambda>r. r\<lparr>er_retired_at := None\<rparr>) (event_row_at (snd sample_batch) ''n2'') =
     map_option (\<lambda>r. r\<lparr>er_retired_at := None\<rparr>) (event_row_at sample_table ''n2'')"
  by (rule upsert_alerts_batch_skips_unreadable [OF sample_batch_eq sample_env_ok])
    (simp add: sample_superseding_def blank_properties_def parseable_def sample_parse_time_def)

theorem upsert_alerts_batch_outcome_witness:
  "br_inserted (fst sample_batch) + br_skipped (fst sample_batch) = 2"
proof -
  have "\<not> br_degraded (fst sample_batch) \<and> Option.is_none (br_err (fst sample_batch))" by code_simp
  then show ?thesis
    using upsert_alerts_batch_outcome [OF sample_batch_eq sample_env_ok] by (simp add: Option.is_none_def)
qed

section \<open>Storm reports are inserted once\<close>

lemma upsert_report_prefix: "\<exists>new. upsert_report now r rs = rs @ new"
  by (simp add: upsert_report_def)

lemma upsert_report_has: "report_key (report_row_of now r) \<in> report_key ` set (upsert_report now r rs)"
  by (simp add: upsert_report_def)

lemma report_key_now: "report_key (report_row_of now r) = (sr_Type r, sr_Location r, sr_Time r)"
  by (simp add: report_key_def report_row_of_def)

definition report_grows :: "storm_report list \<Rightarrow> report_row list \<Rightarrow> report_row list \<Rightarrow> bool" where
  "report_grows reports rs rs' \<longleftrightarrow>
     (\<exists>new. rs' = rs @ new \<and> (\<forall>x \<in> set new. \<exists>r \<in> set reports. \<exists>now. x = report_row_of now r)) \<and>
     (distinct (map report_key rs) \<longrightarrow> distinct (map report_key rs'))"

lemma report_grows_refl: "report_grows reports rs rs"
  by (simp add: report_grows_def)

lemma report_grows_trans: "report_grows reports rs rs1 \<Longrightarrow> report_grows reports rs1 rs2 \<Longrightarrow> report_grows reports rs rs2"
  by (auto simp: report_grows_def)

lemma report_grows_upsert: "r \<in> set reports \<Longrightarrow> report_grows reports rs (upsert_report now r rs)"
  using upsert_report_keys [of rs now r] by (auto simp: report_grows_def upsert_report_def)

lemma report_grows_upserts: "set as \<subseteq> set reports \<Longrightarrow> report_grows reports rs (upsert_reports now as rs)"
proof (induction as arbitrary: rs)
  case (Cons a as)
  then have "report_grows reports rs (upsert_report now a rs)" by (intro report_grows_upsert) simp
  with Cons show ?case by (auto simp: upsert_reports_def intro: report_grows_trans)
qed (simp add: upsert_reports_def report_grows_refl)

lemma upsert_storm_report_grows:
  "upsert_storm_report env r rs = (err, rs') \<Longrightarrow> r \<in> set reports \<Longrightarrow> report_grows reports rs rs'"
  by (auto simp: upsert_storm_report_def Let_def report_grows_refl report_grows_upsert split: option.splits if_splits)

lemma report_fallback_grows:
  "report_fallback_loop env i as n rs = (out, rs') \<Longrightarrow> set as \<subseteq> set reports \<Longrightarrow> report_grows reports rs rs'"
proof (induction as arbitrary: i n rs)
  case (Cons a as)
  obtain err rs1 where u: "upsert_storm_report (env i) a rs = (err, rs1)" by fastforce
  with Cons.prems have "report_grows reports rs rs1" by (auto intro: upsert_storm_report_grows)
  with Cons u show ?case by (auto intro: report_grows_trans split: option.splits if_splits)
qed (simp add: report_grows_refl)

lemma upsert_reports_keys:
  "report_key ` set (upsert_reports now as rs) =
     report_key ` set rs \<union> (\<lambda>r. (sr_Type r, sr_Location r, sr_Time r)) ` set as"
proof (induction as arbitrary: rs)
  case (Cons a as)
  have "report_key ` set (upsert_report now a rs) = insert (sr_Type a, sr_Location a, sr_Time a) (report_key ` set rs)"
    by (auto simp: upsert_report_def report_key_now)
  with Cons show ?case by (simp add: upsert_reports_def)
qed (simp add: upsert_reports_def)

lemma upsert_reports_known:
  "(\<lambda>r. (sr_Type r, sr_Location r, sr_Time r)) ` set as \<subseteq> report_key ` set rs \<Longrightarrow> upsert_reports now as rs = rs"
  by (induction as) (auto simp: upsert_reports_def upsert_report_def report_key_now)

lemma reports_batch_grows:
  assumes "upsert_storm_reports_batch env reports rs = ((n, degraded, err), rs')"
  shows "report_grows reports rs rs' \<and> (\<not> degraded \<and> err = None \<longrightarrow>
    n = length reports \<and> rs' = upsert_reports (rt_now env) reports rs)"
proof (cases "reports = []")
  case True
  with assms show ?thesis
    by (auto simp: upsert_storm_reports_batch_def upsert_reports_def report_grows_refl)
next
  case nonempty: False
  obtain k e rs1 where tx: "upsert_storm_reports_batch_tx env reports rs = ((k, e), rs1)" by (metis surj_pair)
  have tx_rs: "rs1 = rs \<or> rs1 = upsert_reports (rt_now env) reports rs"
    and ok: "e = None \<Longrightarrow> k = length reports \<and> rs1 = upsert_reports (rt_now env) reports rs"
    using tx by (auto simp: upsert_storm_reports_batch_tx_def Let_def split: option.splits if_splits)
  have "report_grows reports rs rs1"
    using tx_rs report_grows_upserts [of reports reports rs "rt_now env"] report_grows_refl by auto
  then show ?thesis
    using assms nonempty tx ok
    by (auto simp: upsert_storm_reports_batch_def is_fatal_batch_err_def
        split: option.splits if_splits prod.splits db_err.splits
        intro: report_grows_trans dest: report_fallback_grows [where reports = reports])
qed

text \<open>
  C23: storm reports are deduplicated. Whatever fails, a batch only appends rows of its own reports
  and keeps the triple of type, location and time unique; after a clean batch every report is
  there, and storing it again, at any later time, changes nothing.
\<close>

theorem upsert_storm_reports_batch_dedupes:
  assumes "upsert_storm_reports_batch env reports rs = ((n, degraded, err), rs')"
    and "distinct (map report_key rs)"
  shows "distinct (map report_key rs') \<and>
    (\<exists>new. rs' = rs @ new \<and> (\<forall>x \<in> set new. \<exists>r \<in> set reports. \<exists>now. x = report_row_of now r)) \<and>
    (\<not> degraded \<and> err = None \<longrightarrow> n = length reports \<and>
       (\<forall>r \<in> set reports. (sr_Type r, sr_Location r, sr_Time r) \<in> report_key ` set rs') \<and>
       (\<forall>now. upsert_reports now reports rs' = rs'))"
  using reports_batch_grows [OF assms(1)] assms(2) upsert_reports_keys [of "rt_now env" reports rs]
    upsert_reports_known [of reports rs']
  by (auto simp: report_grows_def)

definition sample_report :: storm_report where
  "sample_report =
     \<lparr>sr_Time = 100, sr_Magnitude = ''1.75'', sr_Location = ''Norman'', sr_County = ''Cleveland'',
      sr_State = ''OK'', sr_Lat = Finite 35, sr_Lon = Finite (- 97), sr_Comments = '''', sr_Type = ''hail''\<rparr>"

definition sample_report_env :: report_env where
  "sample_report_env =
     \<lparr>rt_begin_err = None, rt_now = 110, rt_row_err = (\<lambda>_. None), rt_close_err = None,
      rt_commit_err = None, rt_commit_applied = True, rt_ctx_err = None,
      rt_row = (\<lambda>_. \<lparr>re_received_at = 110, re_now = 111, re_err = None, re_applied = False\<rparr>)\<rparr>"

theorem upsert_storm_reports_batch_dedupes_witness:
  "upsert_reports 500 [sample_report, sample_report] [report_row_of 110 sample_report] =
     [report_row_of 110 sample_report]"
proof -
  have "upsert_storm_reports_batch sample_report_env [sample_report, sample_report] [] =
      ((2, False, None), [report_row_of 110 sample_report])"
    by (simp add: upsert_storm_reports_batch_def upsert_storm_reports_batch_tx_def sample_report_env_def
        batch_error_def upsert_reports_def upsert_report_def Let_def)
  from upsert_storm_reports_batch_dedupes [OF this] show ?thesis by simp
qed

section \<open>The active alerts of a snapshot\<close>

lemma active_alert_fields [simp]:
  "NWSID (active_alert_of env r) = er_nws_id r"
  "EventType (active_alert_of env r) = er_event_type r"
  "aa_AreaDesc (active_alert_of env r) = er_area_desc r"
  "EffectiveAt (active_alert_of env r) = er_effective_at r"
  "ExpiresAt (active_alert_of env r) = er_expires_at r"
  by (simp_all add: active_alert_of_def Let_def split_beta)

lemma parse_vtec_wf: "parse_vtec ps = Inr (Some v) \<Longrightarrow> wf_vtec v"
  by (auto simp: parse_vtec_def dest: vtec_loop_Inr split: option.splits sum.splits if_splits)

lemma upper_no_nul: "list_all is_upper s \<Longrightarrow> CHR 0x00 \<notin> set s"
  by (auto simp: list_all_iff is_upper_def code_def)

lemma digit_no_nul: "list_all is_digit s \<Longrightarrow> CHR 0x00 \<notin> set s"
  by (auto simp: list_all_iff is_digit_def code_def)

lemma event_id_no_nul: "wf_vtec v \<Longrightarrow> CHR 0x00 \<notin> set (event_id v)"
  by (simp add: wf_vtec_def event_id_def upper_no_nul digit_no_nul)

text \<open>No text column of PostgreSQL holds a NUL.\<close>

definition text_columns_ok :: "event_row list \<Rightarrow> bool" where
  "text_columns_ok rs \<longleftrightarrow> (\<forall>r \<in> set rs. CHR 0x00 \<notin> set (er_event_type r) \<and> CHR 0x00 \<notin> set (er_area_desc r))"

lemma eventID_of: "eventID (active_alert_of env r) = '''' \<or> (\<exists>v. wf_vtec v \<and> eventID (active_alert_of env r) = event_id v)"
  by (auto simp: active_alert_of_def Let_def split_beta dest: parse_vtec_wf split: sum.splits option.splits)

lemma active_alert_no_nul:
  assumes "CHR 0x00 \<notin> set (er_event_type r)" "CHR 0x00 \<notin> set (er_area_desc r)"
  shows "no_nul (active_alert_of env r)"
  using assms eventID_of [of env r] event_id_no_nul by (auto simp: no_nul_def)

definition scan_ok :: "read_env \<Rightarrow> bool" where
  "scan_ok env \<longleftrightarrow> (\<forall>rs. mset (rd_scan env rs) = mset rs)"

lemma read_no_fault: "snd (read_rows f rs) = None \<longleftrightarrow> f = NoFault"
  by (cases f) auto

lemma get_active_alerts_Inr:
  assumes "get_active_alerts env rs = Inr as"
  shows "rd_fault env = NoFault"
    "as = collapse_by_event (map (active_alert_of env) (active_rows (rd_scan env) (rd_now env) rs))"
proof -
  show f: "rd_fault env = NoFault"
    using assms read_no_fault [of "rd_fault env"]
    by (auto simp: get_active_alerts_def Let_def split_beta split: option.splits)
  show "as = collapse_by_event (map (active_alert_of env) (active_rows (rd_scan env) (rd_now env) rs))"
    using assms by (simp add: get_active_alerts_def f)
qed

text \<open>Rows sorted by the instant they take effect stay sorted: the first of a group is its latest.\<close>

lemma sorted_firsts: "sorted (map f xs) \<Longrightarrow> sorted (map f (firsts seen xs))"
  using firsts_set by (induction xs arbitrary: seen) (auto, blast+)

lemma firsts_earliest:
  assumes "sorted (map (\<lambda>a. - EffectiveAt a) xs)" "a \<in> set (firsts seen xs)" "vtec_row a"
    "b \<in> set xs" "vtec_row b" "collapse_key b = collapse_key a"
  shows "EffectiveAt b \<le> EffectiveAt a"
  using assms
proof (induction xs arbitrary: seen)
  case Nil
  then show ?case by simp
next
  case (Cons c xs)
  show ?case
  proof (cases "a = c")
    case True
    with Cons.prems show ?thesis by auto
  next
    case False
    let ?seen = "if vtec_row c \<and> collapse_key c \<notin> set seen then collapse_key c # seen else seen"
    from Cons.prems(2) False have a: "a \<in> set (firsts ?seen xs)" by (auto split: if_splits)
    have "b \<noteq> c"
    proof
      assume "b = c"
      with Cons.prems have "collapse_key c = collapse_key a" "vtec_row c" by auto
      moreover have "collapse_key a \<notin> set seen" using firsts_fresh [OF Cons.prems(2,3)] .
      moreover have "collapse_key a \<notin> set ?seen" using firsts_fresh [OF a Cons.prems(3)] .
      ultimately show False by auto
    qed
    with Cons.prems have "b \<in> set xs" by simp
    with Cons.IH [OF _ a] Cons.prems show ?thesis by simp
  qed
qed

lemma collapse_sorted:
  assumes "sorted (map (\<lambda>a. - EffectiveAt a) xs)"
  shows "sorted (map (\<lambda>a. - EffectiveAt a) (collapse_by_event xs))"
proof -
  have "EffectiveAt (survivor xs a) = EffectiveAt a" if a: "a \<in> set (firsts [] xs)" for a
  proof (cases "vtec_row a")
    case True
    have in_xs: "a \<in> set xs" using a firsts_set by blast
    note s = survivor_in_group [OF in_xs True]
    have "EffectiveAt (survivor xs a) \<le> EffectiveAt a"
      using firsts_earliest [OF assms a True s(1,2,3)] .
    moreover have "EffectiveAt a \<le> EffectiveAt (survivor xs a)"
      using s(4) by (auto simp: issuance_of_def)
    ultimately show ?thesis by simp
  qed (simp add: survivor_not_vtec)
  then have "map (\<lambda>a. - EffectiveAt a) (collapse_by_event xs) = map (\<lambda>a. - EffectiveAt a) (firsts [] xs)"
    by (simp add: collapse_by_event_reference)
  with sorted_firsts [OF assms] show ?thesis by simp
qed

lemma collapse_keeps:
  assumes "list_all no_nul xs" "a \<in> set xs"
  shows "\<exists>s \<in> set (collapse_by_event xs). (if eventID a = '''' then s = a else same_warning a s) \<and>
    issuance_of a \<le> issuance_of s"
proof -
  have s: "survivor xs a \<in> set (collapse_by_event xs)" using assms(2) by (simp add: collapse_set)
  show ?thesis
  proof (cases "vtec_row a")
    case True
    note g = survivor_in_group [OF assms(2) True]
    have "same_warning a (survivor xs a)"
      using assms g True by (subst same_warning_key) (auto simp: list_all_iff)
    with s g(4) True show ?thesis by (auto simp: vtec_row_def)
  next
    case False
    then have "survivor xs a = a" by (rule survivor_not_vtec)
    with s False show ?thesis by (auto simp: vtec_row_def intro!: bexI [of _ a])
  qed
qed

lemma collapse_subset: "set (collapse_by_event xs) \<subseteq> set xs"
proof
  fix s assume "s \<in> set (collapse_by_event xs)"
  then obtain a where "a \<in> set xs" "s = survivor xs a" by (auto simp: collapse_set)
  then show "s \<in> set xs" using survivor_in_group(1) [of a xs] by (cases "vtec_row a") (auto simp: survivor_not_vtec)
qed

lemma get_active_alerts_complete:
  assumes "get_active_alerts env rs = Inr as" and "scan_ok env" and "text_columns_ok rs"
  shows "(\<forall>r \<in> set rs. is_active (rd_now env) r \<longrightarrow> (\<exists>s \<in> set as.
      (if eventID (active_alert_of env r) = '''' then s = active_alert_of env r
       else same_warning (active_alert_of env r) s) \<and>
      issuance_of (active_alert_of env r) \<le> issuance_of s)) \<and>
    set as \<subseteq> active_alert_of env ` {r \<in> set rs. is_active (rd_now env) r} \<and>
    sorted (map (\<lambda>a. - EffectiveAt a) as)"
proof -
  let ?rows = "active_rows (rd_scan env) (rd_now env) rs"
  let ?xs = "map (active_alert_of env) ?rows"
  note as = get_active_alerts_Inr(2) [OF assms(1)]
  have rows: "set ?rows = {r \<in> set rs. is_active (rd_now env) r}"
    using assms(2) by (intro active_rows_set) (simp add: scan_ok_def)
  have nul: "list_all no_nul ?xs"
    using assms(3) rows by (auto simp: list_all_iff text_columns_ok_def intro: active_alert_no_nul)
  have "(\<lambda>a. - EffectiveAt a) \<circ> active_alert_of env = (\<lambda>r. - er_effective_at r)" by (simp add: fun_eq_iff)
  then have "sorted (map (\<lambda>a. - EffectiveAt a) ?xs)" using active_rows_sorted by simp
  then have "sorted (map (\<lambda>a. - EffectiveAt a) as)" unfolding as by (rule collapse_sorted)
  moreover have "set as \<subseteq> active_alert_of env ` {r \<in> set rs. is_active (rd_now env) r}"
    using collapse_subset [of ?xs] rows unfolding as by auto
  moreover have "\<exists>s \<in> set as. (if eventID (active_alert_of env r) = '''' then s = active_alert_of env r
        else same_warning (active_alert_of env r) s) \<and> issuance_of (active_alert_of env r) \<le> issuance_of s"
    if "r \<in> set rs" "is_active (rd_now env) r" for r
    using collapse_keeps [OF nul, of "active_alert_of env r"] rows that unfolding as by auto
  ultimately show ?thesis by blast
qed

text \<open>
  C20: the snapshot is complete, truthful and ordered. Every row that is live when it is read is
  represented, itself when it has no VTEC event, and otherwise by a row of its event, type and area
  that is at least as late; every entry comes from a live row; and the entries are sorted by the
  instant they take effect, latest first. A row whose motion, tags, detection or VTEC do not parse
  is no exception, and a cursor that fails gives an error, never a shorter snapshot.
\<close>

theorem get_active_alerts_snapshot:
  assumes "scan_ok env" and "text_columns_ok rs"
  shows "case get_active_alerts env rs of
      Inl _ \<Rightarrow> rd_fault env \<noteq> NoFault
    | Inr as \<Rightarrow> rd_fault env = NoFault \<and>
        (\<forall>r \<in> set rs. is_active (rd_now env) r \<longrightarrow> (\<exists>s \<in> set as.
          (if eventID (active_alert_of env r) = '''' then s = active_alert_of env r
           else same_warning (active_alert_of env r) s) \<and>
          issuance_of (active_alert_of env r) \<le> issuance_of s)) \<and>
        set as \<subseteq> active_alert_of env ` {r \<in> set rs. is_active (rd_now env) r} \<and>
        sorted (map (\<lambda>a. - EffectiveAt a) as)"
proof (cases "get_active_alerts env rs")
  case (Inl e)
  then have "rd_fault env \<noteq> NoFault" by (auto simp: get_active_alerts_def)
  with Inl show ?thesis by simp
next
  case (Inr as)
  with get_active_alerts_complete [OF Inr assms] get_active_alerts_Inr(1) [OF Inr] show ?thesis by simp
qed

definition sample_read_env :: read_env where
  "sample_read_env =
     \<lparr>rd_fault = NoFault, rd_now = 100, rd_scan = rev,
      rd_unmarshal = (\<lambda>_. ((Map.empty, \<lparr>SAME = [''040027''], UGC = []\<rparr>), False)),
      rd_geojson = (\<lambda>g. g), rd_float = Some, rd_parse_time = (\<lambda>_. None), rd_clock = (\<lambda>_. 0)\<rparr>"

theorem get_active_alerts_snapshot_witness:
  "\<exists>as. get_active_alerts sample_read_env sample_table = Inr as \<and> sorted (map (\<lambda>a. - EffectiveAt a) as) \<and>
     (\<exists>s \<in> set as. issuance_of (active_alert_of sample_read_env (sample_event_row ''n1'' ''Tornado Warning'' 150))
       \<le> issuance_of s)"
proof -
  have "scan_ok sample_read_env" by (simp add: scan_ok_def sample_read_env_def)
  moreover have "text_columns_ok sample_table"
    by (simp add: text_columns_ok_def sample_table_def sample_event_row_def)
  moreover have "rd_fault sample_read_env = NoFault" by (simp add: sample_read_env_def)
  moreover have "sample_event_row ''n1'' ''Tornado Warning'' 150 \<in> set sample_table" by (simp add: sample_table_def)
  moreover have "is_active (rd_now sample_read_env) (sample_event_row ''n1'' ''Tornado Warning'' 150)"
    by (simp add: is_active_def sample_read_env_def sample_event_row_def)
  ultimately show ?thesis
    using get_active_alerts_snapshot [of sample_read_env sample_table] by (auto split: sum.splits)
qed

section \<open>Purging\<close>

text \<open>
  Purging is invisible. It removes exactly the rows past their expiry, counts them, and leaves
  the active rows as they were, now and at any later reading of the clock; purging again at the
  same instant removes nothing.
\<close>

theorem store_purge_expired_invisible:
  assumes "store_purge_expired fault now rs = ((n, None), rs')" and "now \<le> later"
  shows "n + length rs' = length rs \<and> set rs' = {r \<in> set rs. now \<le> er_expires_at r} \<and>
    filter (is_active later) rs' = filter (is_active later) rs \<and>
    store_purge_expired None now rs' = ((0, None), rs')"
proof -
  have rs': "rs' = purge_expired now rs" and n: "n = purge_affected now rs"
    using assms(1) by (auto simp: store_purge_expired_def split: option.splits)
  have "n + length rs' = length rs"
    using length_filter_partition [of "\<lambda>r. er_expires_at r < now" rs]
    by (simp add: rs' n purge_expired_def purge_affected_def)
  moreover have "filter (is_active later) rs' = filter (is_active later) rs"
    using assms(2) by (auto simp: rs' purge_expired_def is_active_def intro!: filter_cong)
  moreover have "purge_affected now rs' = 0" "purge_expired now rs' = rs'"
    by (auto simp: rs' purge_expired_def purge_affected_def filter_empty_conv)
  ultimately show ?thesis by (auto simp: store_purge_expired_def rs' purge_expired_def)
qed

theorem store_purge_expired_invisible_witness:
  "filter (is_active 160) (purge_expired 155 sample_table) = filter (is_active 160) sample_table"
proof -
  have "store_purge_expired None 155 sample_table = ((purge_affected 155 sample_table, None), purge_expired 155 sample_table)"
    by (simp add: store_purge_expired_def)
  from store_purge_expired_invisible [OF this, of 160] show ?thesis by simp
qed

end
