(* ===== verification/Publisher.thy ===== *)
theory Publisher
  imports Store
begin

text \<open>
  The publishers of \<open>internal/publisher\<close>: the snapshot envelopes, the file publisher with its
  write-then-rename, the R2 publisher with its live and history objects, and the fan-out to several
  publishers. Files and objects are maps from paths or keys; a call's error comes from its
  environment. \<open>json.Marshal\<close> of an envelope and the formatting of an instant are parameters.
\<close>

section \<open>Keys and envelopes\<close>

definition SnapshotKey :: string where "SnapshotKey = ''active-events.json''"
definition CacheControlLive :: string where "CacheControlLive = ''public, max-age=30, s-maxage=30''"
definition CacheControlHistory :: string where "CacheControlHistory = ''public, max-age=31536000, immutable''"
definition PerStateKeyPrefix :: string where "PerStateKeyPrefix = ''active-events/''"
definition SnapshotSchemaVersion :: int where "SnapshotSchemaVersion = 2"

definition per_state_key :: "string \<Rightarrow> string" where
  "per_state_key state = PerStateKeyPrefix @ state @ ''.json''"

record snapshot =
  sn_SchemaVersion :: int
  sn_GeneratedAt :: time
  sn_GeneratedAtMs :: int
  sn_Areas :: "string list"
  sn_AlertCount :: nat
  sn_Alerts :: "active_alert list"

record state_snapshot =
  ss_SchemaVersion :: int
  ss_GeneratedAt :: time
  ss_GeneratedAtMs :: int
  ss_AreaState :: string
  ss_AlertCount :: nat
  ss_Alerts :: "active_alert list"

text \<open>\<open>now\<close> is the single reading of the clock; \<open>UnixMilli\<close> rounds it down.\<close>

definition unix_milli :: "time \<Rightarrow> int" where "unix_milli t = t div millisecond"

definition new_snapshot :: "time \<Rightarrow> string list \<Rightarrow> active_alert list \<Rightarrow> snapshot" where
  "new_snapshot now areas alerts =
     \<lparr>sn_SchemaVersion = SnapshotSchemaVersion, sn_GeneratedAt = now, sn_GeneratedAtMs = unix_milli now,
      sn_Areas = areas, sn_AlertCount = length alerts, sn_Alerts = alerts\<rparr>"

definition new_state_snapshot :: "string \<Rightarrow> active_alert list \<Rightarrow> time \<Rightarrow> state_snapshot" where
  "new_state_snapshot state alerts t =
     \<lparr>ss_SchemaVersion = SnapshotSchemaVersion, ss_GeneratedAt = t, ss_GeneratedAtMs = unix_milli t,
      ss_AreaState = state, ss_AlertCount = length alerts, ss_Alerts = alerts\<rparr>"

section \<open>The file publisher\<close>

type_synonym files = "string \<Rightarrow> string option"

datatype pub_err =
    MkdirErr | EncodeErr | WriteErr | RenameErr | PutErr string | PubCtxErr ctx_err

record file_env =
  fe_mkdir_fails :: bool
  fe_written :: "nat option"             \<comment> \<open>the write fails after that many bytes\<close>
  fe_rename_fails :: bool

definition join_path :: "string \<Rightarrow> string \<Rightarrow> string" where
  "join_path dir key = dir @ ''/'' @ key"

text \<open>
  A disk: the files as other processes see them now, and every state that they have passed through
  since the call began. A process that dies leaves one of these states behind. (The service does not
  call \<open>fsync\<close>; what a power failure leaves is not modelled.)
\<close>

type_synonym disk = "files \<times> files list"

text \<open>
  \<open>os.WriteFile\<close> truncates the file, then writes it piece by piece; what it wrote before failing stays.
\<close>

definition write_file :: "nat option \<Rightarrow> string \<Rightarrow> string \<Rightarrow> disk \<Rightarrow> bool \<times> disk" where
  "write_file written path data d =
     (let upto = (case written of None \<Rightarrow> length data | Some n \<Rightarrow> min n (length data));
          fs = (fst d)(path \<mapsto> take upto data)
      in (written = None, fs, snd d @ map (\<lambda>n. (fst d)(path \<mapsto> take n data)) [0..<Suc upto]))"

text \<open>\<open>os.Rename\<close> replaces the target in one step.\<close>

definition rename_file :: "bool \<Rightarrow> string \<Rightarrow> string \<Rightarrow> disk \<Rightarrow> bool \<times> disk" where
  "rename_file fails src dst d =
     (if fails then (False, d)
      else let fs = ((fst d)(dst := fst d src))(src := None) in (True, fs, snd d @ [fs]))"

text \<open>Both methods of \<open>File\<close>, for a key and the encoded envelope (\<open>None\<close> when encoding fails).\<close>

definition file_run :: "string \<Rightarrow> file_env \<Rightarrow> string \<Rightarrow> string option \<Rightarrow> disk \<Rightarrow> pub_err option \<times> disk" where
  "file_run dir env key encoded d =
     (if fe_mkdir_fails env then (Some MkdirErr, d)
      else case encoded of
        None \<Rightarrow> (Some EncodeErr, d)
      | Some data \<Rightarrow>
          (let tmpPath = join_path dir (key @ ''.tmp''); finalPath = join_path dir key
           in case write_file (fe_written env) tmpPath data d of
                (False, d1) \<Rightarrow> (Some WriteErr, d1)
              | (True, d1) \<Rightarrow>
                  (case rename_file (fe_rename_fails env) tmpPath finalPath d1 of
                     (False, d2) \<Rightarrow> (Some RenameErr, d2)
                   | (True, d2) \<Rightarrow> (None, d2))))"

text \<open>What a call returns with the files it leaves, and the states in which it can be cut short.\<close>

definition file_put :: "string \<Rightarrow> file_env \<Rightarrow> string \<Rightarrow> string option \<Rightarrow> files \<Rightarrow> pub_err option \<times> files" where
  "file_put dir env key encoded fs = (case file_run dir env key encoded (fs, [fs]) of (r, fs', seen) \<Rightarrow> (r, fs'))"

definition file_states :: "string \<Rightarrow> file_env \<Rightarrow> string \<Rightarrow> string option \<Rightarrow> files \<Rightarrow> files list" where
  "file_states dir env key encoded fs = snd (snd (file_run dir env key encoded (fs, [fs])))"

definition file_publish ::
  "(snapshot \<Rightarrow> string option) \<Rightarrow> string \<Rightarrow> file_env \<Rightarrow> snapshot \<Rightarrow> files \<Rightarrow> pub_err option \<times> files" where
  "file_publish enc dir env s fs = file_put dir env SnapshotKey (enc s) fs"

definition file_publish_state ::
  "(state_snapshot \<Rightarrow> string option) \<Rightarrow> string \<Rightarrow> file_env \<Rightarrow> state_snapshot \<Rightarrow> files \<Rightarrow> pub_err option \<times> files" where
  "file_publish_state enc dir env s fs = file_put dir env (per_state_key (ss_AreaState s)) (enc s) fs"


section \<open>The R2 publisher\<close>

record r2_object =
  ob_data :: string
  ob_content_type :: string
  ob_cache_control :: string

abbreviation json_utf8 :: string where
  "json_utf8 \<equiv> ''application/json; charset=utf-8''"

type_synonym bucket = "string \<Rightarrow> r2_object option"

record r2_config =
  AccountID :: string
  AccessKeyID :: string
  SecretAccessKey :: string
  Bucket :: string

definition r2_config_complete :: "r2_config \<Rightarrow> bool" where
  "r2_config_complete c \<longleftrightarrow>
     \<not> (AccountID c = '''' \<or> AccessKeyID c = '''' \<or> SecretAccessKey c = '''' \<or> Bucket c = '''')"

text \<open>
  A publisher over the S3 client for the account's endpoint; the AWS configuration may fail to load.
\<close>

record r2 =
  r2_endpoint :: string
  r2_region :: string
  r2_credentials :: "string \<times> string"
  r2_bucket :: string

datatype r2_new_err = R2Incomplete | R2ConfigErr string

definition new_r2 :: "string option \<Rightarrow> r2_config \<Rightarrow> r2_new_err + r2" where
  "new_r2 aws_err c =
     (if \<not> r2_config_complete c then Inl R2Incomplete
      else let endpoint = ''https://'' @ AccountID c @ ''.r2.cloudflarestorage.com''
      in case aws_err of
           Some e \<Rightarrow> Inl (R2ConfigErr e)
         | None \<Rightarrow> Inr \<lparr>r2_endpoint = endpoint, r2_region = ''auto'',
                         r2_credentials = (AccessKeyID c, SecretAccessKey c), r2_bucket = Bucket c\<rparr>)"

text \<open>A put that reports an error may have stored the object.\<close>

datatype put_outcome = PutOk | PutFails string bool

definition put_object :: "put_outcome \<Rightarrow> string \<Rightarrow> string \<Rightarrow> string \<Rightarrow> bucket \<Rightarrow> pub_err option \<times> bucket" where
  "put_object out key cache data b =
     (let b' = b(key \<mapsto> \<lparr>ob_data = data, ob_content_type = json_utf8, ob_cache_control = cache\<rparr>)
      in case out of
           PutOk \<Rightarrow> (None, b')
         | PutFails e stored \<Rightarrow> (Some (PutErr e), if stored then b' else b))"

definition history_key :: "(time \<Rightarrow> string) \<Rightarrow> snapshot \<Rightarrow> string" where
  "history_key fmt s = ''history/'' @ fmt (sn_GeneratedAt s) @ ''.json''"

fun put_targets ::
  "(nat \<Rightarrow> put_outcome) \<Rightarrow> nat \<Rightarrow> string \<Rightarrow> (string \<times> string) list \<Rightarrow> bucket \<Rightarrow> pub_err option \<times> bucket" where
  "put_targets env i data [] b = (None, b)"
| "put_targets env i data ((key, cache) # ts) b =
     (case put_object (env i) key cache data b of
        (Some e, b') \<Rightarrow> (Some e, b')
      | (None, b') \<Rightarrow> put_targets env (i + 1) data ts b')"

definition r2_publish ::
  "(snapshot \<Rightarrow> string option) \<Rightarrow> (time \<Rightarrow> string) \<Rightarrow> (nat \<Rightarrow> put_outcome) \<Rightarrow> snapshot \<Rightarrow> bucket \<Rightarrow>
   pub_err option \<times> bucket" where
  "r2_publish enc fmt env s b =
     (case enc s of
        None \<Rightarrow> (Some EncodeErr, b)
      | Some data \<Rightarrow>
          put_targets env 0 data
            [(SnapshotKey, CacheControlLive), (history_key fmt s, CacheControlHistory)] b)"

definition r2_publish_state ::
  "(state_snapshot \<Rightarrow> string option) \<Rightarrow> put_outcome \<Rightarrow> state_snapshot \<Rightarrow> bucket \<Rightarrow> pub_err option \<times> bucket" where
  "r2_publish_state enc out s b =
     (case enc s of
        None \<Rightarrow> (Some EncodeErr, b)
      | Some data \<Rightarrow> put_object out (per_state_key (ss_AreaState s)) CacheControlLive data b)"

section \<open>The fan-out\<close>

text \<open>\<open>Multi.Publish\<close> and \<open>Multi.PublishState\<close>: every publisher runs, the first error is kept.\<close>

fun multi_loop :: "('s \<Rightarrow> 'w \<Rightarrow> 'e option \<times> 'w) list \<Rightarrow> 's \<Rightarrow> 'e option \<Rightarrow> 'w \<Rightarrow> 'e option \<times> 'w" where
  "multi_loop [] s firstErr w = (firstErr, w)"
| "multi_loop (p # ps) s firstErr w =
     (case p s w of
        (Some e, w') \<Rightarrow> multi_loop ps s (if firstErr = None then Some e else firstErr) w'
      | (None, w') \<Rightarrow> multi_loop ps s firstErr w')"

definition multi_publish :: "('s \<Rightarrow> 'w \<Rightarrow> 'e option \<times> 'w) list \<Rightarrow> 's \<Rightarrow> 'w \<Rightarrow> 'e option \<times> 'w" where
  "multi_publish ps s w = multi_loop ps s None w"

definition multi_publish_state :: "('s \<Rightarrow> 'w \<Rightarrow> 'e option \<times> 'w) list \<Rightarrow> 's \<Rightarrow> 'w \<Rightarrow> 'e option \<times> 'w" where
  "multi_publish_state ps s w = multi_loop ps s None w"

section \<open>Destinations behind an interface\<close>

text \<open>
  What the poller relies on: a put that reports success shows its data under its key, one that
  fails shows the old data or its own, and no put disturbs another key.
\<close>

locale destination =
  fixes put :: "'env \<Rightarrow> 'k \<Rightarrow> 'd \<Rightarrow> 'w \<Rightarrow> 'e option \<times> 'w"
    and shown :: "'w \<Rightarrow> 'k \<Rightarrow> 'd option"
    and key_ok :: "'k \<Rightarrow> bool"
  assumes put_ok: "key_ok k \<Longrightarrow> put env k d w = (None, w') \<Longrightarrow> shown w' k = Some d"
    and put_err: "key_ok k \<Longrightarrow> put env k d w = (Some e, w') \<Longrightarrow> shown w' k = shown w k \<or> shown w' k = Some d"
    and put_other: "key_ok k \<Longrightarrow> key_ok k' \<Longrightarrow> k' \<noteq> k \<Longrightarrow> put env k d w = (r, w') \<Longrightarrow> shown w' k' = shown w k'"
begin

lemma put_never_torn:
  "key_ok k \<Longrightarrow> key_ok k' \<Longrightarrow> put env k d w = (r, w') \<Longrightarrow>
     shown w' k' = shown w k' \<or> k' = k \<and> shown w' k' = Some d"
  by (cases "k' = k"; cases r) (auto dest: put_ok put_err put_other)

end

section \<open>The file publisher shows old or new data, never a part\<close>

text \<open>Keys that are not the temporary name of another one.\<close>

definition file_key_ok :: "string \<Rightarrow> bool" where
  "file_key_ok key \<longleftrightarrow> has_suffix key ''.json''"

lemma has_suffix_iff: "has_suffix s p \<longleftrightarrow> (\<exists>q. s = q @ p)"
proof -
  have "(\<exists>q. rev s = rev p @ q) \<longleftrightarrow> (\<exists>q. s = q @ p)"
    by (metis rev_append rev_rev_ident)
  then show ?thesis by (simp add: has_suffix_def has_prefix_iff)
qed

lemma tmp_not_key:
  assumes "file_key_ok key"
  shows "join_path dir key \<noteq> join_path dir (key' @ ''.tmp'')"
proof
  assume "join_path dir key = join_path dir (key' @ ''.tmp'')"
  then have "last key = CHR ''p''" by (simp add: join_path_def)
  moreover from assms have "last key = CHR ''n''" by (auto simp: file_key_ok_def has_suffix_iff)
  ultimately show False by simp
qed

lemma join_path_inj: "join_path dir k = join_path dir k' \<longleftrightarrow> k = k'"
  by (simp add: join_path_def)

lemma file_put_cases:
  assumes "file_put dir env key enc fs = (r, fs')" and "file_key_ok key" and "file_key_ok key'"
  shows "fs' (join_path dir key') =
    (if r = None \<and> key' = key then enc else fs (join_path dir key'))" and "r = None \<Longrightarrow> enc \<noteq> None"
  using assms tmp_not_key [OF assms(2), of dir key] tmp_not_key [OF assms(3), of dir key]
  by (auto simp: file_put_def file_run_def write_file_def rename_file_def Let_def join_path_inj
      split: if_splits option.splits prod.splits)

text \<open>The states of a call: the files before it, parts of the temporary file, and the result.\<close>

lemma file_states_cases:
  assumes "fs' \<in> set (file_states dir env key enc fs)" and "file_key_ok key" and "file_key_ok key'"
  shows "fs' (join_path dir key') = fs (join_path dir key') \<or>
    key' = key \<and> enc \<noteq> None \<and> fs' (join_path dir key') = enc"
  using assms tmp_not_key [OF assms(2), of dir key] tmp_not_key [OF assms(3), of dir key]
  by (auto simp: file_states_def file_run_def write_file_def rename_file_def Let_def join_path_inj
      simp del: upt_Suc split: if_splits option.splits prod.splits)

lemma file_states_last: "file_states dir env key enc fs \<noteq> [] \<and> last (file_states dir env key enc fs) = snd (file_put dir env key enc fs)"
  by (auto simp: file_states_def file_put_def file_run_def write_file_def rename_file_def Let_def
      split: option.splits)

interpretation file_dest: destination "\<lambda>env key data. file_put dir env key (Some data)"
  "\<lambda>fs key. fs (join_path dir key)" file_key_ok for dir
proof
  fix k k' :: string and env d w r w'
  assume "file_key_ok k" "file_key_ok k'" "k' \<noteq> k" "file_put dir env k (Some d) w = (r, w')"
  then show "w' (join_path dir k') = w (join_path dir k')" by (simp add: file_put_cases(1))
qed (simp_all add: file_put_cases(1))

text \<open>
  C24: the snapshot file is replaced atomically. In every state that the files pass through during a
  call, in which a reader may find them and a process that dies leaves them, the file under the key
  holds its old contents or the complete new ones, and every other published file is untouched. The
  last of these states is what the call leaves; after a success it holds the new contents and no
  temporary file, and after an error, of the directory, the encoding, the write or the rename, the
  old contents.
\<close>

theorem file_publish_atomic:
  assumes "file_key_ok key" and "file_key_ok key'"
  shows "(\<forall>fs' \<in> set (file_states dir env key enc fs).
      fs' (join_path dir key') = fs (join_path dir key') \<or>
      key' = key \<and> enc \<noteq> None \<and> fs' (join_path dir key') = enc) \<and>
    last (file_states dir env key enc fs) = snd (file_put dir env key enc fs) \<and>
    (case file_put dir env key enc fs of
       (None, fs') \<Rightarrow> enc \<noteq> None \<and> fs' (join_path dir key) = enc \<and> fs' (join_path dir (key @ ''.tmp'')) = None
     | (Some _, fs') \<Rightarrow> fs' (join_path dir key') = fs (join_path dir key'))"
proof -
  obtain r fs' where p: "file_put dir env key enc fs = (r, fs')" by fastforce
  have "case file_put dir env key enc fs of
       (None, fs') \<Rightarrow> enc \<noteq> None \<and> fs' (join_path dir key) = enc \<and> fs' (join_path dir (key @ ''.tmp'')) = None
     | (Some _, fs') \<Rightarrow> fs' (join_path dir key') = fs (join_path dir key')"
  proof (cases r)
    case None
    then have "fs' (join_path dir (key @ ''.tmp'')) = None"
      using p by (auto simp: file_put_def file_run_def write_file_def rename_file_def Let_def
          split: if_splits option.splits prod.splits)
    with None p file_put_cases [OF p assms(1,1)] show ?thesis by simp
  next
    case (Some e)
    with p file_put_cases(1) [OF p assms] show ?thesis by simp
  qed
  then show ?thesis using file_states_cases [OF _ assms] file_states_last by blast
qed

text \<open>A write that fails after one byte: the file under the key is as it was in every state.\<close>

theorem file_publish_atomic_witness:
  "let env = \<lparr>fe_mkdir_fails = False, fe_written = Some 1, fe_rename_fails = False\<rparr>;
       old = [join_path ''snapshots'' SnapshotKey \<mapsto> ''old'']
   in length (file_states ''snapshots'' env SnapshotKey (Some ''{}'') old) = 3 \<and>
     (\<forall>fs' \<in> set (file_states ''snapshots'' env SnapshotKey (Some ''{}'') old).
        fs' (join_path ''snapshots'' SnapshotKey) \<in> {Some ''old'', Some ''{}''})"
proof -
  let ?env = "\<lparr>fe_mkdir_fails = False, fe_written = Some 1, fe_rename_fails = False\<rparr>"
  have k: "file_key_ok SnapshotKey" by code_simp
  have "length (file_states ''snapshots'' ?env SnapshotKey (Some ''{}'') [join_path ''snapshots'' SnapshotKey \<mapsto> ''old'']) = 3"
    by (simp add: file_states_def file_run_def write_file_def Let_def)
  with file_publish_atomic [OF k k, of "''snapshots''" ?env "Some ''{}''" "[join_path ''snapshots'' SnapshotKey \<mapsto> ''old'']"]
  show ?thesis by auto
qed

section \<open>Keys do not collide\<close>

text \<open>
  Published objects never overwrite each other. The keys of two valid states differ, none of
  them is the merged snapshot's or a history object's, neither is a temporary file's name, and a
  state's key has exactly one directory level.
\<close>

theorem published_keys_disjoint:
  assumes "is_valid_state_code s" and "is_valid_state_code t"
  shows "(per_state_key s = per_state_key t \<longleftrightarrow> s = t) \<and>
    per_state_key s \<noteq> SnapshotKey \<and> per_state_key s \<noteq> history_key fmt sn \<and> SnapshotKey \<noteq> history_key fmt sn \<and>
    file_key_ok (per_state_key s) \<and> file_key_ok SnapshotKey \<and>
    count_list (per_state_key s) (CHR ''/'') = 1"
proof -
  from valid_state_shape [OF assms(1)] have s: "list_all is_upper s" by simp
  then have "CHR ''/'' \<notin> set s" by (auto simp: list_all_iff is_upper_def code_def)
  then have "count_list s (CHR ''/'') = 0" by (simp add: count_list_0_iff)
  moreover have "file_key_ok SnapshotKey" by code_simp
  ultimately show ?thesis
    by (auto simp: per_state_key_def PerStateKeyPrefix_def SnapshotKey_def history_key_def
        file_key_ok_def has_suffix_iff)
qed

theorem published_keys_disjoint_witness:
  "per_state_key ''OK'' \<noteq> per_state_key ''TX'' \<and> per_state_key ''OK'' \<noteq> SnapshotKey"
proof -
  have "is_valid_state_code ''OK''" "is_valid_state_code ''TX''" by code_simp+
  from published_keys_disjoint [OF this] show ?thesis by simp
qed

section \<open>R2 behind the same interface\<close>

definition object_data :: "bucket \<Rightarrow> string \<Rightarrow> string option" where
  "object_data b key = map_option ob_data (b key)"

lemma put_object_cases:
  "put_object out key cache data b = (r, b') \<Longrightarrow>
     (r = None \<longrightarrow> b' = b(key \<mapsto> \<lparr>ob_data = data, ob_content_type = json_utf8, ob_cache_control = cache\<rparr>)) \<and>
     (b' = b \<or> b' = b(key \<mapsto> \<lparr>ob_data = data, ob_content_type = json_utf8, ob_cache_control = cache\<rparr>))"
  by (auto simp: put_object_def Let_def split: put_outcome.splits if_splits)

interpretation r2_dest: destination "\<lambda>out key data. put_object out key CacheControlLive data"
  object_data "\<lambda>_. True"
  by unfold_locales (auto simp: object_data_def put_object_def Let_def split: put_outcome.splits if_splits)

text \<open>
  A publish to R2 puts the live object and then the history object, each with its own cache
  lifetime. Success stores both; an error stores neither, the live one, or both, in that order, and
  no other object is ever touched.
\<close>

lemma r2_publish_outcome:
  fixes b :: bucket and sn :: snapshot
  assumes "r2_publish enc fmt env sn b = (r, b')"
  defines "live \<equiv> \<lambda>d. \<lparr>ob_data = d, ob_content_type = json_utf8, ob_cache_control = CacheControlLive\<rparr>"
    and "hist \<equiv> \<lambda>d. \<lparr>ob_data = d, ob_content_type = json_utf8, ob_cache_control = CacheControlHistory\<rparr>"
  shows "case r of
      None \<Rightarrow> (\<exists>d. enc sn = Some d \<and> b' = b(SnapshotKey \<mapsto> live d, history_key fmt sn \<mapsto> hist d))
    | Some _ \<Rightarrow> b' = b \<or> (\<exists>d. enc sn = Some d \<and>
        (b' = b(SnapshotKey \<mapsto> live d) \<or> b' = b(SnapshotKey \<mapsto> live d, history_key fmt sn \<mapsto> hist d)))"
proof (cases "enc sn")
  case None
  with assms(1) show ?thesis by (auto simp: r2_publish_def)
next
  case (Some d)
  obtain r1 b1 where p1: "put_object (env 0) SnapshotKey CacheControlLive d b = (r1, b1)" by fastforce
  obtain r2 b2 where p2: "put_object (env (Suc 0)) (history_key fmt sn) CacheControlHistory d b1 = (r2, b2)"
    by fastforce
  from assms(1) Some p1 p2 put_object_cases [OF p1] put_object_cases [OF p2] show ?thesis
    by (cases r1; cases r2) (auto simp: r2_publish_def live_def hist_def)
qed

section \<open>Destinations do not wait for each other\<close>

text \<open>What each publisher answers when all run one after the other, and the world they leave.\<close>

fun publish_answers :: "('s \<Rightarrow> 'w \<Rightarrow> 'e option \<times> 'w) list \<Rightarrow> 's \<Rightarrow> 'w \<Rightarrow> 'e option list" where
  "publish_answers [] s w = []"
| "publish_answers (p # ps) s w = fst (p s w) # publish_answers ps s (snd (p s w))"

lemma multi_loop_eq:
  "multi_loop ps s e w =
     (case e of
        Some e' \<Rightarrow> Some e'
      | None \<Rightarrow> (case List.find (\<lambda>r. r \<noteq> None) (publish_answers ps s w) of Some r \<Rightarrow> r | None \<Rightarrow> None),
      fold (\<lambda>p. snd \<circ> p s) ps w)"
  by (induction ps arbitrary: e w) (auto split: prod.splits option.splits)

text \<open>The two destinations of \<open>main\<close> over one world.\<close>

record dests =
  d_files :: files
  d_bucket :: bucket

definition file_pub ::
  "(snapshot \<Rightarrow> string option) \<Rightarrow> string \<Rightarrow> file_env \<Rightarrow> snapshot \<Rightarrow> dests \<Rightarrow> pub_err option \<times> dests" where
  "file_pub enc dir env s w =
     (case file_publish enc dir env s (d_files w) of (r, fs) \<Rightarrow> (r, w\<lparr>d_files := fs\<rparr>))"

definition r2_pub ::
  "(snapshot \<Rightarrow> string option) \<Rightarrow> (time \<Rightarrow> string) \<Rightarrow> (nat \<Rightarrow> put_outcome) \<Rightarrow> snapshot \<Rightarrow> dests \<Rightarrow>
   pub_err option \<times> dests" where
  "r2_pub enc fmt env s w =
     (case r2_publish enc fmt env s (d_bucket w) of (r, b) \<Rightarrow> (r, w\<lparr>d_bucket := b\<rparr>))"

definition file_state_pub ::
  "(state_snapshot \<Rightarrow> string option) \<Rightarrow> string \<Rightarrow> file_env \<Rightarrow> state_snapshot \<Rightarrow> dests \<Rightarrow> pub_err option \<times> dests" where
  "file_state_pub enc dir env s w =
     (case file_publish_state enc dir env s (d_files w) of (r, fs) \<Rightarrow> (r, w\<lparr>d_files := fs\<rparr>))"

definition r2_state_pub ::
  "(state_snapshot \<Rightarrow> string option) \<Rightarrow> put_outcome \<Rightarrow> state_snapshot \<Rightarrow> dests \<Rightarrow> pub_err option \<times> dests" where
  "r2_state_pub enc out s w =
     (case r2_publish_state enc out s (d_bucket w) of (r, b) \<Rightarrow> (r, w\<lparr>d_bucket := b\<rparr>))"

lemma multi_publish_both:
  "let (r, w') = multi_publish [file_pub enc dir fenv, r2_pub enc fmt renv] sn w;
       (rf, fs') = file_publish enc dir fenv sn (d_files w);
       (rb, b') = r2_publish enc fmt renv sn (d_bucket w)
   in w' = w\<lparr>d_files := fs', d_bucket := b'\<rparr> \<and> r = (if rf = None then rb else rf) \<and>
      (r = None \<longleftrightarrow> rf = None \<and> rb = None \<and>
         (\<exists>data. enc sn = Some data \<and> fs' (join_path dir SnapshotKey) = Some data \<and>
            b' = (d_bucket w)(SnapshotKey \<mapsto> \<lparr>ob_data = data, ob_content_type = json_utf8, ob_cache_control = CacheControlLive\<rparr>,
                     history_key fmt sn \<mapsto> \<lparr>ob_data = data, ob_content_type = json_utf8, ob_cache_control = CacheControlHistory\<rparr>)))"
proof -
  obtain rf fs' where f: "file_publish enc dir fenv sn (d_files w) = (rf, fs')" by fastforce
  obtain rb b' where b: "r2_publish enc fmt renv sn (d_bucket w) = (rb, b')" by fastforce
  have m: "multi_publish [file_pub enc dir fenv, r2_pub enc fmt renv] sn w =
      (if rf = None then rb else rf, w\<lparr>d_files := fs', d_bucket := b'\<rparr>)"
    by (auto simp: multi_publish_def multi_loop_eq file_pub_def r2_pub_def f b)
  have k: "file_key_ok SnapshotKey" by code_simp
  have "rf = None \<Longrightarrow> fs' (join_path dir SnapshotKey) = enc sn"
    using file_put_cases(1) [OF f [unfolded file_publish_def] k k] by simp
  then show ?thesis
    using r2_publish_outcome [OF b] by (auto simp: m f b split: option.splits)
qed

text \<open>
  No destination holds another one back. Whatever the file publisher answers, R2 is written as
  if it ran alone, and the other way round; the error is the first one in order, and there is none
  exactly when both destinations show the snapshot that was encoded, R2 under its live and its
  history key.
\<close>

theorem multi_publish_independent:
  "let (r, w') = multi_publish [file_pub enc dir fenv, r2_pub enc fmt renv] sn w;
       (rf, fs') = file_publish enc dir fenv sn (d_files w);
       (rb, b') = r2_publish enc fmt renv sn (d_bucket w)
   in w' = w\<lparr>d_files := fs', d_bucket := b'\<rparr> \<and> r = (if rf = None then rb else rf) \<and>
      (r = None \<longleftrightarrow> rf = None \<and> rb = None \<and>
         (\<exists>data. enc sn = Some data \<and> fs' (join_path dir SnapshotKey) = Some data \<and>
            b' = (d_bucket w)(SnapshotKey \<mapsto> \<lparr>ob_data = data, ob_content_type = json_utf8, ob_cache_control = CacheControlLive\<rparr>,
                     history_key fmt sn \<mapsto> \<lparr>ob_data = data, ob_content_type = json_utf8, ob_cache_control = CacheControlHistory\<rparr>)))"
  by (rule multi_publish_both)

end
