(* ===== verification/Health.thy ===== *)
theory Health
  imports Config Go_Strings
begin

text \<open>
  The health registry and the \<open>/healthz\<close> handler of \<open>internal/health\<close>. The registry's methods
  accept a nil receiver; a registry pointer is therefore a \<open>registry option\<close>. Each method runs
  under the registry's lock, so a method is one atomic step.
\<close>

section \<open>The registry\<close>

datatype feed = FeedAlerts | FeedSPCTorn | FeedSPCHail | FeedSPCWind | FeedPublish

fun feed_name :: "feed \<Rightarrow> string" where
  "feed_name FeedAlerts = ''alerts''"
| "feed_name FeedSPCTorn = ''spc_tornado''"
| "feed_name FeedSPCHail = ''spc_hail''"
| "feed_name FeedSPCWind = ''spc_wind''"
| "feed_name FeedPublish = ''publish''"

record registry =
  last_ok :: "feed \<Rightarrow> time option"
  publishFailures :: "string \<Rightarrow> nat option"

definition new_registry :: "registry option" where
  "new_registry = Some \<lparr>last_ok = Map.empty, publishFailures = Map.empty\<rparr>"

definition record_success :: "feed \<Rightarrow> time \<Rightarrow> registry option \<Rightarrow> registry option" where
  "record_success f t r =
     (case r of None \<Rightarrow> None | Some reg \<Rightarrow> Some (reg\<lparr>last_ok := (last_ok reg)(f \<mapsto> t)\<rparr>))"

definition last_success :: "registry option \<Rightarrow> feed \<Rightarrow> time option" where
  "last_success r f = (case r of None \<Rightarrow> None | Some reg \<Rightarrow> last_ok reg f)"

text \<open>\<open>publishFailures[state]++\<close>: a missing key counts as zero.\<close>

definition record_publish_put_failure :: "string \<Rightarrow> registry option \<Rightarrow> registry option" where
  "record_publish_put_failure state r =
     (case r of None \<Rightarrow> None
      | Some reg \<Rightarrow>
          let n = (case publishFailures reg state of None \<Rightarrow> 0 | Some k \<Rightarrow> k)
          in Some (reg\<lparr>publishFailures := (publishFailures reg)(state \<mapsto> n + 1)\<rparr>))"

definition reset_publish_failures :: "registry option \<Rightarrow> registry option" where
  "reset_publish_failures r =
     (case r of None \<Rightarrow> None | Some reg \<Rightarrow> Some (reg\<lparr>publishFailures := Map.empty\<rparr>))"

definition publish_put_failures :: "registry option \<Rightarrow> string \<Rightarrow> nat option" where
  "publish_put_failures r = (case r of None \<Rightarrow> Map.empty | Some reg \<Rightarrow> publishFailures reg)"

definition required_feeds :: "bool \<Rightarrow> bool \<Rightarrow> feed list" where
  "required_feeds shouldIngest shouldPublish =
     (let feeds = [];
          feeds = (if shouldIngest
                   then feeds @ [FeedAlerts, FeedSPCTorn, FeedSPCHail, FeedSPCWind] else feeds);
          feeds = (if shouldPublish then feeds @ [FeedPublish] else feeds)
      in feeds)"

section \<open>The handler\<close>

record stale_feed =
  sf_feed :: string
  sf_last_success :: string
  sf_never_succeeded :: bool

record health_response =
  hr_status :: string
  hr_stale_feeds :: "stale_feed list"

fun stale_loop ::
  "(time \<Rightarrow> string) \<Rightarrow> registry option \<Rightarrow> time \<Rightarrow> feed list \<Rightarrow> stale_feed list" where
  "stale_loop fmt reg cutoff [] = []"
| "stale_loop fmt reg cutoff (f # fs) =
     (case last_success reg f of
        None \<Rightarrow>
          \<lparr>sf_feed = feed_name f, sf_last_success = '''', sf_never_succeeded = True\<rparr>
            # stale_loop fmt reg cutoff fs
      | Some t \<Rightarrow>
          if t < cutoff
          then \<lparr>sf_feed = feed_name f, sf_last_success = fmt t, sf_never_succeeded = False\<rparr>
                 # stale_loop fmt reg cutoff fs
          else stale_loop fmt reg cutoff fs)"

text \<open>
  The response to a request read at the instant \<open>now\<close>: the HTTP status and the JSON body.
  \<open>fmt\<close> formats an instant as RFC 3339.
\<close>

definition new_handler ::
  "(time \<Rightarrow> string) \<Rightarrow> registry option \<Rightarrow> feed list \<Rightarrow> duration \<Rightarrow> time \<Rightarrow> nat \<times> health_response" where
  "new_handler fmt reg feeds maxAge now =
     (let cutoff = now + wrap64 (- maxAge);
          stale = stale_loop fmt reg cutoff feeds
      in if stale = [] then (200, \<lparr>hr_status = ''ok'', hr_stale_feeds = []\<rparr>)
         else (503, \<lparr>hr_status = ''stale'', hr_stale_feeds = stale\<rparr>))"

section \<open>An event log behind an interface\<close>

text \<open>
  What the poller and the handler rely on: a success is remembered for its feed until the next
  one, a put failure adds one to its state, a reset forgets the failures, and neither touches
  the other's half.
\<close>

locale health_log =
  fixes record_ok :: "'f \<Rightarrow> time \<Rightarrow> 'r \<Rightarrow> 'r"
    and last :: "'r \<Rightarrow> 'f \<Rightarrow> time option"
    and put_failed :: "'s \<Rightarrow> 'r \<Rightarrow> 'r"
    and reset :: "'r \<Rightarrow> 'r"
    and failures :: "'r \<Rightarrow> 's \<Rightarrow> nat"
    and live :: "'r \<Rightarrow> bool"
  assumes last_record: "live r \<Longrightarrow> last (record_ok f t r) g = (if g = f then Some t else last r g)"
    and last_put_failed: "last (put_failed s r) g = last r g"
    and last_reset: "last (reset r) g = last r g"
    and failures_record: "failures (record_ok f t r) s = failures r s"
    and failures_put: "live r \<Longrightarrow> failures (put_failed s r) s' = failures r s' + (if s' = s then 1 else 0)"
    and failures_reset: "failures (reset r) s = 0"
    and live_record: "live r \<Longrightarrow> live (record_ok f t r)"
    and live_put: "live r \<Longrightarrow> live (put_failed s r)"
    and live_reset: "live r \<Longrightarrow> live (reset r)"
begin

lemma live_puts: "live r \<Longrightarrow> live (fold put_failed ss r)"
  by (induction ss arbitrary: r) (auto intro: live_put)

lemma failures_puts: "live r \<Longrightarrow> failures (fold put_failed ss r) s = failures r s + count_list ss s"
  by (induction ss arbitrary: r) (auto simp: failures_put live_put)

lemma last_puts: "last (fold put_failed ss r) f = last r f"
  by (induction ss arbitrary: r) (auto simp: last_put_failed)

text \<open>After a reset the counters hold exactly the failures recorded since, in any order.\<close>

lemma failures_since_reset:
  "live r \<Longrightarrow> failures (fold put_failed ss (reset r)) s = count_list ss s"
  by (simp add: failures_puts live_reset failures_reset)

lemma failures_order:
  assumes "live r" and "\<And>s. count_list ss s = count_list ss' s"
  shows "failures (fold put_failed ss r) = failures (fold put_failed ss' r)"
  using assms by (simp add: failures_puts fun_eq_iff)

lemma last_records:
  "live r \<Longrightarrow> last (fold (\<lambda>(f, t). record_ok f t) es r) f =
     (case map_of (rev es) f of None \<Rightarrow> last r f | Some t \<Rightarrow> Some t)"
proof (induction es arbitrary: r)
  case Nil
  then show ?case by simp
next
  case (Cons e es)
  then show ?case
    by (cases e) (auto simp: last_record live_record map_add_def split: option.splits)
qed

end

definition put_failure_count :: "registry option \<Rightarrow> string \<Rightarrow> nat" where
  "put_failure_count r s = (case publish_put_failures r s of None \<Rightarrow> 0 | Some n \<Rightarrow> n)"

interpretation reg_log: health_log record_success last_success record_publish_put_failure
  reset_publish_failures put_failure_count "\<lambda>r. r \<noteq> None"
  by unfold_locales
    (auto simp: record_success_def last_success_def record_publish_put_failure_def
      reset_publish_failures_def put_failure_count_def publish_put_failures_def Let_def
      split: option.splits)

section \<open>The handler's verdict\<close>

lemma stale_loop_filter:
  "map sf_feed (stale_loop fmt reg cutoff fs) =
     map feed_name (filter (\<lambda>f. case last_success reg f of None \<Rightarrow> True | Some t \<Rightarrow> t < cutoff) fs)"
  by (induction fs) (auto split: option.splits)

lemma stale_loop_Nil:
  "stale_loop fmt reg cutoff fs = [] \<longleftrightarrow>
     (\<forall>f \<in> set fs. \<exists>t. last_success reg f = Some t \<and> cutoff \<le> t)"
  by (induction fs) (auto split: option.splits)

lemma new_handler_status:
  "fst (new_handler fmt reg fs maxAge now) =
     (if \<forall>f \<in> set fs. \<exists>t. last_success reg f = Some t \<and> now + wrap64 (- maxAge) \<le> t then 200 else 503)"
  by (simp add: new_handler_def Let_def stale_loop_Nil)

lemma feed_name_inj: "feed_name f = feed_name g \<longleftrightarrow> f = g"
  by (cases f; cases g) simp_all

lemma stale_loop_mem:
  "s \<in> set (stale_loop fmt reg cutoff fs) \<Longrightarrow>
     \<exists>f \<in> set fs. sf_feed s = feed_name f \<and> (sf_never_succeeded s \<longleftrightarrow> last_success reg f = None)"
  by (induction fs) (auto split: option.splits if_splits)

lemma stale_loop_never:
  "s \<in> set (stale_loop fmt reg cutoff fs) \<Longrightarrow> sf_never_succeeded s \<longleftrightarrow>
     (\<exists>f \<in> set fs. feed_name f = sf_feed s \<and> last_success reg f = None)"
  using stale_loop_mem [of s fmt reg cutoff fs] by (auto simp: feed_name_inj)

section \<open>Properties\<close>

text \<open>
  The verdict is exact. The handler answers 200 exactly when every required feed succeeded
  within the last \<open>maxAge\<close>, and a 503 lists, in order, exactly the required feeds that are stale or
  never succeeded, the latter marked as such.
\<close>

theorem new_handler_verdict:
  assumes "in_int64 maxAge" and "0 \<le> maxAge"
  shows "(fst (new_handler fmt reg fs maxAge now) = 200 \<longleftrightarrow>
      (\<forall>f \<in> set fs. \<exists>t. last_success reg f = Some t \<and> now \<le> t + maxAge)) \<and>
    (fst (new_handler fmt reg fs maxAge now) \<noteq> 200 \<longrightarrow> fst (new_handler fmt reg fs maxAge now) = 503) \<and>
    map sf_feed (hr_stale_feeds (snd (new_handler fmt reg fs maxAge now))) =
      map feed_name (filter (\<lambda>f. case last_success reg f of None \<Rightarrow> True | Some t \<Rightarrow> t + maxAge < now) fs) \<and>
    (\<forall>s \<in> set (hr_stale_feeds (snd (new_handler fmt reg fs maxAge now))). sf_never_succeeded s \<longleftrightarrow>
      (\<exists>f \<in> set fs. feed_name f = sf_feed s \<and> last_success reg f = None))"
proof -
  have w: "wrap64 (- maxAge) = - maxAge" using assms by (intro wrap64_id) (simp add: in_int64_def)
  have "(\<lambda>f. case last_success reg f of None \<Rightarrow> True | Some t \<Rightarrow> t < now - maxAge) =
      (\<lambda>f. case last_success reg f of None \<Rightarrow> True | Some t \<Rightarrow> t + maxAge < now)"
    by (auto simp: fun_eq_iff split: option.splits)
  moreover have "hr_stale_feeds (snd (new_handler fmt reg fs maxAge now)) = stale_loop fmt reg (now - maxAge) fs"
    by (simp add: new_handler_def Let_def w)
  ultimately show ?thesis
    using stale_loop_never [of _ fmt reg "now - maxAge" fs]
    by (auto simp: new_handler_status w stale_loop_filter algebra_simps)
qed

definition sample_registry :: "registry option" where
  "sample_registry = record_success FeedAlerts 100 (record_success FeedPublish 20 new_registry)"

theorem new_handler_verdict_witness:
  "fst (new_handler (\<lambda>t. ''t'') sample_registry [FeedAlerts, FeedSPCTorn, FeedPublish] 30 110) = 503 \<and>
    map sf_feed (hr_stale_feeds (snd (new_handler (\<lambda>t. ''t'') sample_registry
        [FeedAlerts, FeedSPCTorn, FeedPublish] 30 110))) = [''spc_tornado'', ''publish'']"
proof -
  have "last_success sample_registry FeedAlerts = Some 100" "last_success sample_registry FeedSPCTorn = None"
    "last_success sample_registry FeedPublish = Some 20" by code_simp+
  then show ?thesis
    using new_handler_verdict [of 30 "\<lambda>t. ''t''" sample_registry "[FeedAlerts, FeedSPCTorn, FeedPublish]" 110]
    by (simp add: in_int64_def)
qed

end
