(* ===== verification/Mode.thy ===== *)
theory Mode
  imports Go_Strings
begin

text \<open>
  The fleet role of a process (\<open>internal/poller/mode.go\<close>), the decision whether a cycle may
  send its heartbeat (\<open>internal/poller/heartbeat.go\<close>) and the guard that refuses an implicit
  role on Fly (\<open>cmd/ingest/main.go\<close>). A mode is a string, as in the source: the zero value
  is the empty string and behaves as \<open>ModeBoth\<close>.
\<close>

section \<open>Modes\<close>

type_synonym mode = string

definition ModeBoth :: mode where "ModeBoth = ''both''"
definition ModeIngest :: mode where "ModeIngest = ''ingest''"
definition ModePublish :: mode where "ModePublish = ''publish''"

datatype mode_error = InvalidMode string | ModeRequired string

definition parse_mode :: "string \<Rightarrow> mode_error + mode" where
  "parse_mode raw =
     (let m = to_lower (trim_space raw)
      in if m = '''' \<or> m = ModeBoth then Inr ModeBoth
         else if m = ModeIngest then Inr ModeIngest
         else if m = ModePublish then Inr ModePublish
         else Inl (InvalidMode raw))"

definition should_ingest :: "mode \<Rightarrow> bool" where
  "should_ingest m \<longleftrightarrow> m = '''' \<or> m = ModeBoth \<or> m = ModeIngest"

definition should_publish :: "mode \<Rightarrow> bool" where
  "should_publish m \<longleftrightarrow> m = '''' \<or> m = ModeBoth \<or> m = ModePublish"

definition require_explicit_mode_on_fly :: "string \<Rightarrow> string \<Rightarrow> mode_error option" where
  "require_explicit_mode_on_fly flyAppName rawMode =
     (if flyAppName = '''' then None
      else if trim_space rawMode \<noteq> '''' then None
      else Some (ModeRequired flyAppName))"

section \<open>Heartbeat gating\<close>

definition should_heartbeat :: "mode \<Rightarrow> bool \<Rightarrow> bool \<Rightarrow> bool" where
  "should_heartbeat m alertsOK mergedPublishOK =
     (let ok = True;
          ok = (if should_ingest m then ok \<and> alertsOK else ok);
          ok = (if should_publish m then ok \<and> mergedPublishOK else ok)
      in ok)"

lemmas mode_defs = ModeBoth_def ModeIngest_def ModePublish_def

lemma parse_mode_cases:
  "parse_mode raw = Inr m \<Longrightarrow> m = ModeBoth \<or> m = ModeIngest \<or> m = ModePublish"
  by (auto simp: parse_mode_def Let_def split: if_splits)

lemma should_heartbeat_iff:
  "should_heartbeat m a p \<longleftrightarrow> (should_ingest m \<longrightarrow> a) \<and> (should_publish m \<longrightarrow> p)"
  by (simp add: should_heartbeat_def Let_def)

lemma should_modes [simp]:
  "should_ingest ModeBoth" "should_publish ModeBoth"
  "should_ingest ModeIngest" "\<not> should_publish ModeIngest"
  "\<not> should_ingest ModePublish" "should_publish ModePublish"
  "should_ingest ''''" "should_publish ''''"
  by (simp_all add: should_ingest_def should_publish_def mode_defs)

text \<open>A role read from the environment runs at least one phase, and only "both" runs two.\<close>

lemma parse_mode_phases:
  "parse_mode raw = Inr m \<Longrightarrow>
     (should_ingest m \<or> should_publish m) \<and> (should_ingest m \<and> should_publish m \<longleftrightarrow> m = ModeBoth)"
  by (drule parse_mode_cases) (auto simp: mode_defs should_ingest_def should_publish_def)

section \<open>Properties\<close>

text \<open>
  A role read from the environment is one of the three, runs at least one phase, and runs both
  phases only when it was left blank or spelled "both": a mistyped publisher or ingester is an
  error, never a node that publishes and ingests.
\<close>

theorem parse_mode_roles:
  assumes "parse_mode raw = Inr m"
  shows "(should_ingest m \<or> should_publish m) \<and>
    (should_ingest m \<and> should_publish m \<longleftrightarrow> to_lower (trim_space raw) \<in> {'''', ''both''}) \<and>
    (should_ingest m \<and> \<not> should_publish m \<longleftrightarrow> to_lower (trim_space raw) = ''ingest'') \<and>
    (\<not> should_ingest m \<and> should_publish m \<longleftrightarrow> to_lower (trim_space raw) = ''publish'')"
  using assms by (auto simp: parse_mode_def Let_def mode_defs should_ingest_def should_publish_def split: if_splits)

theorem parse_mode_roles_witness:
  "(should_ingest ''publish'' \<or> should_publish ''publish'') \<and>
    (should_ingest ''publish'' \<and> should_publish ''publish'' \<longleftrightarrow> to_lower (trim_space '' Publish '') \<in> {'''', ''both''}) \<and>
    (should_ingest ''publish'' \<and> \<not> should_publish ''publish'' \<longleftrightarrow> to_lower (trim_space '' Publish '') = ''ingest'') \<and>
    (\<not> should_ingest ''publish'' \<and> should_publish ''publish'' \<longleftrightarrow> to_lower (trim_space '' Publish '') = ''publish'')"
proof (rule parse_mode_roles)
  show "parse_mode '' Publish '' = Inr ''publish''" by code_simp
qed

text \<open>
  On Fly no node takes the role "both" by default. When the guard lets a process start under a
  Fly app name and its role is both phases, the environment spelled that role out.
\<close>

theorem fly_node_role_is_explicit:
  assumes "flyAppName \<noteq> ''''" and "require_explicit_mode_on_fly flyAppName raw = None"
    and "parse_mode raw = Inr m" and "should_ingest m" and "should_publish m"
  shows "to_lower (trim_space raw) = ''both''"
proof -
  have "trim_space raw \<noteq> ''''"
    using assms(1,2) by (auto simp: require_explicit_mode_on_fly_def split: if_splits)
  then have "to_lower (trim_space raw) \<noteq> ''''" by (simp add: to_lower_Nil)
  with assms(3-5) show ?thesis
    by (auto simp: parse_mode_def Let_def mode_defs should_ingest_def should_publish_def split: if_splits)
qed

theorem fly_node_role_is_explicit_witness: "to_lower (trim_space '' BOTH'') = ''both''"
proof (rule fly_node_role_is_explicit)
  show "''seestorm'' \<noteq> ''''" by simp
  show "require_explicit_mode_on_fly ''seestorm'' '' BOTH'' = None" by code_simp
  show "parse_mode '' BOTH'' = Inr ModeBoth" by code_simp
qed simp_all

end
