(* ===== verification/Budget.thy ===== *)
theory Budget
  imports Retry Mode
begin

text \<open>
  How \<open>internal/poller/poller.go\<close> apportions the time of a cycle: the cycle timeout, its split into
  two phases, the share of the remaining time a fetch may use, and the startup jitter. A context is
  its deadline; \<open>context.WithTimeout\<close> takes the earlier of the parent's and its own.
\<close>

section \<open>Contexts\<close>

definition with_deadline :: "time option \<Rightarrow> time \<Rightarrow> time option" where
  "with_deadline ctx dl = (case ctx of None \<Rightarrow> Some dl | Some d \<Rightarrow> Some (min d dl))"

definition with_timeout :: "time option \<Rightarrow> time \<Rightarrow> duration \<Rightarrow> time option" where
  "with_timeout ctx now d = with_deadline ctx (now + d)"

text \<open>\<open>time.Until\<close>: the difference of two instants saturates at the ends of the range.\<close>

definition until :: "time \<Rightarrow> time \<Rightarrow> duration" where
  "until dl now = max (- (2 ^ 63)) (min (2 ^ 63 - 1) (dl - now))"

section \<open>The budgets of a cycle\<close>

definition cycleSlack :: duration where [config_defs]: "cycleSlack = 5 * second"
definition cycleFloor :: duration where [config_defs]: "cycleFloor = 1 * second"

definition derive_cycle_timeout :: "duration \<Rightarrow> duration" where
  "derive_cycle_timeout interval =
     (let ceiling = PollCycleTimeoutSec * second;
          derived = wrap64 (interval - cycleSlack);
          derived = (if derived > ceiling then ceiling else derived);
          derived = (if derived < cycleFloor then cycleFloor else derived)
      in derived)"

definition split_cycle_budget :: "duration \<Rightarrow> duration \<times> duration" where
  "split_cycle_budget cycleTimeout =
     (let phaseFloor = second;
          publishBudget = PublishPhaseBudgetSec * second;
          maxPublish = wrap64 (cycleTimeout - phaseFloor);
          publishBudget = (if publishBudget > maxPublish then maxPublish else publishBudget);
          publishBudget = (if publishBudget < phaseFloor then phaseFloor else publishBudget);
          fetchStoreBudget = wrap64 (cycleTimeout - publishBudget);
          fetchStoreBudget = (if fetchStoreBudget < phaseFloor then phaseFloor else fetchStoreBudget)
      in (fetchStoreBudget, publishBudget))"

text \<open>\<open>now\<close> and \<open>now'\<close> are the two readings of the clock, by \<open>time.Until\<close> and by \<open>WithTimeout\<close>.\<close>

definition with_budget_fraction :: "time option \<Rightarrow> time \<Rightarrow> time \<Rightarrow> int \<Rightarrow> time option" where
  "with_budget_fraction ctx now now' pct =
     (case ctx of
        None \<Rightarrow> None
      | Some dl \<Rightarrow>
          (let remaining = until dl now
           in if remaining \<le> 0 then with_deadline ctx dl
              else let capped = wrap64 (remaining * pct) sdiv 100
                   in with_timeout ctx now' capped))"

definition startup_jitter :: "(int \<Rightarrow> int) \<Rightarrow> duration \<Rightarrow> duration" where
  "startup_jitter rand interval = (if interval \<le> 0 then 0 else rand interval)"

definition poller_startup_jitter ::
  "(duration \<Rightarrow> duration) option \<Rightarrow> (int \<Rightarrow> int) \<Rightarrow> mode \<Rightarrow> duration \<Rightarrow> duration" where
  "poller_startup_jitter jitterFunc rand m interval =
     (if \<not> should_ingest m then 0
      else case jitterFunc of Some f \<Rightarrow> f interval | None \<Rightarrow> startup_jitter rand interval)"

section \<open>Bounds\<close>

lemma derive_cycle_timeout_eq:
  "0 \<le> i \<Longrightarrow> in_int64 i \<Longrightarrow> derive_cycle_timeout i = max second (min (25 * second) (i - 5 * second))"
  by (simp add: derive_cycle_timeout_def Let_def config_defs in_int64_def)

lemma split_cycle_budget_eq:
  "second \<le> t \<Longrightarrow> t \<le> 25 * second \<Longrightarrow> split_cycle_budget t =
     (max second (t - max second (min (15 * second) (t - second))), max second (min (15 * second) (t - second)))"
  by (auto simp: split_cycle_budget_def Let_def config_defs max_def min_def)

text \<open>The split keeps its sum from two seconds on; below, each phase gets the floor.\<close>

lemma split_cycle_budget_sum:
  "split_cycle_budget t = (f, p) \<Longrightarrow> second \<le> t \<Longrightarrow> t \<le> 25 * second \<Longrightarrow>
     second \<le> f \<and> second \<le> p \<and> p \<le> 15 * second \<and> f \<le> 10 * second \<and> f + p = max t (2 * second)"
  by (auto simp: split_cycle_budget_eq config_defs max_def min_def)

text \<open>
  C39: the budgets of a cycle. Every phase has at least a second and publishing at most fifteen; the
  two phases fill the cycle timeout exactly for intervals of seven seconds and more, and together
  they end before the next tick for every interval above two seconds. The cycle timeout is below
  the interval only for intervals above one second.
\<close>

theorem cycle_budgets:
  assumes "0 \<le> interval" and "in_int64 interval"
  shows "case split_cycle_budget (derive_cycle_timeout interval) of (fetchStore, publish) \<Rightarrow>
      second \<le> fetchStore \<and> second \<le> publish \<and> fetchStore \<le> 10 * second \<and> publish \<le> 15 * second \<and>
      (fetchStore + publish = derive_cycle_timeout interval \<longleftrightarrow> 7 * second \<le> interval) \<and>
      (fetchStore + publish < interval \<longleftrightarrow> 2 * second < interval) \<and>
      (derive_cycle_timeout interval < interval \<longleftrightarrow> second < interval)"
proof -
  let ?t = "derive_cycle_timeout interval"
  note t = derive_cycle_timeout_eq [OF assms]
  obtain f p where s: "split_cycle_budget ?t = (f, p)" by fastforce
  have "second \<le> ?t" "?t \<le> 25 * second" by (simp_all add: t config_defs)
  note b = split_cycle_budget_sum [OF s this]
  have "?t < interval \<longleftrightarrow> second < interval" by (auto simp: t config_defs)
  moreover have "f + p = ?t \<longleftrightarrow> 7 * second \<le> interval" using b by (auto simp: t config_defs)
  moreover have "f + p < interval \<longleftrightarrow> 2 * second < interval" using b by (auto simp: t config_defs)
  ultimately show ?thesis using b s by simp
qed

theorem cycle_budgets_witness:
  "split_cycle_budget (derive_cycle_timeout (30 * second)) = (10 * second, 15 * second) \<and>
    derive_cycle_timeout (30 * second) < 30 * second"
proof -
  have "split_cycle_budget (derive_cycle_timeout (30 * second)) = (10 * second, 15 * second)" by code_simp
  moreover have "0 \<le> 30 * second" "in_int64 (30 * second)" by (simp_all add: config_defs in_int64_def)
  note cycle_budgets [OF this]
  ultimately show ?thesis by (simp add: config_defs)
qed

lemma with_timeout_le: "with_timeout (Some dl) now d = Some dl' \<Longrightarrow> dl' \<le> dl \<and> dl' \<le> now + d"
  by (auto simp: with_timeout_def with_deadline_def)

lemma wrap64_share:
  assumes "0 \<le> r" "0 \<le> pct" "pct \<le> 100" "r \<le> 92233720368547758"
  shows "wrap64 (r * pct) sdiv 100 = r * pct div 100"
proof -
  have lo: "0 \<le> r * pct" and hi: "r * pct \<le> r * 100" using assms by (auto intro: mult_left_mono)
  have "wrap64 (r * pct) = r * pct"
    by (rule wrap64_small) (use lo hi assms(4) in linarith)+
  with lo show ?thesis by (simp add: signed_divide_int_def sgn_if)
qed

text \<open>
  A fetch gets its share of what is left and never more. Its deadline is not after the phase's;
  when the share is taken at the instant \<open>now\<close> with time left, the rest of the phase's time is left
  for the calls that follow; and an exhausted phase stays exhausted.
\<close>

theorem with_budget_fraction_share:
  assumes "now \<le> now'" and "0 \<le> pct" and "pct \<le> 100" and "dl - now \<le> 92233720368547758"
  shows "\<exists>dl'. with_budget_fraction (Some dl) now now' pct = Some dl' \<and> dl' \<le> dl \<and>
    (dl \<le> now \<or> dl - dl' \<ge> (dl - now) * (100 - pct) div 100 - (now' - now)) \<and>
    dl' = (if dl \<le> now then dl else min dl (now' + (dl - now) * pct div 100))"
proof (cases "dl \<le> now")
  case True
  then show ?thesis by (auto simp: with_budget_fraction_def until_def with_deadline_def Let_def)
next
  case False
  define r where "r = dl - now"
  have r: "0 < r" "dl = now + r" "until dl now = r" using False assms(4) by (auto simp: r_def until_def)
  have s: "wrap64 (r * pct) sdiv 100 = r * pct div 100"
    by (rule wrap64_share) (use r assms in auto)
  have "r * pct div 100 + r * (100 - pct) div 100 \<le> r" by (simp add: right_diff_distrib)
  then have "r * (100 - pct) div 100 \<le> r - r * pct div 100" by linarith
  moreover have "with_budget_fraction (Some dl) now now' pct = Some (min dl (now' + r * pct div 100))"
    using r(1) s by (simp add: with_budget_fraction_def with_timeout_def with_deadline_def r(3))
  moreover have "dl - now = r" by (simp add: r_def)
  ultimately show ?thesis using False r by (auto simp: min_def)
qed

theorem with_budget_fraction_share_witness:
  "with_budget_fraction (Some (10 * second)) 0 0 AlertsFetchBudgetPercent = Some (5 * second)"
  using with_budget_fraction_share [of 0 0 AlertsFetchBudgetPercent "10 * second"]
  by (simp add: config_defs)

lemma startup_jitter_bounds:
  "rand_ok rand \<Longrightarrow> 0 \<le> startup_jitter rand i \<and> (startup_jitter rand i < i \<or> i \<le> 0 \<and> startup_jitter rand i = 0)"
  by (auto simp: startup_jitter_def rand_ok_def)

end
