(* ===== verification/Publish_Put.thy ===== *)
theory Publish_Put
  imports Budget Publisher
begin

text \<open>
  One publish with its retry: \<open>attemptPublish\<close> and \<open>publishWithRetry\<close> of
  \<open>internal/poller/poller.go\<close>. A call of a publisher returns or panics; the environment of an
  attempt says when it starts, when it has failed, and whether the parent was cancelled meanwhile.
\<close>

section \<open>Attempts\<close>

record put_env =
  pe_now :: time                        \<comment> \<open>the clock when the attempt's context is made\<close>
  pe_after :: time                      \<comment> \<open>the clock when the pause begins\<close>
  pe_canceled :: bool                   \<comment> \<open>the parent is cancelled before the pause is over\<close>

definition publishPutTimeout :: duration where
  [config_defs]: "publishPutTimeout = PerPublishPutTimeoutSec * second"
definition publishRetryDelay :: duration where
  [config_defs]: "publishRetryDelay = PublishPutRetryDelayMs * millisecond"

text \<open>The \<open>select\<close> between the end of the parent and the timer of the pause.\<close>

definition parent_ends :: "time option \<Rightarrow> duration \<Rightarrow> put_env \<Rightarrow> ctx_err option" where
  "parent_ends parent retryDelay env =
     (if pe_canceled env then Some Canceled
      else case parent of
        None \<Rightarrow> None
      | Some dl \<Rightarrow> if dl < pe_after env + retryDelay then Some DeadlineExceeded else None)"

datatype progress = Finished "pub_err option call" | Again pub_err

text \<open>An iteration of the loop: a call under its own deadline, and after a failure the pause.\<close>

definition attempt_step ::
  "(time option \<Rightarrow> 'w \<Rightarrow> pub_err option call \<times> 'w) \<Rightarrow> time option \<Rightarrow> duration \<Rightarrow> duration \<Rightarrow> put_env \<Rightarrow>
   nat \<Rightarrow> nat \<Rightarrow> 'w \<Rightarrow> progress \<times> 'w" where
  "attempt_step fn parent perAttemptTimeout retryDelay env maxAttempts attempt w =
     (case fn (with_timeout parent (pe_now env) perAttemptTimeout) w of
        (Panics m, w') \<Rightarrow> (Finished (Panics m), w')
      | (Returns None, w') \<Rightarrow> (Finished (Returns None), w')
      | (Returns (Some err), w') \<Rightarrow>
          if attempt = maxAttempts - 1 then (Finished (Returns (Some err)), w')
          else (case parent_ends parent retryDelay env of
                  Some c \<Rightarrow> (Finished (Returns (Some (PubCtxErr c))), w')
                | None \<Rightarrow> (Again err, w')))"

function attempt_loop ::
  "(nat \<Rightarrow> time option \<Rightarrow> 'w \<Rightarrow> pub_err option call \<times> 'w) \<Rightarrow> time option \<Rightarrow> duration \<Rightarrow> duration \<Rightarrow>
   (nat \<Rightarrow> put_env) \<Rightarrow> nat \<Rightarrow> nat \<Rightarrow> pub_err option \<Rightarrow> 'w \<Rightarrow> pub_err option call \<times> 'w" where
  "attempt_loop fn parent perAttemptTimeout retryDelay env maxAttempts attempt lastErr w =
     (if attempt < maxAttempts
      then (case attempt_step (fn attempt) parent perAttemptTimeout retryDelay (env attempt)
                   maxAttempts attempt w of
              (Finished r, w') \<Rightarrow> (r, w')
            | (Again err, w') \<Rightarrow>
                attempt_loop fn parent perAttemptTimeout retryDelay env maxAttempts (attempt + 1)
                  (Some err) w')
      else (Returns lastErr, w))"
  by pat_completeness auto
termination
  by (relation "measure (\<lambda>(fn, p, t, d, env, m, i, e, w). m - i)") auto

declare attempt_loop.simps [simp del]

definition attempt_publish ::
  "time option \<Rightarrow> (nat \<Rightarrow> time option \<Rightarrow> 'w \<Rightarrow> pub_err option call \<times> 'w) \<Rightarrow> nat \<Rightarrow> duration \<Rightarrow> duration \<Rightarrow>
   (nat \<Rightarrow> put_env) \<Rightarrow> 'w \<Rightarrow> pub_err option call \<times> 'w" where
  "attempt_publish parent fn maxAttempts perAttemptTimeout retryDelay env w =
     attempt_loop fn parent perAttemptTimeout retryDelay env maxAttempts 0 None w"

definition publish_with_retry ::
  "time option \<Rightarrow> (nat \<Rightarrow> time option \<Rightarrow> 'w \<Rightarrow> pub_err option call \<times> 'w) \<Rightarrow> (nat \<Rightarrow> put_env) \<Rightarrow> 'w \<Rightarrow>
   bool call \<times> 'w" where
  "publish_with_retry parent fn env w =
     (case attempt_publish parent fn (PublishPutMaxRetries + 1) publishPutTimeout publishRetryDelay env w of
        (Panics m, w') \<Rightarrow> (Panics m, w')
      | (Returns lastErr, w') \<Rightarrow> (Returns (lastErr = None), w'))"

section \<open>What the attempts come to\<close>

text \<open>The world before the call of each attempt.\<close>

fun world_at ::
  "(nat \<Rightarrow> time option \<Rightarrow> 'w \<Rightarrow> pub_err option call \<times> 'w) \<Rightarrow> time option \<Rightarrow> duration \<Rightarrow> (nat \<Rightarrow> put_env) \<Rightarrow>
   'w \<Rightarrow> nat \<Rightarrow> 'w" where
  "world_at fn parent t env w 0 = w"
| "world_at fn parent t env w (Suc k) =
     snd (fn k (with_timeout parent (pe_now (env k)) t) (world_at fn parent t env w k))"

definition answer_at ::
  "(nat \<Rightarrow> time option \<Rightarrow> 'w \<Rightarrow> pub_err option call \<times> 'w) \<Rightarrow> time option \<Rightarrow> duration \<Rightarrow> (nat \<Rightarrow> put_env) \<Rightarrow>
   'w \<Rightarrow> nat \<Rightarrow> pub_err option call" where
  "answer_at fn parent t env w k =
     fst (fn k (with_timeout parent (pe_now (env k)) t) (world_at fn parent t env w k))"

definition failed_call :: "pub_err option call \<Rightarrow> bool" where
  "failed_call r \<longleftrightarrow> (\<exists>e. r = Returns (Some e))"

definition pause_over :: "time option \<Rightarrow> duration \<Rightarrow> put_env \<Rightarrow> bool" where
  "pause_over parent d env \<longleftrightarrow> parent_ends parent d env = None"

lemma attempt_step_cases:
  fixes fn :: "time option \<Rightarrow> 'w \<Rightarrow> pub_err option call \<times> 'w"
  assumes "fn (with_timeout parent (pe_now env) t) w = (r, w')"
  shows "attempt_step fn parent t d env m i w =
    (if failed_call r \<and> i \<noteq> m - 1 \<and> pause_over parent d env then (Again (case r of Returns (Some e) \<Rightarrow> e), w')
     else (Finished (if failed_call r \<and> i \<noteq> m - 1
                     then Returns (Some (PubCtxErr (the (parent_ends parent d env)))) else r), w'))"
  using assms by (auto simp: attempt_step_def failed_call_def pause_over_def split: call.splits option.splits)

lemma attempt_loop_ends:
  "i < m \<Longrightarrow> w = world_at fn parent t env w0 i \<Longrightarrow>
     \<exists>k. i \<le> k \<and> k < m \<and>
       (\<forall>j. i \<le> j \<and> j < k \<longrightarrow> failed_call (answer_at fn parent t env w0 j) \<and> pause_over parent d (env j)) \<and>
       attempt_loop fn parent t d env m i e w =
         ((if failed_call (answer_at fn parent t env w0 k) \<and> k \<noteq> m - 1
           then Returns (Some (PubCtxErr (the (parent_ends parent d (env k)))))
           else answer_at fn parent t env w0 k), world_at fn parent t env w0 (Suc k)) \<and>
       \<not> (failed_call (answer_at fn parent t env w0 k) \<and> k \<noteq> m - 1 \<and> pause_over parent d (env k))"
proof (induction "m - i" arbitrary: i e w)
  case 0
  then show ?case by simp
next
  case (Suc n)
  let ?a = "answer_at fn parent t env w0" and ?w = "world_at fn parent t env w0"
  have "fn i (with_timeout parent (pe_now (env i)) t) w = (?a i, ?w (Suc i))"
    by (simp add: answer_at_def Suc.prems(2))
  note step = attempt_step_cases [of "fn i", OF this, of d m i]
  note loop = attempt_loop.simps [of fn parent t d env m i e w]
  show ?case
  proof (cases "failed_call (?a i) \<and> i \<noteq> m - 1 \<and> pause_over parent d (env i)")
    case False
    then show ?thesis using Suc.prems(1) step by (intro exI [of _ i]) (auto simp: loop)
  next
    case True
    then have "n = m - Suc i" "Suc i < m" using Suc.hyps(2) Suc.prems(1) by auto
    from Suc.hyps(1) [OF this refl, of "Some (case ?a i of Returns (Some e) \<Rightarrow> e)"] obtain k where k: "Suc i \<le> k" "k < m"
      "\<forall>j. Suc i \<le> j \<and> j < k \<longrightarrow> failed_call (?a j) \<and> pause_over parent d (env j)"
      "attempt_loop fn parent t d env m (Suc i) (Some (case ?a i of Returns (Some e) \<Rightarrow> e)) (?w (Suc i)) =
        ((if failed_call (?a k) \<and> k \<noteq> m - 1
          then Returns (Some (PubCtxErr (the (parent_ends parent d (env k))))) else ?a k), ?w (Suc k))"
      "\<not> (failed_call (?a k) \<and> k \<noteq> m - 1 \<and> pause_over parent d (env k))" by blast
    moreover have "attempt_loop fn parent t d env m i e w =
        attempt_loop fn parent t d env m (Suc i) (Some (case ?a i of Returns (Some e) \<Rightarrow> e)) (?w (Suc i))"
      using True Suc.prems(1) step by (simp add: loop)
    moreover have "failed_call (?a j) \<and> pause_over parent d (env j)" if "i \<le> j" "j < k" for j
      using True k(3) that by (cases "j = i") auto
    ultimately show ?thesis by (intro exI [of _ k]) auto
  qed
qed

text \<open>A pause is over when the parent was neither cancelled in it nor past its deadline at its end.\<close>

lemma pause_over_iff:
  "pause_over parent d env \<longleftrightarrow>
     \<not> pe_canceled env \<and> (case parent of None \<Rightarrow> True | Some dl \<Rightarrow> pe_after env + d \<le> dl)"
  by (auto simp: pause_over_def parent_ends_def split: option.splits)

lemma attempt_publish_ends:
  assumes "0 < m"
  obtains k where "k < m"
    "\<forall>j < k. failed_call (answer_at fn parent t env w j) \<and> pause_over parent d (env j)"
    "\<not> (failed_call (answer_at fn parent t env w k) \<and> k \<noteq> m - 1 \<and> pause_over parent d (env k))"
    "attempt_publish parent fn m t d env w =
       ((if failed_call (answer_at fn parent t env w k) \<and> k \<noteq> m - 1
         then Returns (Some (PubCtxErr (the (parent_ends parent d (env k)))))
         else answer_at fn parent t env w k), world_at fn parent t env w (Suc k))"
  using attempt_loop_ends [of 0 m w fn parent t env w d None] assms
  unfolding attempt_publish_def by auto

text \<open>
  C36: a publish is tried at most twice, and a success is never lost or invented. Some call \<open>k\<close> is
  the last one; every earlier one returned an error and was followed by a pause in which the parent
  was not cancelled and that ended before the parent's deadline. The put counts as done exactly when
  the last call succeeded, a panic passes through, and it counts as failed exactly when the last call
  returned an error and either no retry was left or the parent was cancelled in the pause or ended
  before it was over.
\<close>

theorem publish_with_retry_contract:
  "\<exists>k \<le> PublishPutMaxRetries.
    (\<forall>j < k. failed_call (answer_at fn parent publishPutTimeout env w j) \<and> \<not> pe_canceled (env j) \<and>
       (case parent of None \<Rightarrow> True | Some dl \<Rightarrow> pe_after (env j) + publishRetryDelay \<le> dl)) \<and>
    snd (publish_with_retry parent fn env w) = world_at fn parent publishPutTimeout env w (Suc k) \<and>
    (fst (publish_with_retry parent fn env w) = Returns True \<longleftrightarrow> answer_at fn parent publishPutTimeout env w k = Returns None) \<and>
    (fst (publish_with_retry parent fn env w) = Returns False \<longleftrightarrow>
       failed_call (answer_at fn parent publishPutTimeout env w k) \<and>
       (k = PublishPutMaxRetries \<or> pe_canceled (env k) \<or>
        (\<exists>dl. parent = Some dl \<and> dl < pe_after (env k) + publishRetryDelay))) \<and>
    (\<forall>m. fst (publish_with_retry parent fn env w) = Panics m \<longleftrightarrow> answer_at fn parent publishPutTimeout env w k = Panics m)"
proof -
  let ?a = "answer_at fn parent publishPutTimeout env w"
  have "0 < PublishPutMaxRetries + 1" by simp
  from attempt_publish_ends [OF this, of fn parent publishPutTimeout env w publishRetryDelay]
  obtain k where k: "k < PublishPutMaxRetries + 1"
    "\<forall>j < k. failed_call (?a j) \<and> pause_over parent publishRetryDelay (env j)"
    "\<not> (failed_call (?a k) \<and> k \<noteq> PublishPutMaxRetries \<and> pause_over parent publishRetryDelay (env k))"
    "attempt_publish parent fn (PublishPutMaxRetries + 1) publishPutTimeout publishRetryDelay env w =
       ((if failed_call (?a k) \<and> k \<noteq> PublishPutMaxRetries
         then Returns (Some (PubCtxErr (the (parent_ends parent publishRetryDelay (env k)))))
         else ?a k), world_at fn parent publishPutTimeout env w (Suc k))"
    by (metis add_diff_cancel_right')
  have over: "pause_over parent publishRetryDelay (env k) \<longleftrightarrow>
      \<not> (pe_canceled (env k) \<or> (\<exists>dl. parent = Some dl \<and> dl < pe_after (env k) + publishRetryDelay))"
    by (auto simp: pause_over_iff split: option.splits)
  have "\<forall>j < k. failed_call (?a j) \<and> \<not> pe_canceled (env j) \<and>
      (case parent of None \<Rightarrow> True | Some dl \<Rightarrow> pe_after (env j) + publishRetryDelay \<le> dl)"
    using k(2) by (simp add: pause_over_iff)
  with k(1,3,4) show ?thesis
    unfolding over
    by (intro exI [of _ k]) (auto simp: publish_with_retry_def failed_call_def split: call.splits)
qed

definition sample_put_env :: "nat \<Rightarrow> put_env" where
  "sample_put_env i = \<lparr>pe_now = int i * second, pe_after = int i * second + 10, pe_canceled = False\<rparr>"

text \<open>A put that fails once and then succeeds.\<close>

definition sample_put :: "nat \<Rightarrow> time option \<Rightarrow> nat \<Rightarrow> pub_err option call \<times> nat" where
  "sample_put i ctx n = (Returns (if i = 0 then Some RenameErr else None), n + 1)"

theorem publish_with_retry_contract_witness:
  "publish_with_retry (Some (15 * second)) sample_put sample_put_env 0 = (Returns True, 2) \<and>
    (\<exists>k \<le> PublishPutMaxRetries.
       world_at sample_put (Some (15 * second)) publishPutTimeout sample_put_env 0 (Suc k) = 2)"
proof -
  have "publish_with_retry (Some (15 * second)) sample_put sample_put_env 0 = (Returns True, 2)" by code_simp
  with publish_with_retry_contract [of sample_put "Some (15 * second)" sample_put_env 0] show ?thesis
    by (auto simp del: world_at.simps)
qed

end
