(* ===== verification/Fanout.thy ===== *)
theory Fanout
  imports Publish_Put Health
begin

text \<open>
  The per-state fan-out of \<open>publishPerStateSnapshots\<close>: one goroutine per area, at most
  \<open>PublishConcurrency\<close> of them at a time, each with its own retry. The main goroutine starts them
  in order and waits for a free slot before each; a step is a start or an action of one goroutine,
  and any order of steps is a run. A call and the pause after it are one action: the pause touches
  nothing that is shared.
\<close>

section \<open>State and steps\<close>

definition filter_alerts_by_state :: "active_alert list \<Rightarrow> string \<Rightarrow> active_alert list" where
  "filter_alerts_by_state alerts state = filter (\<lambda>a. state \<in> set (aa_States a)) alerts"

text \<open>
  Where a goroutine is: in its \<open>k\<close>-th call, about to record a failure, about to give its slot back,
  or gone. The flag is the outcome of its put.
\<close>

datatype phase = Calling nat | Failed | Leaving bool | Gone bool

fun is_gone :: "phase \<Rightarrow> bool" where
  "is_gone (Gone ok) = True"
| "is_gone _ = False"

record 'w fan =
  fan_phases :: "phase list"
  fan_health :: "registry option"
  fan_world :: 'w

type_synonym ('e, 'w) state_publisher =
  "'e \<Rightarrow> time option \<Rightarrow> state_snapshot \<Rightarrow> 'w \<Rightarrow> pub_err option call \<times> 'w"

datatype 'e choice = Spawn | Act nat put_env 'e

definition fan_running :: "'w fan \<Rightarrow> nat" where
  "fan_running st = length (filter (\<lambda>p. \<not> is_gone p) (fan_phases st))"

definition fan_start :: "registry option \<Rightarrow> 'w \<Rightarrow> 'w fan" where
  "fan_start h w = \<lparr>fan_phases = [], fan_health = h, fan_world = w\<rparr>"

definition fan_done :: "string list \<Rightarrow> 'w fan \<Rightarrow> bool" where
  "fan_done areas st \<longleftrightarrow> length (fan_phases st) = length areas \<and> list_all is_gone (fan_phases st)"

definition fan_act ::
  "('e, 'w) state_publisher \<Rightarrow> (string \<Rightarrow> state_snapshot) \<Rightarrow> time option \<Rightarrow> string list \<Rightarrow> nat \<Rightarrow> put_env \<Rightarrow> 'e \<Rightarrow>
   'w fan \<Rightarrow> 'w fan option" where
  "fan_act pub snap parent areas i pe e st =
     (if i \<ge> length (fan_phases st) then None
      else case fan_phases st ! i of
        Calling k \<Rightarrow>
          (case attempt_step (\<lambda>ctx. pub e ctx (snap (areas ! i))) parent publishPutTimeout publishRetryDelay
                  pe (PublishPutMaxRetries + 1) k (fan_world st) of
             (Again _, w) \<Rightarrow> Some (st\<lparr>fan_phases := (fan_phases st)[i := Calling (k + 1)], fan_world := w\<rparr>)
           | (Finished (Returns None), w) \<Rightarrow>
               Some (st\<lparr>fan_phases := (fan_phases st)[i := Leaving True], fan_world := w\<rparr>)
           | (Finished _, w) \<Rightarrow> Some (st\<lparr>fan_phases := (fan_phases st)[i := Failed], fan_world := w\<rparr>))
      | Failed \<Rightarrow>
          Some (st\<lparr>fan_phases := (fan_phases st)[i := Leaving False],
                   fan_health := record_publish_put_failure (areas ! i) (fan_health st)\<rparr>)
      | Leaving ok \<Rightarrow> Some (st\<lparr>fan_phases := (fan_phases st)[i := Gone ok]\<rparr>)
      | Gone _ \<Rightarrow> None)"

definition fan_step ::
  "('e, 'w) state_publisher \<Rightarrow> (string \<Rightarrow> state_snapshot) \<Rightarrow> time option \<Rightarrow> string list \<Rightarrow> 'e choice \<Rightarrow>
   'w fan \<Rightarrow> 'w fan option" where
  "fan_step pub snap parent areas c st =
     (case c of
        Spawn \<Rightarrow>
          if length (fan_phases st) < length areas \<and> fan_running st < PublishConcurrency
          then Some (st\<lparr>fan_phases := fan_phases st @ [Calling 0]\<rparr>) else None
      | Act i pe e \<Rightarrow> fan_act pub snap parent areas i pe e st)"

fun fan_run ::
  "('e, 'w) state_publisher \<Rightarrow> (string \<Rightarrow> state_snapshot) \<Rightarrow> time option \<Rightarrow> string list \<Rightarrow> 'e choice list \<Rightarrow>
   'w fan \<Rightarrow> 'w fan option" where
  "fan_run pub snap parent areas [] st = Some st"
| "fan_run pub snap parent areas (c # cs) st =
     (case fan_step pub snap parent areas c st of
        None \<Rightarrow> None
      | Some st' \<Rightarrow> fan_run pub snap parent areas cs st')"

text \<open>
  The whole fan-out under a scheduler that names the goroutine to act, with what its action meets.
  A goroutine that cannot act is replaced by a start, and when there is none by the first that can.
\<close>

definition first_running :: "'w fan \<Rightarrow> nat" where
  "first_running st = length (takeWhile is_gone (fan_phases st))"

definition pick :: "string list \<Rightarrow> nat \<times> put_env \<times> 'e \<Rightarrow> 'w fan \<Rightarrow> 'e choice" where
  "pick areas wish st =
     (case wish of (i, pe, e) \<Rightarrow>
        if i < length (fan_phases st) \<and> \<not> is_gone (fan_phases st ! i) then Act i pe e
        else if length (fan_phases st) < length areas \<and> fan_running st < PublishConcurrency then Spawn
        else Act (first_running st) pe e)"

fun fan_all ::
  "nat \<Rightarrow> ('e, 'w) state_publisher \<Rightarrow> (string \<Rightarrow> state_snapshot) \<Rightarrow> time option \<Rightarrow> string list \<Rightarrow>
   ('w fan \<Rightarrow> nat \<times> put_env \<times> 'e) \<Rightarrow> 'w fan \<Rightarrow> 'w fan" where
  "fan_all 0 pub snap parent areas sched st = st"
| "fan_all (Suc n) pub snap parent areas sched st =
     (case fan_step pub snap parent areas (pick areas (sched st) st) st of
        None \<Rightarrow> st
      | Some st' \<Rightarrow> fan_all n pub snap parent areas sched st')"

text \<open>No goroutine takes more than five actions, its start included.\<close>

definition fan_fuel :: "string list \<Rightarrow> nat" where
  "fan_fuel areas = (PublishPutMaxRetries + 4) * length areas"

definition publish_per_state ::
  "('e, 'w) state_publisher \<Rightarrow> time option \<Rightarrow> string list \<Rightarrow> active_alert list \<Rightarrow> time \<Rightarrow>
   ('w fan \<Rightarrow> nat \<times> put_env \<times> 'e) \<Rightarrow> registry option \<times> 'w \<Rightarrow> registry option \<times> 'w" where
  "publish_per_state pub parent areas alerts generatedAt sched hw =
     (let st = fan_all (fan_fuel areas) pub
                 (\<lambda>state. new_state_snapshot state (filter_alerts_by_state alerts state) generatedAt)
                 parent areas sched (fan_start (fst hw) (snd hw))
      in (fan_health st, fan_world st))"

section \<open>What a step does to a goroutine\<close>

inductive phase_step :: "phase \<Rightarrow> phase \<Rightarrow> bool" where
  again: "k \<noteq> PublishPutMaxRetries \<Longrightarrow> phase_step (Calling k) (Calling (Suc k))"
| succeed: "phase_step (Calling k) (Leaving True)"
| fail: "phase_step (Calling k) Failed"
| recorded: "phase_step Failed (Leaving False)"
| leave: "phase_step (Leaving ok) (Gone ok)"

inductive_simps phase_step_simps [simp]:
  "phase_step (Calling k) p" "phase_step Failed p" "phase_step (Leaving ok) p" "phase_step (Gone ok) p"

lemma fan_act_cases:
  assumes "fan_act pub snap parent areas i pe e st = Some st'"
  shows "i < length (fan_phases st)" "phase_step (fan_phases st ! i) (fan_phases st' ! i)"
    "fan_phases st' = (fan_phases st)[i := fan_phases st' ! i]"
    "fan_health st' = (if fan_phases st ! i = Failed
       then record_publish_put_failure (areas ! i) (fan_health st) else fan_health st)"
    "fan_world st' = (case fan_phases st ! i of
       Calling k \<Rightarrow> snd (pub e (with_timeout parent (pe_now pe) publishPutTimeout) (snap (areas ! i)) (fan_world st))
     | _ \<Rightarrow> fan_world st)"
    "fan_phases st ! i = Calling k \<Longrightarrow> fan_phases st' ! i = Leaving True \<Longrightarrow>
       fst (pub e (with_timeout parent (pe_now pe) publishPutTimeout) (snap (areas ! i)) (fan_world st)) = Returns None"
  using assms
  by (auto simp: fan_act_def attempt_step_def phase_step.simps
      split: if_splits phase.splits prod.splits call.splits option.splits)

section \<open>Every run ends\<close>

inductive fan_reach ::
  "('e, 'w) state_publisher \<Rightarrow> (string \<Rightarrow> state_snapshot) \<Rightarrow> time option \<Rightarrow> string list \<Rightarrow>
   registry option \<Rightarrow> 'w \<Rightarrow> 'w fan \<Rightarrow> bool"
  for pub snap parent areas h w where
  start: "fan_reach pub snap parent areas h w (fan_start h w)"
| step: "fan_reach pub snap parent areas h w st \<Longrightarrow> fan_step pub snap parent areas c st = Some st' \<Longrightarrow>
    fan_reach pub snap parent areas h w st'"

lemma fan_run_reach:
  "fan_reach pub snap parent areas h w st \<Longrightarrow> fan_run pub snap parent areas cs st = Some st' \<Longrightarrow>
     fan_reach pub snap parent areas h w st'"
  by (induction cs arbitrary: st) (auto split: option.splits intro: fan_reach.step)

lemma fan_all_reach:
  "fan_reach pub snap parent areas h w st \<Longrightarrow> fan_reach pub snap parent areas h w (fan_all n pub snap parent areas sched st)"
  by (induction n arbitrary: st) (auto split: option.splits intro: fan_reach.step)

text \<open>What no put changes the fan-out does not change.\<close>

lemma fan_reach_frame:
  assumes "fan_reach pub snap parent areas h w st" and "\<And>e ctx s v. g (snd (pub e ctx s v)) = g v"
  shows "g (fan_world st) = g w"
  using assms(1)
proof (induction rule: fan_reach.induct)
  case start
  show ?case by (simp add: fan_start_def)
next
  case (step st c st')
  have "g (fan_world st') = g (fan_world st)"
  proof (cases c)
    case Spawn
    with step.hyps(2) show ?thesis by (auto simp: fan_step_def split: if_splits)
  next
    case (Act i pe e)
    with step.hyps(2) have "fan_act pub snap parent areas i pe e st = Some st'" by (simp add: fan_step_def)
    from fan_act_cases(5) [OF this] assms(2) show ?thesis by (simp split: phase.splits)
  qed
  with step.IH show ?case by simp
qed

text \<open>The actions a goroutine has left, and those of the whole fan-out.\<close>

fun phase_rank :: "phase \<Rightarrow> nat" where
  "phase_rank (Calling k) = PublishPutMaxRetries + 3 - k"
| "phase_rank Failed = 2"
| "phase_rank (Leaving ok) = 1"
| "phase_rank (Gone ok) = 0"

definition phase_ok :: "phase \<Rightarrow> bool" where
  "phase_ok p \<longleftrightarrow> (case p of Calling k \<Rightarrow> k \<le> PublishPutMaxRetries | _ \<Rightarrow> True)"

definition fan_left :: "string list \<Rightarrow> 'w fan \<Rightarrow> nat" where
  "fan_left areas st =
     (PublishPutMaxRetries + 4) * (length areas - length (fan_phases st)) + sum_list (map phase_rank (fan_phases st))"

lemma phase_step_less: "phase_step p p' \<Longrightarrow> phase_ok p \<Longrightarrow> phase_rank p' < phase_rank p"
  by (cases p) (auto simp: phase_ok_def)

lemma phase_step_ok: "phase_step p p' \<Longrightarrow> phase_ok p \<Longrightarrow> phase_ok p'"
  by (cases p) (auto simp: phase_ok_def)

lemma phase_step_gone: "phase_step p p' \<Longrightarrow> \<not> is_gone p"
  by (cases p) auto

definition fan_inv :: "string list \<Rightarrow> 'w fan \<Rightarrow> bool" where
  "fan_inv areas st \<longleftrightarrow> length (fan_phases st) \<le> length areas \<and> fan_running st \<le> PublishConcurrency \<and>
     list_all phase_ok (fan_phases st)"

lemma filter_update_le:
  "i < length xs \<Longrightarrow> P (xs ! i) \<Longrightarrow> length (filter P (xs[i := y])) \<le> length (filter P xs)"
  by (induction xs arbitrary: i) (auto split: nat.splits)

lemma fan_step_inv:
  assumes "fan_step pub snap parent areas c st = Some st'" and "fan_inv areas st"
  shows "fan_inv areas st'"
proof (cases c)
  case Spawn
  with assms show ?thesis
    by (auto simp: fan_step_def fan_inv_def fan_running_def phase_ok_def split: if_splits)
next
  case (Act i pe e)
  with assms(1) have "fan_act pub snap parent areas i pe e st = Some st'" by (simp add: fan_step_def)
  note c = fan_act_cases [OF this]
  have "fan_running st' \<le> fan_running st"
    unfolding fan_running_def using c(3) filter_update_le [OF c(1), of "\<lambda>p. \<not> is_gone p"] phase_step_gone [OF c(2)]
    by metis
  moreover have "list_all phase_ok (fan_phases st')"
    using assms(2) c(1,2) unfolding fan_inv_def
    by (subst c(3)) (auto simp: list_all_iff dest!: set_update_subset_insert [THEN subsetD] intro: phase_step_ok)
  moreover have "length (fan_phases st') = length (fan_phases st)" by (subst c(3)) simp
  ultimately show ?thesis using assms(2) by (simp add: fan_inv_def)
qed

lemma sum_list_update_less:
  fixes f :: "'a \<Rightarrow> nat"
  shows "i < length xs \<Longrightarrow> f y < f (xs ! i) \<Longrightarrow> sum_list (map f (xs[i := y])) < sum_list (map f xs)"
  by (induction xs arbitrary: i) (auto split: nat.splits)

lemma fan_step_left:
  assumes "fan_step pub snap parent areas c st = Some st'" and "fan_inv areas st"
  shows "fan_left areas st' < fan_left areas st"
proof (cases c)
  case Spawn
  with assms have l: "length (fan_phases st) < length areas" "fan_phases st' = fan_phases st @ [Calling 0]"
    by (auto simp: fan_step_def split: if_splits)
  then have "length areas - length (fan_phases st) = Suc (length areas - Suc (length (fan_phases st)))" by simp
  with l show ?thesis by (simp add: fan_left_def)
next
  case (Act i pe e)
  with assms(1) have "fan_act pub snap parent areas i pe e st = Some st'" by (simp add: fan_step_def)
  note c = fan_act_cases [OF this]
  have "phase_ok (fan_phases st ! i)" using assms(2) c(1) by (simp add: fan_inv_def list_all_length)
  then have "sum_list (map phase_rank (fan_phases st')) < sum_list (map phase_rank (fan_phases st))"
    using sum_list_update_less [OF c(1) phase_step_less [OF c(2)]] c(3) by simp
  moreover have "length (fan_phases st') = length (fan_phases st)" by (subst c(3)) simp
  ultimately show ?thesis by (simp add: fan_left_def)
qed

lemma fan_act_enabled:
  "i < length (fan_phases st) \<Longrightarrow> \<not> is_gone (fan_phases st ! i) \<Longrightarrow> fan_act pub snap parent areas i pe e st \<noteq> None"
  by (auto simp: fan_act_def split: phase.splits prod.splits progress.splits call.splits option.splits)

lemma fan_running_0: "fan_running st = 0 \<longleftrightarrow> list_all is_gone (fan_phases st)"
  by (auto simp: fan_running_def filter_empty_conv list_all_iff)

text \<open>The scheduler's pick can always act until the fan-out is done.\<close>

lemma pick_enabled:
  assumes "fan_inv areas st" and "\<not> fan_done areas st"
  shows "fan_step pub snap parent areas (pick areas wish st) st \<noteq> None"
proof -
  obtain i pe e where wish: "wish = (i, pe, e)" by (cases wish)
  show ?thesis
  proof (cases "i < length (fan_phases st) \<and> \<not> is_gone (fan_phases st ! i) \<or>
      length (fan_phases st) < length areas \<and> fan_running st < PublishConcurrency")
    case True
    then show ?thesis using fan_act_enabled by (auto simp: pick_def wish fan_step_def)
  next
    case False
    have "\<not> list_all is_gone (fan_phases st)"
    proof
      assume all: "list_all is_gone (fan_phases st)"
      then have "fan_running st < PublishConcurrency" by (simp add: fan_running_0 [THEN iffD2] config_defs)
      with False all assms show False by (auto simp: fan_done_def fan_inv_def)
    qed
    then have "takeWhile is_gone (fan_phases st) \<noteq> fan_phases st"
      by (auto simp: takeWhile_eq_all_conv list_all_iff)
    then have "length (takeWhile is_gone (fan_phases st)) < length (fan_phases st)"
      by (metis append_Nil2 length_takeWhile_le nat_less_le take_all_iff takeWhile_eq_take)
    then have "first_running st < length (fan_phases st)" "\<not> is_gone (fan_phases st ! first_running st)"
      unfolding first_running_def by (auto dest: nth_length_takeWhile)
    with False show ?thesis using fan_act_enabled by (auto simp: pick_def wish fan_step_def)
  qed
qed

lemma fan_done_stuck:
  assumes "fan_done areas st"
  shows "fan_step pub snap parent areas c st = None"
proof (cases c)
  case Spawn
  with assms show ?thesis by (auto simp: fan_step_def fan_done_def)
next
  case (Act i pe e)
  show ?thesis
  proof (rule ccontr)
    assume "fan_step pub snap parent areas c st \<noteq> None"
    with Act obtain st' where "fan_act pub snap parent areas i pe e st = Some st'" by (auto simp: fan_step_def)
    note c = fan_act_cases [OF this]
    with assms phase_step_gone [OF c(2)] show False by (simp add: fan_done_def list_all_length)
  qed
qed

lemma fan_start_inv: "fan_inv areas (fan_start h w)"
  by (simp add: fan_inv_def fan_start_def fan_running_def)

lemma fan_reach_inv: "fan_reach pub snap parent areas h w st \<Longrightarrow> fan_inv areas st"
  by (induction rule: fan_reach.induct) (auto intro: fan_start_inv fan_step_inv)

lemma fan_all_done:
  "fan_inv areas st \<Longrightarrow> fan_left areas st \<le> n \<Longrightarrow> fan_done areas (fan_all n pub snap parent areas sched st)"
proof (induction n arbitrary: st)
  case 0
  have "fan_done areas st"
  proof (rule ccontr)
    assume "\<not> fan_done areas st"
    then obtain st' where "fan_step pub snap parent areas (pick areas (sched st) st) st = Some st'"
      using pick_enabled [OF 0(1)] by blast
    from fan_step_left [OF this 0(1)] 0(2) show False by simp
  qed
  then show ?case by simp
next
  case (Suc n)
  show ?case
  proof (cases "fan_step pub snap parent areas (pick areas (sched st) st) st")
    case None
    then have "fan_done areas st" using pick_enabled [OF Suc.prems(1)] by blast
    with None show ?thesis by simp
  next
    case (Some st')
    have "fan_left areas st' \<le> n" using fan_step_left [OF Some Suc.prems(1)] Suc.prems(2) by simp
    with Some Suc.IH fan_step_inv [OF Some Suc.prems(1)] show ?thesis by simp
  qed
qed

lemma fan_run_length:
  "fan_inv areas st \<Longrightarrow> fan_run pub snap parent areas cs st = Some st' \<Longrightarrow>
     length cs + fan_left areas st' \<le> fan_left areas st"
proof (induction cs arbitrary: st)
  case Nil
  then show ?case by simp
next
  case (Cons c cs)
  then obtain st1 where st1: "fan_step pub snap parent areas c st = Some st1" "fan_run pub snap parent areas cs st1 = Some st'"
    by (auto split: option.splits)
  from Cons.IH [OF fan_step_inv [OF st1(1) Cons.prems(1)] st1(2)] fan_step_left [OF st1(1) Cons.prems(1)]
  show ?case by simp
qed

lemma fan_left_start: "fan_left areas (fan_start h w) = fan_fuel areas"
  by (simp add: fan_left_def fan_start_def fan_fuel_def)

text \<open>The fan-out of a cycle is such a run to its end.\<close>

lemma publish_per_state_reach:
  assumes "publish_per_state pub parent areas alerts t sched (h, w) = (h', w')"
  obtains st where
    "fan_reach pub (\<lambda>state. new_state_snapshot state (filter_alerts_by_state alerts state) t) parent areas h w st"
    "fan_done areas st" "h' = fan_health st" "w' = fan_world st"
proof -
  let ?st = "fan_all (fan_fuel areas) pub (\<lambda>state. new_state_snapshot state (filter_alerts_by_state alerts state) t)
    parent areas sched (fan_start h w)"
  show thesis
  proof (rule that)
    show "h' = fan_health ?st" "w' = fan_world ?st" using assms by (simp_all add: publish_per_state_def Let_def)
    show "fan_done areas ?st" by (rule fan_all_done [OF fan_start_inv]) (simp add: fan_left_start)
  qed (rule fan_all_reach [OF fan_reach.start])
qed

text \<open>
  C13: the fan-out always ends. No run, whatever the order of its steps and whatever the puts answer,
  takes more than five actions per area; as long as some goroutine is not gone some step can be
  taken, so the wait for the goroutines cannot block for ever; and once all are gone nothing moves.
\<close>

theorem fanout_always_finishes:
  assumes "fan_run pub snap parent areas cs (fan_start h w) = Some st"
  shows "length cs \<le> 5 * length areas \<and>
    (fan_done areas st \<longleftrightarrow> (\<forall>c. fan_step pub snap parent areas c st = None)) \<and>
    (\<forall>sched. fan_done areas (fan_all (5 * length areas) pub snap parent areas sched st))"
proof -
  have fuel: "fan_fuel areas = 5 * length areas" by (simp add: fan_fuel_def config_defs)
  have inv: "fan_inv areas st" using fan_run_reach [OF fan_reach.start assms] by (rule fan_reach_inv)
  have len: "length cs + fan_left areas st \<le> 5 * length areas"
    using fan_run_length [OF fan_start_inv assms] by (simp add: fan_left_start fuel)
  have "fan_done areas st \<longleftrightarrow> (\<forall>c. fan_step pub snap parent areas c st = None)"
    using fan_done_stuck pick_enabled [OF inv] by blast
  moreover have "fan_done areas (fan_all (5 * length areas) pub snap parent areas sched st)" for sched
    using len by (intro fan_all_done [OF inv]) simp
  ultimately show ?thesis using len by simp
qed

definition sample_state_pub :: "(bool, nat) state_publisher" where
  "sample_state_pub ok ctx s n = (Returns (if ok then None else Some RenameErr), n + 1)"

definition sample_snap :: "string \<Rightarrow> state_snapshot" where
  "sample_snap state = new_state_snapshot state [] 0"

definition sample_pe :: put_env where
  "sample_pe = \<lparr>pe_now = 0, pe_after = 10, pe_canceled = False\<rparr>"

text \<open>Two areas whose goroutines interleave: the first fails twice, the second succeeds.\<close>

definition sample_choices :: "bool choice list" where
  "sample_choices =
     [Spawn, Spawn, Act 0 sample_pe False, Act 1 sample_pe True, Act 0 sample_pe False, Act 1 sample_pe True,
      Act 0 sample_pe False, Act 0 sample_pe False]"

definition sample_fan :: "nat fan option" where
  "sample_fan = fan_run sample_state_pub sample_snap None [''OK'', ''TX''] sample_choices (fan_start new_registry 0)"

lemma sample_fan_end: "map_option fan_phases sample_fan = Some [Gone False, Gone True]"
  by code_simp

theorem fanout_always_finishes_witness: "length sample_choices \<le> 10"
proof -
  obtain st where "sample_fan = Some st" using sample_fan_end by auto
  from fanout_always_finishes [OF this [unfolded sample_fan_def]] show ?thesis by simp
qed

section \<open>Slots and counters\<close>

text \<open>The failures recorded so far for a state.\<close>

definition recorded :: "phase \<Rightarrow> bool" where
  "recorded p \<longleftrightarrow> p = Leaving False \<or> p = Gone False"

definition fan_failures :: "string list \<Rightarrow> 'w fan \<Rightarrow> string \<Rightarrow> nat" where
  "fan_failures areas st s = length (filter (\<lambda>(a, p). a = s \<and> recorded p) (zip areas (fan_phases st)))"

lemma filter_zip_update:
  assumes "i < length ps" "length ps \<le> length as" "recorded (ps ! i) = recorded p"
  shows "length (filter (\<lambda>(a, p). a = s \<and> recorded p) (zip as (ps[i := p]))) =
    length (filter (\<lambda>(a, p). a = s \<and> recorded p) (zip as ps))"
  using assms
proof (induction ps arbitrary: i as)
  case Nil
  then show ?case by simp
next
  case (Cons q ps)
  then show ?case by (cases as; cases i) auto
qed

lemma filter_zip_record:
  assumes "i < length ps" "length ps \<le> length as" "\<not> recorded (ps ! i)" "recorded p"
  shows "length (filter (\<lambda>(a, p). a = s \<and> recorded p) (zip as (ps[i := p]))) =
    length (filter (\<lambda>(a, p). a = s \<and> recorded p) (zip as ps)) + (if s = as ! i then 1 else 0)"
  using assms
proof (induction ps arbitrary: i as)
  case Nil
  then show ?case by simp
next
  case (Cons q ps)
  then show ?case by (cases as; cases i) auto
qed

lemma fan_step_counts:
  assumes "fan_step pub snap parent areas c st = Some st'" and "fan_inv areas st" and "fan_health st \<noteq> None"
    and "\<And>s. put_failure_count (fan_health st) s = n s + fan_failures areas st s"
  shows "fan_health st' \<noteq> None \<and> (\<forall>s. put_failure_count (fan_health st') s = n s + fan_failures areas st' s) \<and>
    last_success (fan_health st') = last_success (fan_health st)"
proof (cases c)
  case Spawn
  with assms(1) have l: "length (fan_phases st) < length areas" "fan_phases st' = fan_phases st @ [Calling 0]"
    "fan_health st' = fan_health st"
    by (auto simp: fan_step_def split: if_splits)
  have "zip (take (length (fan_phases st)) areas) (fan_phases st) = zip areas (fan_phases st)"
    by (metis length_zip min.cobounded2 order_refl take_all take_zip)
  then have "zip areas (fan_phases st') = zip areas (fan_phases st) @ [(areas ! length (fan_phases st), Calling 0)]"
    using l(1) by (simp add: l(2) zip_append2 Cons_nth_drop_Suc [symmetric])
  then have "fan_failures areas st' = fan_failures areas st" by (simp add: fan_failures_def fun_eq_iff recorded_def)
  with l assms(3,4) show ?thesis by simp
next
  case (Act i pe e)
  with assms(1) have "fan_act pub snap parent areas i pe e st = Some st'" by (simp add: fan_step_def)
  note c = fan_act_cases [OF this]
  have len: "length (fan_phases st) \<le> length areas" using assms(2) by (simp add: fan_inv_def)
  show ?thesis
  proof (cases "fan_phases st ! i = Failed")
    case True
    then have "\<not> recorded (fan_phases st ! i)" "recorded (fan_phases st' ! i)"
      using c(2) by (simp_all add: recorded_def)
    from filter_zip_record [OF c(1) len this]
    have "fan_failures areas st' s = fan_failures areas st s + (if s = areas ! i then 1 else 0)" for s
      unfolding fan_failures_def by (subst c(3)) auto
    with True c(4) assms(3,4) show ?thesis
      by (auto simp: reg_log.failures_put reg_log.live_put [simplified] reg_log.last_put_failed fun_eq_iff)
  next
    case False
    then have "recorded (fan_phases st ! i) = recorded (fan_phases st' ! i)"
      using c(2) by (auto simp: recorded_def elim: phase_step.cases)
    from filter_zip_update [OF c(1) len this]
    have "fan_failures areas st' = fan_failures areas st"
      unfolding fan_failures_def by (subst c(3)) (auto simp: fun_eq_iff)
    with False c(4) assms(3,4) show ?thesis by simp
  qed
qed

lemma fan_reach_counts:
  "fan_reach pub snap parent areas h w st \<Longrightarrow> h \<noteq> None \<Longrightarrow>
     fan_health st \<noteq> None \<and>
     (\<forall>s. put_failure_count (fan_health st) s = put_failure_count h s + fan_failures areas st s) \<and>
     last_success (fan_health st) = last_success h"
proof (induction rule: fan_reach.induct)
  case start
  then show ?case by (simp add: fan_start_def fan_failures_def)
next
  case (step st c st')
  from step fan_step_counts [OF step.hyps(2) fan_reach_inv [OF step.hyps(1)], of "put_failure_count h"]
  show ?case by simp
qed

lemma fan_failures_distinct:
  assumes "distinct areas" "length ps \<le> length areas"
  shows "length (filter (\<lambda>(a, p). a = s \<and> recorded p) (zip areas ps)) =
    (if \<exists>i < length ps. areas ! i = s \<and> recorded (ps ! i) then 1 else 0)"
  using assms
proof (induction ps arbitrary: areas)
  case Nil
  then show ?case by simp
next
  case (Cons p ps)
  then obtain a as where areas: "areas = a # as" by (cases areas) auto
  have split: "(\<exists>i < length (p # ps). areas ! i = s \<and> recorded ((p # ps) ! i)) \<longleftrightarrow>
      a = s \<and> recorded p \<or> (\<exists>i < length ps. as ! i = s \<and> recorded (ps ! i))"
    unfolding areas by (auto simp: less_Suc_eq_0_disj)
  define E where "E \<longleftrightarrow> (\<exists>i < length ps. as ! i = s \<and> recorded (ps ! i))"
  have "\<not> (a = s \<and> E)" using Cons.prems areas by (auto simp: E_def in_set_conv_nth dest: less_le_trans)
  moreover have "length (filter (\<lambda>(a, p). a = s \<and> recorded p) (zip as ps)) = (if E then 1 else 0)"
    using Cons.IH [of as] Cons.prems by (simp add: E_def areas)
  ultimately show ?case unfolding split E_def [symmetric] by (cases E) (simp_all add: areas)
qed

text \<open>
  C33: at most \<open>PublishConcurrency\<close> puts are in flight at any moment, and the counters read by the
  health check are exact. Between the reset and the end of the fan-out a state's counter is the
  number of its goroutines that have recorded a failure; when all are gone it is one for the states
  whose put failed or panicked and zero for the others. No success time is touched.
\<close>

theorem fanout_slots_and_counters:
  assumes "fan_run pub snap parent areas cs (fan_start (reset_publish_failures h) w) = Some st" and "h \<noteq> None"
  shows "fan_running st \<le> PublishConcurrency \<and>
    (\<forall>s. put_failure_count (fan_health st) s = fan_failures areas st s) \<and>
    last_success (fan_health st) = last_success h \<and>
    (fan_done areas st \<and> distinct areas \<longrightarrow>
      (\<forall>s. put_failure_count (fan_health st) s =
        (if \<exists>i < length areas. areas ! i = s \<and> fan_phases st ! i = Gone False then 1 else 0)))"
proof -
  note reach = fan_run_reach [OF fan_reach.start assms(1)]
  note inv = fan_reach_inv [OF reach]
  have "reset_publish_failures h \<noteq> None" using assms(2) by (rule reg_log.live_reset)
  note c = fan_reach_counts [OF reach this]
  have last: "last_success (reset_publish_failures h) = last_success h"
    by (simp add: fun_eq_iff reg_log.last_reset)
  have cnt: "put_failure_count (fan_health st) s = fan_failures areas st s" for s
    using c by (simp add: reg_log.failures_reset)
  have "put_failure_count (fan_health st) s =
      (if \<exists>i < length areas. areas ! i = s \<and> fan_phases st ! i = Gone False then 1 else 0)"
    if fin: "fan_done areas st" and "distinct areas" for s
  proof -
    have "recorded (fan_phases st ! i) \<longleftrightarrow> fan_phases st ! i = Gone False" if "i < length areas" for i
      using fin that by (cases "fan_phases st ! i") (auto simp: fan_done_def list_all_length recorded_def)
    moreover have "length (fan_phases st) = length areas" using fin by (simp add: fan_done_def)
    ultimately show ?thesis
      using fan_failures_distinct [OF that(2), of "fan_phases st" s] by (auto simp: cnt fan_failures_def)
  qed
  with inv cnt c last show ?thesis by (simp add: fan_inv_def)
qed

theorem fanout_slots_and_counters_witness:
  "\<exists>st. sample_fan = Some st \<and> put_failure_count (fan_health st) ''OK'' = 1 \<and>
    put_failure_count (fan_health st) ''TX'' = 0"
proof -
  obtain st where st: "sample_fan = Some st" "fan_phases st = [Gone False, Gone True]"
    using sample_fan_end by auto
  have "reset_publish_failures new_registry = new_registry"
    by (simp add: reset_publish_failures_def new_registry_def)
  with st(1) have "fan_run sample_state_pub sample_snap None [''OK'', ''TX''] sample_choices
      (fan_start (reset_publish_failures new_registry) 0) = Some st"
    by (simp add: sample_fan_def)
  note c = fanout_slots_and_counters [OF this]
  have "fan_done [''OK'', ''TX''] st \<and> distinct [''OK'', ''TX'']" by (simp add: fan_done_def st(2))
  with c have "put_failure_count (fan_health st) s =
      (if \<exists>i < length [''OK'', ''TX'']. [''OK'', ''TX''] ! i = s \<and> fan_phases st ! i = Gone False then 1 else 0)" for s
    unfolding new_registry_def by blast
  then have "put_failure_count (fan_health st) s = (if s = ''OK'' then 1 else 0)" for s
    by (simp add: st(2) Ex_less_Suc)
  with st(1) show ?thesis by (intro exI [of _ st]) simp
qed

section \<open>Goroutines write next to each other\<close>

text \<open>
  What a fan-out needs of the destination: a put shows its document under its own state when it
  succeeds, that or the old one otherwise, and leaves every other state alone.
\<close>

locale state_puts =
  fixes pub :: "('e, 'w) state_publisher"
    and shown :: "'w \<Rightarrow> string \<Rightarrow> 'd option"
    and doc :: "state_snapshot \<Rightarrow> 'd option"
  assumes pub_ok: "pub e ctx s w = (Returns None, w') \<Longrightarrow> shown w' (ss_AreaState s) = doc s"
    and pub_any: "pub e ctx s w = (r, w') \<Longrightarrow>
      shown w' (ss_AreaState s) = shown w (ss_AreaState s) \<or> shown w' (ss_AreaState s) = doc s"
    and pub_other: "pub e ctx s w = (r, w') \<Longrightarrow> a \<noteq> ss_AreaState s \<Longrightarrow> shown w' a = shown w a"
begin

definition fan_shows :: "(string \<Rightarrow> state_snapshot) \<Rightarrow> string list \<Rightarrow> 'w \<Rightarrow> 'w fan \<Rightarrow> bool" where
  "fan_shows snap areas w st \<longleftrightarrow>
     (\<forall>i < length (fan_phases st). fan_phases st ! i \<in> {Leaving True, Gone True} \<longrightarrow>
        shown (fan_world st) (areas ! i) = doc (snap (areas ! i))) \<and>
     (\<forall>a. shown (fan_world st) a = shown w a \<or> a \<in> set areas \<and> shown (fan_world st) a = doc (snap a))"

lemma call_shows:
  assumes "pub e ctx (snap a) v = (r, v')" and "ss_AreaState (snap a) = a"
  shows "shown v' b = shown v b \<or> b = a \<and> shown v' b = doc (snap b)"
  using pub_any [OF assms(1)] pub_other [OF assms(1), of b] assms(2) by (cases "b = a") auto

lemma fan_shows_step:
  assumes "fan_step pub snap parent areas c st = Some st'" and "fan_inv areas st"
    and "\<And>a. ss_AreaState (snap a) = a" and "fan_shows snap areas w st"
  shows "fan_shows snap areas w st'"
proof (cases c)
  case Spawn
  with assms(1) have "fan_phases st' = fan_phases st @ [Calling 0]" "fan_world st' = fan_world st"
    by (auto simp: fan_step_def split: if_splits)
  with assms(4) show ?thesis by (auto simp: fan_shows_def nth_append less_Suc_eq)
next
  case (Act i pe e)
  with assms(1) have "fan_act pub snap parent areas i pe e st = Some st'" by (simp add: fan_step_def)
  note c = fan_act_cases [OF this]
  have i: "i < length areas" using assms(2) c(1) by (simp add: fan_inv_def)
  let ?call = "pub e (with_timeout parent (pe_now pe) publishPutTimeout) (snap (areas ! i)) (fan_world st)"
  have len: "length (fan_phases st') = length (fan_phases st)" by (subst c(3)) simp
  have moved: "shown (fan_world st') b = shown (fan_world st) b \<or>
      b = areas ! i \<and> shown (fan_world st') b = doc (snap b)" for b
  proof (cases "fan_phases st ! i")
    case (Calling k)
    have "?call = (fst ?call, fan_world st')" using c(5) Calling by simp
    from call_shows [where snap = snap and a = "areas ! i", OF this assms(3)] show ?thesis .
  qed (use c(5) in auto)
  have "shown (fan_world st') (areas ! j) = doc (snap (areas ! j))"
    if j: "j < length (fan_phases st')" "fan_phases st' ! j \<in> {Leaving True, Gone True}" for j
  proof (cases "j = i \<and> (\<exists>k. fan_phases st ! i = Calling k)")
    case True
    then obtain k where k: "fan_phases st ! i = Calling k" by blast
    with True j(2) c(2) have "fan_phases st' ! i = Leaving True" by auto
    from c(6) [OF k this] have "?call = (Returns None, fan_world st')" using c(5) k by (simp add: prod_eq_iff)
    from pub_ok [OF this] True assms(3) show ?thesis by simp
  next
    case False
    then have "fan_phases st ! j \<in> {Leaving True, Gone True}"
      using j c(1,2,3) len by (cases "j = i"; cases "fan_phases st ! i") auto
    then have "shown (fan_world st) (areas ! j) = doc (snap (areas ! j))"
      using assms(4) j(1) len unfolding fan_shows_def by metis
    with moved [of "areas ! j"] show ?thesis by auto
  qed
  moreover have "shown (fan_world st') a = shown w a \<or> a \<in> set areas \<and> shown (fan_world st') a = doc (snap a)" for a
    using moved [of a] assms(4) i by (auto simp: fan_shows_def)
  ultimately show ?thesis by (simp add: fan_shows_def)
qed

lemma fan_reach_shows:
  assumes "fan_reach pub snap parent areas h w st" and "\<And>a. ss_AreaState (snap a) = a"
  shows "fan_shows snap areas w st"
  using assms(1)
proof (induction rule: fan_reach.induct)
  case start
  show ?case by (simp add: fan_shows_def fan_start_def)
next
  case (step st c st')
  from fan_shows_step [OF step.hyps(2) fan_reach_inv [OF step.hyps(1)] assms(2) step.IH] show ?case .
qed

end

section \<open>The destinations of the service\<close>

text \<open>
  \<open>Multi.PublishState\<close> over the file publisher and, when it is configured, R2. The environment of a
  call is what both meet.
\<close>

definition main_publish_state ::
  "(state_snapshot \<Rightarrow> string option) \<Rightarrow> string \<Rightarrow> bool \<Rightarrow> (file_env \<times> put_outcome, dests) state_publisher" where
  "main_publish_state enc dir r2on e ctx s w =
     (case multi_publish_state
             (file_state_pub enc dir (fst e) # (if r2on then [r2_state_pub enc (snd e)] else [])) s w of
        (r, w') \<Rightarrow> (Returns r, w'))"

definition file_shows :: "string \<Rightarrow> dests \<Rightarrow> string \<Rightarrow> string option" where
  "file_shows dir w a = d_files w (join_path dir (per_state_key a))"

definition r2_shows :: "dests \<Rightarrow> string \<Rightarrow> string option" where
  "r2_shows w a = object_data (d_bucket w) (per_state_key a)"

lemma per_state_key_inj: "per_state_key a = per_state_key b \<longleftrightarrow> a = b"
  by (simp add: per_state_key_def)

lemma per_state_key_ok: "file_key_ok (per_state_key a)"
  by (auto simp: file_key_ok_def has_suffix_iff per_state_key_def)

lemma file_state_pub_shows:
  assumes "file_state_pub enc dir env s w = (r, w')"
  shows "file_shows dir w' a = (if r = None \<and> a = ss_AreaState s then enc s else file_shows dir w a)"
    and "d_bucket w' = d_bucket w"
proof -
  obtain fs' where fs: "file_put dir env (per_state_key (ss_AreaState s)) (enc s) (d_files w) = (r, fs')"
    and w': "w' = w\<lparr>d_files := fs'\<rparr>"
    using assms by (auto simp: file_state_pub_def file_publish_state_def split: prod.splits)
  show "file_shows dir w' a = (if r = None \<and> a = ss_AreaState s then enc s else file_shows dir w a)"
    using file_put_cases(1) [OF fs per_state_key_ok per_state_key_ok, of a]
    by (simp add: file_shows_def w' per_state_key_inj)
  show "d_bucket w' = d_bucket w" by (simp add: w')
qed

lemma r2_state_pub_shows:
  assumes "r2_state_pub enc out s w = (r, w')"
  shows "r2_shows w' a = r2_shows w a \<or> a = ss_AreaState s \<and> r2_shows w' a = enc s"
    and "r = None \<Longrightarrow> r2_shows w' (ss_AreaState s) = enc s"
    and "d_files w' = d_files w"
  using assms
  by (auto simp: r2_state_pub_def r2_publish_state_def put_object_def r2_shows_def object_data_def
      per_state_key_inj Let_def split: option.splits put_outcome.splits if_splits)

lemma main_publish_state_cases:
  assumes "main_publish_state enc dir r2on e ctx s w = (r, w')"
  obtains rf w1 rb where "file_state_pub enc dir (fst e) s w = (rf, w1)"
    "if r2on then r2_state_pub enc (snd e) s w1 = (rb, w') else rb = None \<and> w' = w1"
    "r = Returns (if rf = None then rb else rf)"
proof -
  obtain rf w1 where f: "file_state_pub enc dir (fst e) s w = (rf, w1)" by fastforce
  obtain rb w2 where b: "r2_state_pub enc (snd e) s w1 = (rb, w2)" by fastforce
  show thesis
    using assms f b by (intro that [of rf w1 "if r2on then rb else None"])
      (auto simp: main_publish_state_def multi_publish_state_def split: if_splits prod.splits option.splits)
qed

lemma main_publish_file:
  assumes "main_publish_state enc dir r2on e ctx s w = (r, w')"
  shows "file_shows dir w' a = file_shows dir w a \<or> a = ss_AreaState s \<and> file_shows dir w' a = enc s"
    and "r = Returns None \<Longrightarrow> file_shows dir w' (ss_AreaState s) = enc s"
proof -
  obtain rf w1 rb where m: "file_state_pub enc dir (fst e) s w = (rf, w1)"
    "if r2on then r2_state_pub enc (snd e) s w1 = (rb, w') else rb = None \<and> w' = w1"
    "r = Returns (if rf = None then rb else rf)"
    using assms by (rule main_publish_state_cases)
  have "d_files w' = d_files w1" using m(2) r2_state_pub_shows(3) by (auto split: if_splits)
  then have w': "file_shows dir w' a = (if rf = None \<and> a = ss_AreaState s then enc s else file_shows dir w a)" for a
    using file_state_pub_shows(1) [OF m(1)] by (simp add: file_shows_def)
  show "file_shows dir w' a = file_shows dir w a \<or> a = ss_AreaState s \<and> file_shows dir w' a = enc s"
    by (simp add: w')
  show "file_shows dir w' (ss_AreaState s) = enc s" if "r = Returns None"
    using that m(3) by (simp add: w' split: if_splits)
qed

lemma main_publish_r2:
  assumes "main_publish_state enc dir True e ctx s w = (r, w')"
  shows "r2_shows w' a = r2_shows w a \<or> a = ss_AreaState s \<and> r2_shows w' a = enc s"
    and "r = Returns None \<Longrightarrow> r2_shows w' (ss_AreaState s) = enc s"
proof -
  obtain rf w1 rb where m: "file_state_pub enc dir (fst e) s w = (rf, w1)"
    "if True then r2_state_pub enc (snd e) s w1 = (rb, w') else rb = None \<and> w' = w1"
    "r = Returns (if rf = None then rb else rf)"
    using assms by (rule main_publish_state_cases)
  note b = r2_state_pub_shows [OF m(2) [unfolded if_True]]
  have "r2_shows w1 a = r2_shows w a"
    using file_state_pub_shows(2) [OF m(1)] by (simp add: r2_shows_def)
  with b(1) [of a] show "r2_shows w' a = r2_shows w a \<or> a = ss_AreaState s \<and> r2_shows w' a = enc s" by simp
  show "r2_shows w' (ss_AreaState s) = enc s" if "r = Returns None"
    using that m(3) b(2) by (simp split: if_splits)
qed

interpretation fan_files: state_puts "main_publish_state enc dir r2on" "file_shows dir" enc for enc dir r2on
  by unfold_locales (use main_publish_file in blast)+

interpretation fan_r2: state_puts "main_publish_state enc dir True" r2_shows enc for enc dir
  by unfold_locales (use main_publish_r2 in blast)+

text \<open>
  C12: one state's failure never touches another's file. At every moment of every interleaving, the
  object and the file of a state whose goroutine succeeded hold exactly this cycle's document of
  that state, and those of any state hold what they held before or that document: never a part,
  never another state's, and never anything for a state that is not polled.
\<close>

theorem fanout_isolates_states:
  assumes "fan_run (main_publish_state enc dir True) snap parent areas cs (fan_start h w) = Some st"
    and "\<forall>a. ss_AreaState (snap a) = a"
  shows "(\<forall>i < length (fan_phases st). fan_phases st ! i \<in> {Leaving True, Gone True} \<longrightarrow>
      r2_shows (fan_world st) (areas ! i) = enc (snap (areas ! i)) \<and>
      file_shows dir (fan_world st) (areas ! i) = enc (snap (areas ! i))) \<and>
    (\<forall>a. (r2_shows (fan_world st) a = r2_shows w a \<or> a \<in> set areas \<and> r2_shows (fan_world st) a = enc (snap a)) \<and>
       (file_shows dir (fan_world st) a = file_shows dir w a \<or>
        a \<in> set areas \<and> file_shows dir (fan_world st) a = enc (snap a)))"
proof -
  note reach = fan_run_reach [OF fan_reach.start assms(1)]
  have snap: "ss_AreaState (snap a) = a" for a using assms(2) by blast
  from fan_r2.fan_reach_shows [OF reach snap] fan_files.fan_reach_shows [OF reach snap] show ?thesis
    unfolding fan_r2.fan_shows_def fan_files.fan_shows_def by blast
qed

definition sample_enc :: "state_snapshot \<Rightarrow> string option" where
  "sample_enc s = Some (''{'' @ ss_AreaState s @ ''}'')"

definition sample_meets :: "put_outcome \<Rightarrow> file_env \<times> put_outcome" where
  "sample_meets out = (\<lparr>fe_mkdir_fails = False, fe_written = None, fe_rename_fails = False\<rparr>, out)"

definition sample_put_choices :: "(file_env \<times> put_outcome) choice list" where
  "sample_put_choices =
     [Spawn, Spawn, Act 0 sample_pe (sample_meets (PutFails ''503'' False)), Act 1 sample_pe (sample_meets PutOk)]"

definition sample_put_fan :: "dests fan option" where
  "sample_put_fan = fan_run (main_publish_state sample_enc ''snapshots'' True) sample_snap None [''OK'', ''TX'']
     sample_put_choices (fan_start None \<lparr>d_files = Map.empty, d_bucket = Map.empty\<rparr>)"

theorem fanout_isolates_states_witness:
  "\<exists>st. sample_put_fan = Some st \<and> r2_shows (fan_world st) ''TX'' = Some ''{TX}''"
proof -
  have "map_option fan_phases sample_put_fan = Some [Calling 1, Leaving True]" by code_simp
  then obtain st where st: "sample_put_fan = Some st" "fan_phases st = [Calling 1, Leaving True]" by auto
  have "\<forall>a. ss_AreaState (sample_snap a) = a" by (simp add: sample_snap_def new_state_snapshot_def)
  from fanout_isolates_states [OF st(1) [unfolded sample_put_fan_def] this]
  have "fan_phases st ! 1 \<in> {Leaving True, Gone True} \<longrightarrow>
      r2_shows (fan_world st) ([''OK'', ''TX''] ! 1) = sample_enc (sample_snap ([''OK'', ''TX''] ! 1))"
    using st(2) by (metis One_nat_def length_Cons lessI list.size(3))
  then have "r2_shows (fan_world st) ''TX'' = Some ''{TX}''"
    by (simp add: st(2) sample_enc_def sample_snap_def new_state_snapshot_def)
  with st(1) show ?thesis by blast
qed

end
