(* ===== verification/Pinger.thy ===== *)
theory Pinger
  imports Budget
begin

text \<open>
  The dead-man's-switch client of \<open>internal/healthcheck/pinger.go\<close>. \<open>PingAsync\<close> starts a goroutine
  whose outcome nobody waits for; what the poller sees of it is whether one was started.
\<close>

definition pingTimeout :: duration where [config_defs]: "pingTimeout = 5 * second"

record pinger =
  pinger_URL :: string

definition pinger_new :: "string \<Rightarrow> pinger" where
  "pinger_new url = \<lparr>pinger_URL = url\<rparr>"

text \<open>The goroutines started, each by the URL it will request.\<close>

definition ping_async :: "pinger \<Rightarrow> string list \<Rightarrow> string list" where
  "ping_async p started = (if pinger_URL p = '''' then started else started @ [pinger_URL p])"

text \<open>
  The goroutine: its request under a deadline of its own, counted from \<open>now\<close> and not from any
  cycle, and the warning it logs.
\<close>

datatype ping_warning = BuildFailed string | PingFailed string | NotOK int

record ping_env =
  pg_now :: time
  pg_build_err :: "string option"
  pg_outcome :: http_outcome

definition ping :: "pinger \<Rightarrow> ping_env \<Rightarrow> (string \<times> time option) list \<times> ping_warning option" where
  "ping p env =
     (let ctx = with_timeout None (pg_now env) pingTimeout
      in case pg_build_err env of
           Some e \<Rightarrow> ([], Some (BuildFailed e))
         | None \<Rightarrow>
             (case pg_outcome env of
                TransportErr e \<Rightarrow> ([(pinger_URL p, ctx)], Some (PingFailed e))
              | Resp status header body \<Rightarrow>
                  ([(pinger_URL p, ctx)], if status \<ge> 300 then Some (NotOK status) else None)))"

lemma ping_async_noop: "ping_async (pinger_new '''') started = started"
  by (simp add: ping_async_def pinger_new_def)

lemma ping_one_request: "length (fst (ping p env)) \<le> 1"
  by (auto simp: ping_def Let_def split: option.splits http_outcome.splits)

lemma ping_deadline: "(u, ctx) \<in> set (fst (ping p env)) \<Longrightarrow> u = pinger_URL p \<and> ctx = Some (pg_now env + pingTimeout)"
  by (auto simp: ping_def Let_def with_timeout_def with_deadline_def split: option.splits http_outcome.splits)

end
