(* ===== verification/Poller.thy ===== *)
theory Poller
  imports Fanout Nws_Client Pinger
begin

text \<open>
  One poll cycle of \<open>internal/poller/poller.go\<close>. The poller sees its collaborators through three
  interfaces; here they are functions on a world they share, so a cycle is a function on the
  poller's state. A call that panics unwinds the cycle up to \<open>pollSafely\<close>. The record \<open>cycle\<close> holds
  what one cycle meets: the collaborators as they answer in it, its clock readings, the conditions
  of its puts and the scheduler of its goroutines.
\<close>

section \<open>Collaborators, configuration, state\<close>

record ('e, 'w) services =
  sv_alerts :: "time option \<Rightarrow> string \<Rightarrow> 'w \<Rightarrow> (alerts_response option \<times> fetch_error option) call \<times> 'w"
  sv_tornado :: "time option \<Rightarrow> 'w \<Rightarrow> (storm_report list \<times> spc_error option) call \<times> 'w"
  sv_hail :: "time option \<Rightarrow> 'w \<Rightarrow> (storm_report list \<times> spc_error option) call \<times> 'w"
  sv_wind :: "time option \<Rightarrow> 'w \<Rightarrow> (storm_report list \<times> spc_error option) call \<times> 'w"
  sv_upsert_alerts :: "time option \<Rightarrow> alert list \<Rightarrow> 'w \<Rightarrow> batch_result call \<times> 'w"
  sv_upsert_reports :: "time option \<Rightarrow> storm_report list \<Rightarrow> 'w \<Rightarrow> (nat \<times> bool \<times> db_err option) call \<times> 'w"
  sv_active_alerts :: "time option \<Rightarrow> 'w \<Rightarrow> (read_err + active_alert list) call \<times> 'w"
  sv_purge :: "time option \<Rightarrow> 'w \<Rightarrow> (nat \<times> db_err option) call \<times> 'w"
  sv_publish :: "nat \<Rightarrow> time option \<Rightarrow> snapshot \<Rightarrow> 'w \<Rightarrow> pub_err option call \<times> 'w"
  sv_publish_state :: "('e, 'w) state_publisher"

record ('e, 'w) cycle =
  cy_services :: "('e, 'w) services"
  cy_fetch_start :: time                \<comment> \<open>the clock when the fetch phase gets its deadline\<close>
  cy_until :: "feed \<Rightarrow> time"            \<comment> \<open>the readings of \<open>withBudgetFraction\<close> for a fetch\<close>
  cy_timeout :: "feed \<Rightarrow> time"
  cy_success :: "feed \<Rightarrow> time"          \<comment> \<open>the reading recorded when a feed succeeds\<close>
  cy_publish_start :: time
  cy_generated_at :: time               \<comment> \<open>the reading of \<open>NewSnapshot\<close>\<close>
  cy_put :: "nat \<Rightarrow> put_env"            \<comment> \<open>the attempts at the merged snapshot\<close>
  cy_sched :: "'w fan \<Rightarrow> nat \<times> put_env \<times> 'e"

record config =
  PollInterval :: duration
  Areas :: "string list"
  cfg_Mode :: mode
  HealthPing :: "pinger option"

record 'w poller =
  lastAlertsUpsertFailed :: bool
  po_health :: "registry option"
  po_pings :: "string list"
  po_world :: 'w

definition poller_new :: "registry option \<Rightarrow> 'w \<Rightarrow> 'w poller" where
  "poller_new h w = \<lparr>lastAlertsUpsertFailed = False, po_health = h, po_pings = [], po_world = w\<rparr>"

text \<open>Sequencing: a panic skips what follows.\<close>

definition on_world :: "('w \<Rightarrow> 'a call \<times> 'w) \<Rightarrow> 'w poller \<Rightarrow> 'a call \<times> 'w poller" where
  "on_world f p = (case f (po_world p) of (r, w) \<Rightarrow> (r, p\<lparr>po_world := w\<rparr>))"

definition and_then :: "'a call \<times> 's \<Rightarrow> ('a \<Rightarrow> 's \<Rightarrow> 'b call \<times> 's) \<Rightarrow> 'b call \<times> 's" where
  "and_then m f = (case m of (Panics msg, s) \<Rightarrow> (Panics msg, s) | (Returns a, s) \<Rightarrow> f a s)"

lemma and_then_simps [simp]:
  "and_then (Returns a, s) f = f a s"
  "and_then (Panics msg, s) f = (Panics msg, s)"
  by (simp_all add: and_then_def)

lemma on_world_simp: "on_world f p = (fst (f (po_world p)), p\<lparr>po_world := snd (f (po_world p))\<rparr>)"
  by (simp add: on_world_def split_beta)

definition record_ok :: "feed \<Rightarrow> ('e, 'w) cycle \<Rightarrow> 'w poller \<Rightarrow> 'w poller" where
  "record_ok f cy p = p\<lparr>po_health := record_success f (cy_success cy f) (po_health p)\<rparr>"

section \<open>The fetch phase\<close>

definition classify_alert_fetch_err :: "fetch_error option \<Rightarrow> bool \<times> fetch_error option" where
  "classify_alert_fetch_err err = (if err = Some ErrNotModified then (True, None) else (False, err))"

definition etag_vouches_for_store :: "bool \<Rightarrow> bool" where
  "etag_vouches_for_store lastUpsertFailed = (\<not> lastUpsertFailed)"

definition fetch_ctx :: "('e, 'w) cycle \<Rightarrow> feed \<Rightarrow> int \<Rightarrow> time option \<Rightarrow> time option" where
  "fetch_ctx cy f pct ctx = with_budget_fraction ctx (cy_until cy f) (cy_timeout cy f) pct"

definition poll_alerts ::
  "config \<Rightarrow> ('e, 'w) cycle \<Rightarrow> time option \<Rightarrow> 'w poller \<Rightarrow> (nat \<times> nat \<times> bool) call \<times> 'w poller" where
  "poll_alerts cfg cy ctx p =
     and_then (on_world (sv_alerts (cy_services cy) (fetch_ctx cy FeedAlerts AlertsFetchBudgetPercent ctx)
                           (join '','' (Areas cfg))) p)
       (\<lambda>(alerts, err) p.
          let (unchanged, realErr) = classify_alert_fetch_err err
          in if unchanged then
               (let p = record_ok FeedAlerts cy p
                in (Returns (0, 0, etag_vouches_for_store (lastAlertsUpsertFailed p)), p))
             else if realErr \<noteq> None then (Returns (0, 0, False), p)
             else
               (let p = record_ok FeedAlerts cy p
                in case alerts of
                     None \<Rightarrow> (Panics ''nil pointer dereference'', p)
                   | Some resp \<Rightarrow>
                       and_then (on_world (sv_upsert_alerts (cy_services cy) ctx (Features resp)) p)
                         (\<lambda>r p.
                            if br_err r \<noteq> None
                            then (Returns (br_inserted r, br_skipped r, False),
                                  p\<lparr>lastAlertsUpsertFailed := True\<rparr>)
                            else (Returns (br_inserted r, br_skipped r, True),
                                  p\<lparr>lastAlertsUpsertFailed := False\<rparr>))))"

text \<open>One of the three report fetches: nothing on an error, which is logged and passed over.\<close>

definition fetch_feed ::
  "('e, 'w) cycle \<Rightarrow> feed \<Rightarrow> (time option \<Rightarrow> 'w \<Rightarrow> (storm_report list \<times> spc_error option) call \<times> 'w) \<Rightarrow>
   time option \<Rightarrow> 'w poller \<Rightarrow> storm_report list call \<times> 'w poller" where
  "fetch_feed cy f fetch ctx p =
     and_then (on_world (fetch (fetch_ctx cy f SPCFetchBudgetPercent ctx)) p)
       (\<lambda>(reports, err) p.
          if err \<noteq> None then (Returns [], p) else (Returns reports, record_ok f cy p))"

definition poll_storm_reports ::
  "('e, 'w) cycle \<Rightarrow> time option \<Rightarrow> 'w poller \<Rightarrow> nat call \<times> 'w poller" where
  "poll_storm_reports cy ctx p =
     and_then (fetch_feed cy FeedSPCTorn (sv_tornado (cy_services cy)) ctx p) (\<lambda>reports p.
     and_then (fetch_feed cy FeedSPCHail (sv_hail (cy_services cy)) ctx p) (\<lambda>hailReports p.
     and_then (fetch_feed cy FeedSPCWind (sv_wind (cy_services cy)) ctx p) (\<lambda>windReports p.
     and_then (on_world (sv_upsert_reports (cy_services cy) ctx (reports @ hailReports @ windReports)) p)
       (\<lambda>(cnt, degraded, err) p. (Returns cnt, p)))))"

section \<open>The publish phase\<close>

definition publish_snapshot ::
  "config \<Rightarrow> ('e, 'w) cycle \<Rightarrow> time option \<Rightarrow> 'w poller \<Rightarrow> bool call \<times> 'w poller" where
  "publish_snapshot cfg cy ctx p =
     and_then (on_world (sv_active_alerts (cy_services cy) ctx) p) (\<lambda>r p.
       case r of
         Inl err \<Rightarrow> (Returns False, p)
       | Inr alerts \<Rightarrow>
           (let sn = new_snapshot (cy_generated_at cy) (Areas cfg) alerts;
                p = p\<lparr>po_health := reset_publish_failures (po_health p)\<rparr>
            in and_then (on_world (publish_with_retry ctx (\<lambda>i c. sv_publish (cy_services cy) i c sn) (cy_put cy)) p)
                 (\<lambda>mergedOK p.
                    let p = (if mergedOK then record_ok FeedPublish cy p else p);
                        (h, w) = publish_per_state (sv_publish_state (cy_services cy)) ctx (Areas cfg) alerts
                                   (sn_GeneratedAt sn) (cy_sched cy) (po_health p, po_world p)
                    in (Returns mergedOK, p\<lparr>po_health := h, po_world := w\<rparr>))))"

section \<open>The cycle\<close>

text \<open>The two phases, each under its own deadline counted from its own start.\<close>

definition fetch_phase :: "config \<Rightarrow> ('e, 'w) cycle \<Rightarrow> time option \<Rightarrow> duration \<Rightarrow> 'w poller \<Rightarrow> bool call \<times> 'w poller" where
  "fetch_phase cfg cy pollCtx fetchStoreBudget p =
     (if should_ingest (cfg_Mode cfg) then
        (let fetchStoreCtx = with_timeout pollCtx (cy_fetch_start cy) fetchStoreBudget
         in and_then (poll_alerts cfg cy fetchStoreCtx p) (\<lambda>(alertCount, skipped, alertsOK) p.
            and_then (poll_storm_reports cy fetchStoreCtx p) (\<lambda>reportCount p.
            and_then (on_world (sv_purge (cy_services cy) fetchStoreCtx) p) (\<lambda>_ p.
              (Returns alertsOK, p)))))
      else (Returns True, p))"

definition publish_phase :: "config \<Rightarrow> ('e, 'w) cycle \<Rightarrow> time option \<Rightarrow> duration \<Rightarrow> 'w poller \<Rightarrow> bool call \<times> 'w poller" where
  "publish_phase cfg cy pollCtx publishBudget p =
     (if should_publish (cfg_Mode cfg)
      then publish_snapshot cfg cy (with_timeout pollCtx (cy_publish_start cy) publishBudget) p
      else (Returns True, p))"

definition heartbeat :: "config \<Rightarrow> bool \<Rightarrow> bool \<Rightarrow> 'w poller \<Rightarrow> 'w poller" where
  "heartbeat cfg alertsOK mergedPublishOK p =
     (case HealthPing cfg of
        None \<Rightarrow> p
      | Some pinger \<Rightarrow>
          if should_heartbeat (cfg_Mode cfg) alertsOK mergedPublishOK
          then p\<lparr>po_pings := ping_async pinger (po_pings p)\<rparr> else p)"

definition poll :: "config \<Rightarrow> ('e, 'w) cycle \<Rightarrow> time option \<Rightarrow> 'w poller \<Rightarrow> unit call \<times> 'w poller" where
  "poll cfg cy pollCtx p =
     (let cycleTimeout = derive_cycle_timeout (PollInterval cfg);
          (fetchStoreBudget, publishBudget) = split_cycle_budget cycleTimeout
      in and_then (fetch_phase cfg cy pollCtx fetchStoreBudget p) (\<lambda>alertsOK p.
         and_then (publish_phase cfg cy pollCtx publishBudget p) (\<lambda>mergedPublishOK p.
           (Returns (), heartbeat cfg alertsOK mergedPublishOK p))))"

definition poll_safely :: "config \<Rightarrow> ('e, 'w) cycle \<Rightarrow> time option \<Rightarrow> 'w poller \<Rightarrow> 'w poller" where
  "poll_safely cfg cy ctx p = (case poll cfg cy ctx p of (Panics msg, p') \<Rightarrow> p' | (Returns u, p') \<Rightarrow> p')"

lemma poll_safely_snd: "poll_safely cfg cy ctx p = snd (poll cfg cy ctx p)"
  by (simp add: poll_safely_def split: prod.splits call.splits)

section \<open>What the phases leave alone\<close>

lemma and_then_frame:
  assumes "g (snd m) = g s" and "\<And>a t. g t = g s \<Longrightarrow> g (snd (f a t)) = g s"
  shows "g (snd (and_then m f)) = g s"
  using assms by (cases m; cases "fst m") (auto simp: and_then_def)

lemma and_then_Returns:
  "and_then m f = (Returns b, t) \<longleftrightarrow> (\<exists>a s. m = (Returns a, s) \<and> f a s = (Returns b, t))"
  by (auto simp: and_then_def split: prod.splits call.splits)

lemma on_world_frame [frame]:
  "lastAlertsUpsertFailed (snd (on_world f p)) = lastAlertsUpsertFailed p"
  "po_pings (snd (on_world f p)) = po_pings p"
  "po_health (snd (on_world f p)) = po_health p"
  by (simp_all add: on_world_simp)

lemma record_ok_frame [frame]:
  "lastAlertsUpsertFailed (record_ok f cy p) = lastAlertsUpsertFailed p"
  "po_pings (record_ok f cy p) = po_pings p"
  "po_world (record_ok f cy p) = po_world p"
  by (simp_all add: record_ok_def)

lemma poll_alerts_pings [frame]: "po_pings (snd (poll_alerts cfg cy ctx p)) = po_pings p"
  unfolding poll_alerts_def
  by (rule and_then_frame)
    (auto simp: frame Let_def split_beta split: option.splits intro!: and_then_frame [where g = po_pings])

lemma fetch_feed_frame [frame]:
  "po_pings (snd (fetch_feed cy f fetch ctx p)) = po_pings p"
  "lastAlertsUpsertFailed (snd (fetch_feed cy f fetch ctx p)) = lastAlertsUpsertFailed p"
  unfolding fetch_feed_def by (rule and_then_frame; auto simp: frame split_beta)+

lemma poll_storm_reports_frame [frame]:
  "po_pings (snd (poll_storm_reports cy ctx p)) = po_pings p"
  "lastAlertsUpsertFailed (snd (poll_storm_reports cy ctx p)) = lastAlertsUpsertFailed p"
  unfolding poll_storm_reports_def
  by (rule and_then_frame, simp add: frame, rule and_then_frame, simp add: frame, rule and_then_frame,
      simp add: frame, rule and_then_frame, simp add: frame, simp add: split_beta)+

lemma publish_snapshot_frame [frame]:
  "po_pings (snd (publish_snapshot cfg cy ctx p)) = po_pings p"
  "lastAlertsUpsertFailed (snd (publish_snapshot cfg cy ctx p)) = lastAlertsUpsertFailed p"
  unfolding publish_snapshot_def
  by (rule and_then_frame, simp add: frame,
      (auto simp: Let_def frame split_beta split: sum.splits if_splits intro!: and_then_frame) [1])+

lemma publish_phase_frame [frame]:
  "po_pings (snd (publish_phase cfg cy ctx b p)) = po_pings p"
  "lastAlertsUpsertFailed (snd (publish_phase cfg cy ctx b p)) = lastAlertsUpsertFailed p"
  by (simp_all add: publish_phase_def frame)

lemma fetch_phase_frame [frame]:
  "po_pings (snd (fetch_phase cfg cy ctx b p)) = po_pings p"
  by (auto simp: fetch_phase_def Let_def frame split_beta intro!: and_then_frame)

section \<open>What came of the alerts\<close>

datatype alerts_result = FetchPanic | FetchFailed | Unchanged | UpsertPanic | UpsertErr | Landed

definition alerts_result ::
  "config \<Rightarrow> ('e, 'w) cycle \<Rightarrow> time option \<Rightarrow> 'w poller \<Rightarrow> alerts_result" where
  "alerts_result cfg cy ctx p =
     (case sv_alerts (cy_services cy) (fetch_ctx cy FeedAlerts AlertsFetchBudgetPercent ctx)
             (join '','' (Areas cfg)) (po_world p) of
        (Panics _, w) \<Rightarrow> FetchPanic
      | (Returns (alerts, err), w) \<Rightarrow>
          if err = Some ErrNotModified then Unchanged
          else if err \<noteq> None then FetchFailed
          else case alerts of
            None \<Rightarrow> FetchPanic
          | Some resp \<Rightarrow>
              (case fst (sv_upsert_alerts (cy_services cy) ctx (Features resp) w) of
                 Panics _ \<Rightarrow> UpsertPanic
               | Returns r \<Rightarrow> if br_err r = None then Landed else UpsertErr))"

fun failed_after :: "alerts_result \<Rightarrow> bool \<Rightarrow> bool" where
  "failed_after Landed b = False"
| "failed_after UpsertErr b = True"
| "failed_after _ b = b"

fun vouched :: "alerts_result \<Rightarrow> bool \<Rightarrow> bool" where
  "vouched Landed b = True"
| "vouched Unchanged b = (\<not> b)"
| "vouched _ b = False"

lemma poll_alerts_failed:
  "lastAlertsUpsertFailed (snd (poll_alerts cfg cy ctx p)) =
     failed_after (alerts_result cfg cy ctx p) (lastAlertsUpsertFailed p)"
  by (auto simp: poll_alerts_def alerts_result_def on_world_simp classify_alert_fetch_err_def and_then_def
      record_ok_frame Let_def split: call.splits option.splits prod.splits)

lemma poll_alerts_ok:
  "fst (poll_alerts cfg cy ctx p) = Returns (n, k, ok) \<Longrightarrow>
     ok = vouched (alerts_result cfg cy ctx p) (lastAlertsUpsertFailed p)"
  by (auto simp: poll_alerts_def alerts_result_def on_world_simp classify_alert_fetch_err_def and_then_def
      etag_vouches_for_store_def record_ok_frame Let_def
      split: call.splits option.splits prod.splits if_splits)

lemma poll_alerts_panics:
  "(\<exists>m. fst (poll_alerts cfg cy ctx p) = Panics m) \<longleftrightarrow> alerts_result cfg cy ctx p \<in> {FetchPanic, UpsertPanic}"
  by (auto simp: poll_alerts_def alerts_result_def on_world_simp classify_alert_fetch_err_def and_then_def record_ok_frame Let_def
      split: call.splits option.splits prod.splits if_splits)

definition cycle_alerts :: "config \<Rightarrow> ('e, 'w) cycle \<Rightarrow> time option \<Rightarrow> 'w poller \<Rightarrow> alerts_result" where
  "cycle_alerts cfg cy ctx p =
     alerts_result cfg cy (with_timeout ctx (cy_fetch_start cy)
       (fst (split_cycle_budget (derive_cycle_timeout (PollInterval cfg))))) p"

lemma fetch_phase_failed:
  "should_ingest (cfg_Mode cfg) \<Longrightarrow>
     lastAlertsUpsertFailed (snd (fetch_phase cfg cy ctx b p)) =
       failed_after (alerts_result cfg cy (with_timeout ctx (cy_fetch_start cy) b) p) (lastAlertsUpsertFailed p)"
  unfolding fetch_phase_def Let_def poll_alerts_failed [symmetric] if_True
  apply simp
  apply (cases "poll_alerts cfg cy (with_timeout ctx (cy_fetch_start cy) b) p")
  apply (rename_tac r q, case_tac r)
   apply (simp add: split_beta)
   apply (rule and_then_frame [where g = lastAlertsUpsertFailed], simp add: frame)
   apply (rule and_then_frame [where g = lastAlertsUpsertFailed]; simp add: frame)
  apply simp
  done

section \<open>The heartbeat vouches for the data\<close>

definition fetch_budget :: "config \<Rightarrow> duration" where
  "fetch_budget cfg = fst (split_cycle_budget (derive_cycle_timeout (PollInterval cfg)))"

definition publish_budget :: "config \<Rightarrow> duration" where
  "publish_budget cfg = snd (split_cycle_budget (derive_cycle_timeout (PollInterval cfg)))"

lemma poll_phases:
  "poll cfg cy ctx p =
     and_then (fetch_phase cfg cy ctx (fetch_budget cfg) p) (\<lambda>alertsOK p.
     and_then (publish_phase cfg cy ctx (publish_budget cfg) p) (\<lambda>mergedPublishOK p.
       (Returns (), heartbeat cfg alertsOK mergedPublishOK p)))"
  by (simp add: poll_def fetch_budget_def publish_budget_def split_beta Let_def)

lemma heartbeat_frame [frame]: "lastAlertsUpsertFailed (heartbeat cfg a m p) = lastAlertsUpsertFailed p"
  "po_world (heartbeat cfg a m p) = po_world p" "po_health (heartbeat cfg a m p) = po_health p"
  by (simp_all add: heartbeat_def split: option.splits)

lemma poll_failed:
  assumes "should_ingest (cfg_Mode cfg)"
  shows "lastAlertsUpsertFailed (poll_safely cfg cy ctx p) =
    failed_after (cycle_alerts cfg cy ctx p) (lastAlertsUpsertFailed p)"
proof -
  let ?m = "fetch_phase cfg cy ctx (fetch_budget cfg) p"
  have f: "lastAlertsUpsertFailed (snd ?m) = failed_after (cycle_alerts cfg cy ctx p) (lastAlertsUpsertFailed p)"
    using fetch_phase_failed [OF assms] by (simp add: cycle_alerts_def fetch_budget_def)
  have "lastAlertsUpsertFailed (snd (poll cfg cy ctx p)) = lastAlertsUpsertFailed (snd ?m)"
    unfolding poll_phases
    by (rule and_then_frame, simp, rule and_then_frame) (simp_all add: frame)
  with f show ?thesis by (simp add: poll_safely_snd)
qed

lemma poll_ping:
  assumes "po_pings (poll_safely cfg cy ctx p) \<noteq> po_pings p"
  obtains pinger alertsOK p1 mergedOK p2 where "HealthPing cfg = Some pinger"
    "fetch_phase cfg cy ctx (fetch_budget cfg) p = (Returns alertsOK, p1)"
    "publish_phase cfg cy ctx (publish_budget cfg) p1 = (Returns mergedOK, p2)"
    "should_heartbeat (cfg_Mode cfg) alertsOK mergedOK"
proof -
  obtain r1 p1 where m1: "fetch_phase cfg cy ctx (fetch_budget cfg) p = (r1, p1)" by fastforce
  have f1: "po_pings p1 = po_pings p" using fetch_phase_frame [of cfg cy ctx "fetch_budget cfg" p] m1 by simp
  obtain r2 p2 where m2: "publish_phase cfg cy ctx (publish_budget cfg) p1 = (r2, p2)" by fastforce
  have f2: "po_pings p2 = po_pings p1" using publish_phase_frame(1) [of cfg cy ctx "publish_budget cfg" p1] m2 by simp
  from assms f1 f2 obtain alertsOK mergedOK where r: "r1 = Returns alertsOK" "r2 = Returns mergedOK"
    by (cases r1; cases r2) (auto simp: poll_safely_snd poll_phases m1 m2)
  with assms f1 f2 have "po_pings (heartbeat cfg alertsOK mergedOK p2) \<noteq> po_pings p2"
    by (simp add: poll_safely_snd poll_phases m1 m2)
  with that m1 m2 r show thesis by (auto simp: heartbeat_def split: option.splits if_splits)
qed

lemma fetch_phase_ok:
  assumes "fetch_phase cfg cy ctx (fetch_budget cfg) p = (Returns ok, p1)" and "should_ingest (cfg_Mode cfg)"
  shows "ok = vouched (cycle_alerts cfg cy ctx p) (lastAlertsUpsertFailed p)"
proof -
  let ?ctx = "with_timeout ctx (cy_fetch_start cy) (fetch_budget cfg)"
  from assms obtain n k q where "poll_alerts cfg cy ?ctx p = (Returns (n, k, ok), q)"
    by (auto simp: fetch_phase_def Let_def and_then_Returns split_beta)
  then show ?thesis
    using poll_alerts_ok [of cfg cy ?ctx p n k ok] by (simp add: cycle_alerts_def fetch_budget_def)
qed

text \<open>Several cycles in a row, and what each made of the alerts.\<close>

fun run_cycles :: "config \<Rightarrow> (('e, 'w) cycle \<times> time option) list \<Rightarrow> 'w poller \<Rightarrow> 'w poller" where
  "run_cycles cfg [] p = p"
| "run_cycles cfg ((cy, ctx) # cs) p = run_cycles cfg cs (poll_safely cfg cy ctx p)"

fun alerts_results :: "config \<Rightarrow> (('e, 'w) cycle \<times> time option) list \<Rightarrow> 'w poller \<Rightarrow> alerts_result list" where
  "alerts_results cfg [] p = []"
| "alerts_results cfg ((cy, ctx) # cs) p =
     cycle_alerts cfg cy ctx p # alerts_results cfg cs (poll_safely cfg cy ctx p)"

text \<open>The last upsert that returned, if there was one.\<close>

definition last_upsert :: "alerts_result list \<Rightarrow> alerts_result option" where
  "last_upsert rs = List.find (\<lambda>r. r = Landed \<or> r = UpsertErr) (rev rs)"

lemma find_append: "List.find P (xs @ ys) = (case List.find P xs of None \<Rightarrow> List.find P ys | Some x \<Rightarrow> Some x)"
  by (induction xs) auto

lemma run_cycles_failed:
  "should_ingest (cfg_Mode cfg) \<Longrightarrow> lastAlertsUpsertFailed (run_cycles cfg cs p) =
     (case last_upsert (alerts_results cfg cs p) of
        None \<Rightarrow> lastAlertsUpsertFailed p | Some r \<Rightarrow> r = UpsertErr)"
proof (induction cs arbitrary: p)
  case Nil
  then show ?case by (simp add: last_upsert_def)
next
  case (Cons c cs)
  obtain cy ctx where c: "c = (cy, ctx)" by (cases c)
  show ?case
    by (cases "cycle_alerts cfg cy ctx p")
      (simp_all add: c Cons.IH [OF Cons.prems] poll_failed [OF Cons.prems] last_upsert_def find_append split: option.splits)
qed

text \<open>
  A heartbeat vouches for the alerts in the store. If a node that ingests sends one, then in that
  very cycle the batch upsert of a fetched payload returned without an error, or the upstream
  answered that nothing changed and the last batch upsert that returned, in any earlier cycle, did so
  without an error; and if the node also publishes, the merged snapshot of that cycle was published.
\<close>

lemma heartbeat_vouches:
  assumes "should_ingest (cfg_Mode cfg)"
    and "p = run_cycles cfg cs (poller_new h w)"
    and "po_pings (poll_safely cfg cy ctx p) \<noteq> po_pings p"
  shows "(cycle_alerts cfg cy ctx p = Landed \<or> cycle_alerts cfg cy ctx p = Unchanged \<and>
      last_upsert (alerts_results cfg cs (poller_new h w)) \<noteq> Some UpsertErr) \<and>
    (should_publish (cfg_Mode cfg) \<longrightarrow>
      fst (publish_phase cfg cy ctx (publish_budget cfg) (snd (fetch_phase cfg cy ctx (fetch_budget cfg) p))) =
        Returns True)"
proof -
  obtain pinger alertsOK p1 mergedOK p2 where ph: "HealthPing cfg = Some pinger"
    "fetch_phase cfg cy ctx (fetch_budget cfg) p = (Returns alertsOK, p1)"
    "publish_phase cfg cy ctx (publish_budget cfg) p1 = (Returns mergedOK, p2)"
    "should_heartbeat (cfg_Mode cfg) alertsOK mergedOK"
    using assms(3) by (rule poll_ping)
  have "alertsOK" using ph(4) assms(1) by (simp add: should_heartbeat_iff)
  with fetch_phase_ok [OF ph(2) assms(1)]
  have "vouched (cycle_alerts cfg cy ctx p) (lastAlertsUpsertFailed p)" by simp
  then have "cycle_alerts cfg cy ctx p = Landed \<or>
      cycle_alerts cfg cy ctx p = Unchanged \<and> \<not> lastAlertsUpsertFailed p"
    by (cases "cycle_alerts cfg cy ctx p") auto
  moreover have "lastAlertsUpsertFailed p \<longleftrightarrow>
      last_upsert (alerts_results cfg cs (poller_new h w)) = Some UpsertErr"
    unfolding assms(2) run_cycles_failed [OF assms(1)]
    by (auto simp: poller_new_def split: option.splits)
  moreover have "should_publish (cfg_Mode cfg) \<longrightarrow> mergedOK" using ph(4) by (simp add: should_heartbeat_iff)
  ultimately show ?thesis using ph(2,3) by auto
qed

text \<open>Cycles whose alerts fetch and upsert answer as given; everything else works.\<close>

definition sample_services ::
  "(alerts_response option \<times> fetch_error option) call \<Rightarrow> batch_result call \<Rightarrow> (unit, nat) services" where
  "sample_services fetched upserted =
     \<lparr>sv_alerts = (\<lambda>ctx area w. (fetched, w)),
      sv_tornado = (\<lambda>ctx w. (Returns ([], None), w)),
      sv_hail = (\<lambda>ctx w. (Returns ([], Some (SpcStatusErr 404)), w)),
      sv_wind = (\<lambda>ctx w. (Returns ([], None), w)),
      sv_upsert_alerts = (\<lambda>ctx as w. (upserted, w)),
      sv_upsert_reports = (\<lambda>ctx rs w. (Returns (length rs, False, None), w)),
      sv_active_alerts = (\<lambda>ctx w. (Returns (Inr []), w)),
      sv_purge = (\<lambda>ctx w. (Returns (0, None), w)),
      sv_publish = (\<lambda>i ctx sn w. (Returns None, w + 1)),
      sv_publish_state = (\<lambda>e ctx sn w. (Returns None, w))\<rparr>"

definition sample_cycle ::
  "(alerts_response option \<times> fetch_error option) call \<Rightarrow> batch_result call \<Rightarrow> (unit, nat) cycle" where
  "sample_cycle fetched upserted =
     \<lparr>cy_services = sample_services fetched upserted, cy_fetch_start = 0, cy_until = (\<lambda>_. 0),
      cy_timeout = (\<lambda>_. 0), cy_success = (\<lambda>_. 1), cy_publish_start = 2, cy_generated_at = 2,
      cy_put = sample_put_env, cy_sched = (\<lambda>_. (0, sample_pe, ()))\<rparr>"

definition sample_config :: "mode \<Rightarrow> config" where
  "sample_config m =
     \<lparr>PollInterval = 30 * second, Areas = [''OK''], cfg_Mode = m, HealthPing = Some (pinger_new ''https://ping'')\<rparr>"

definition payload :: "(alerts_response option \<times> fetch_error option) call" where
  "payload = Returns (Some \<lparr>response_Type = '''', Features = []\<rparr>, None)"

definition upsert_ok :: "batch_result call" where
  "upsert_ok = Returns \<lparr>br_inserted = 0, br_skipped = 0, br_degraded = False, br_err = None\<rparr>"

definition not_modified :: "(alerts_response option \<times> fetch_error option) call" where
  "not_modified = Returns (None, Some ErrNotModified)"

lemma sample_mode [simp]: "cfg_Mode (sample_config m) = m"
  by (simp add: sample_config_def)

lemma heartbeat_vouches_sample:
  "last_upsert (alerts_results (sample_config ModeBoth) [(sample_cycle payload upsert_ok, None)]
      (poller_new new_registry 0)) \<noteq> Some UpsertErr"
proof -
  let ?cs = "[(sample_cycle payload upsert_ok, None)]" and ?cy = "sample_cycle not_modified upsert_ok"
  let ?p = "run_cycles (sample_config ModeBoth) ?cs (poller_new new_registry 0)"
  have "po_pings ?p = [''https://ping'']" by code_simp
  moreover have "po_pings (poll_safely (sample_config ModeBoth) ?cy None ?p) = [''https://ping'', ''https://ping'']"
    by code_simp
  ultimately have ping: "po_pings (poll_safely (sample_config ModeBoth) ?cy None ?p) \<noteq> po_pings ?p" by simp
  have "should_ingest (cfg_Mode (sample_config ModeBoth))" by simp
  note h = heartbeat_vouches [OF this refl ping]
  have "cycle_alerts (sample_config ModeBoth) ?cy None ?p = Unchanged" by code_simp
  with h show ?thesis by simp
qed

text \<open>
  A panic while a payload is stored is forgotten. The panic is contained, the cycle sends no
  heartbeat, but the flag that withholds later ones is set only where the upsert returns. When the
  upstream answers the next fetch with 304 the node reports itself healthy, although no payload was
  ever stored.
\<close>

theorem panicking_upsert_is_vouched_for:
  "let cfg = sample_config ModeIngest; p0 = poller_new new_registry 0;
       crashing = sample_cycle payload (Panics ''index out of range''); unchanged = sample_cycle not_modified upsert_ok;
       p1 = poll_safely cfg crashing None p0; p2 = poll_safely cfg unchanged None p1
   in alerts_results cfg [(crashing, None), (unchanged, None)] p0 = [UpsertPanic, Unchanged] \<and>
      po_pings p1 = [] \<and> po_pings p2 = [''https://ping''] \<and> \<not> lastAlertsUpsertFailed p1"
  unfolding Let_def by (intro conjI; code_simp)

section \<open>Roles\<close>

definition with_upstream ::
  "('e, 'w) services \<Rightarrow> ('e, 'w) services \<Rightarrow> ('e, 'w) services" where
  "with_upstream other s =
     s\<lparr>sv_alerts := sv_alerts other, sv_tornado := sv_tornado other, sv_hail := sv_hail other,
       sv_wind := sv_wind other, sv_upsert_alerts := sv_upsert_alerts other,
       sv_upsert_reports := sv_upsert_reports other, sv_purge := sv_purge other\<rparr>"

definition with_publishing ::
  "('e, 'w) services \<Rightarrow> ('e, 'w) services \<Rightarrow> ('e, 'w) services" where
  "with_publishing other s =
     s\<lparr>sv_active_alerts := sv_active_alerts other, sv_publish := sv_publish other,
       sv_publish_state := sv_publish_state other\<rparr>"

text \<open>
  A node's role decides what it touches. A cycle of a publish-only node does the same whatever
  the upstream feeds and the store's writes would have answered, so it never calls them; a cycle of
  an ingest-only node does the same whatever the reads and the publishers would have answered.
\<close>

theorem roles_are_isolated:
  "(\<not> should_ingest (cfg_Mode cfg) \<longrightarrow>
      poll cfg (cy\<lparr>cy_services := with_upstream other (cy_services cy)\<rparr>) ctx p = poll cfg cy ctx p) \<and>
   (\<not> should_publish (cfg_Mode cfg) \<longrightarrow>
      poll cfg (cy\<lparr>cy_services := with_publishing other (cy_services cy)\<rparr>) ctx p = poll cfg cy ctx p)"
proof (intro conjI impI)
  let ?u = "cy\<lparr>cy_services := with_upstream other (cy_services cy)\<rparr>"
  assume "\<not> should_ingest (cfg_Mode cfg)"
  moreover have "publish_snapshot cfg ?u = publish_snapshot cfg cy"
    by (simp add: publish_snapshot_def with_upstream_def record_ok_def fun_eq_iff cong: sum.case_cong if_cong)
  ultimately show "poll cfg ?u ctx p = poll cfg cy ctx p"
    by (simp add: poll_phases fetch_phase_def publish_phase_def)
next
  let ?v = "cy\<lparr>cy_services := with_publishing other (cy_services cy)\<rparr>"
  assume "\<not> should_publish (cfg_Mode cfg)"
  moreover have "poll_alerts cfg ?v = poll_alerts cfg cy" "poll_storm_reports ?v = poll_storm_reports cy"
    by (simp_all add: poll_alerts_def poll_storm_reports_def fetch_feed_def fetch_ctx_def with_publishing_def
        record_ok_def fun_eq_iff cong: option.case_cong if_cong)
  ultimately show "poll cfg ?v ctx p = poll cfg cy ctx p"
    by (simp add: poll_phases fetch_phase_def publish_phase_def with_publishing_def)
qed

theorem roles_are_isolated_witness:
  "poll (sample_config ModePublish) ((sample_cycle payload upsert_ok)\<lparr>cy_services :=
      with_upstream (sample_services (Panics ''x'') (Panics ''y'')) (cy_services (sample_cycle payload upsert_ok))\<rparr>)
      None (poller_new None 0) =
    poll (sample_config ModePublish) (sample_cycle payload upsert_ok) None (poller_new None 0)"
  using roles_are_isolated [of "sample_config ModePublish"] by simp

end
