(* ===== verification/Checked_Read.thy ===== *)
theory Checked_Read
  imports Store Go_Panic
begin

text \<open>
  The read of the active alerts once more, now with every index, slice and submatch access checked
  as Go checks it: the parsers of \<open>internal/nws\<close>, the derivation of states, the collapse and
  \<open>GetActiveAlerts\<close>. Each function is shown to return what its unchecked model computes, so no
  stored row, however malformed, makes the read panic.
\<close>

section \<open>Storm motion\<close>

definition parse_pair_go :: "(rat \<Rightarrow> rat option) \<Rightarrow> string \<Rightarrow> (motion_error + point) call" where
  "parse_pair_go fl f =
     (let pm = find_submatch pair_re f
      in if pm = None then Returns (Inl (BadPair f))
         else then_go (go_submatch pair_re pm 1) (\<lambda>s1.
           case parse_float fl s1 of
             None \<Rightarrow> Returns (Inl (LatSyntax f))
           | Some lat \<Rightarrow> then_go (go_submatch pair_re pm 2) (\<lambda>s2.
               case parse_float fl s2 of
                 None \<Rightarrow> Returns (Inl (LonSyntax f))
               | Some lon \<Rightarrow>
                   if lat < 10 \<or> lat > 75 then Returns (Inl (LatRange f))
                   else let lon = (if lon > 0 then - lon else lon)
                        in if lon < -180 \<or> lon > -60 then Returns (Inl (LonRange f))
                           else Returns (Inr (lat, lon)))))"

fun pairs_loop_go :: "(rat \<Rightarrow> rat option) \<Rightarrow> string list \<Rightarrow> point list \<Rightarrow> (motion_error + point list) call" where
  "pairs_loop_go fl [] points = Returns (Inr points)"
| "pairs_loop_go fl (f # fs) points =
     then_go (parse_pair_go fl f) (\<lambda>r.
       case r of Inl e \<Rightarrow> Returns (Inl e) | Inr p \<Rightarrow> pairs_loop_go fl fs (points @ [p]))"

definition parse_coord_pairs_go :: "(rat \<Rightarrow> rat option) \<Rightarrow> string \<Rightarrow> (motion_error + point list) call" where
  "parse_coord_pairs_go fl s =
     (let fs = str_fields s in if fs = [] then Returns (Inl EmptyCoordinates) else pairs_loop_go fl fs [])"

definition motion_of_entry_go ::
  "(rat \<Rightarrow> rat option) \<Rightarrow> (string \<Rightarrow> time option) \<Rightarrow> time \<Rightarrow> string \<Rightarrow> (motion_error + storm_motion option) call" where
  "motion_of_entry_go fl parse_time now raw =
     (let m = find_submatch motion_re raw
      in if m = None then Returns (Inl (NotCanonical raw))
         else then_go (go_submatch motion_re m 1) (\<lambda>tsRaw.
              then_go (go_submatch motion_re m 2) (\<lambda>dirRaw.
              then_go (go_submatch motion_re m 3) (\<lambda>ktRaw.
              then_go (go_submatch motion_re m 4) (\<lambda>coordsRaw.
           case atoi dirRaw of
             None \<Rightarrow> Returns (Inl (DirectionRange dirRaw))
           | Some direction \<Rightarrow>
               if direction < 0 \<or> 360 \<le> direction then Returns (Inl (DirectionRange dirRaw))
               else case atoi ktRaw of
                 None \<Rightarrow> Returns (Inl (InvalidSpeed ktRaw))
               | Some speed \<Rightarrow>
                   if speed < 0 then Returns (Inl (InvalidSpeed ktRaw))
                   else then_go (parse_coord_pairs_go fl coordsRaw) (\<lambda>r.
                     case r of
                       Inl e \<Rightarrow> Returns (Inl e)
                     | Inr points \<Rightarrow>
                         if length points = 0 then Returns (Inl (NoPairs coordsRaw))
                         else then_go (go_index points 0) (\<lambda>origin.
                           Returns (Inr (Some
                             \<lparr>OriginLat = fst origin, OriginLon = snd origin, DirectionDeg = direction,
                              SpeedKt = speed,
                              ValidAt = (case parse_motion_timestamp parse_time tsRaw of
                                           None \<Rightarrow> now | Some t \<Rightarrow> t),
                              Points = (if length points > 1 then points else [])\<rparr>)))))))))"

definition parse_event_motion_go ::
  "(rat \<Rightarrow> rat option) \<Rightarrow> (string \<Rightarrow> time option) \<Rightarrow> time \<Rightarrow> params \<Rightarrow> (motion_error + storm_motion option) call" where
  "parse_event_motion_go fl parse_time now ps =
     (case ps ''eventMotionDescription'' of
        None \<Rightarrow> Returns (Inr None)
      | Some entries \<Rightarrow>
          if length entries = 0 then Returns (Inr None)
          else then_go (go_index entries 0) (\<lambda>raw.
            if trim_space raw = '''' then Returns (Inr None)
            else motion_of_entry_go fl parse_time now raw))"

lemma group_counts [simp]:
  "group_count pair_re = 2" "group_count motion_re = 4" "group_count pvtec_re = 6"
  "group_count tag_line_re = 2" "group_count hazard_line_re = 1" "group_count source_line_re = 1"
  by code_simp+

lemma parse_pair_checked: "parse_pair_go fl f = Returns (parse_pair fl f)"
  by (auto simp: parse_pair_go_def parse_pair_def Let_def split: option.split)

lemma pairs_loop_checked: "pairs_loop_go fl fs points = Returns (pairs_loop fl fs points)"
  by (induction fl fs points rule: pairs_loop_go.induct) (auto simp: parse_pair_checked split: sum.split)

lemma parse_coord_pairs_checked: "parse_coord_pairs_go fl s = Returns (parse_coord_pairs fl s)"
  by (simp add: parse_coord_pairs_go_def parse_coord_pairs_def pairs_loop_checked Let_def)

lemma parse_event_motion_checked:
  "parse_event_motion_go fl parse_time now ps = Returns (parse_event_motion fl parse_time now ps)"
proof (cases "ps ''eventMotionDescription''")
  case None
  then show ?thesis by (simp add: parse_event_motion_go_def parse_event_motion_def)
next
  case (Some entries)
  show ?thesis
  proof (cases entries)
    case Nil
    with Some show ?thesis by (simp add: parse_event_motion_go_def parse_event_motion_def)
  next
    case (Cons raw more)
    show ?thesis
    proof (cases "find_submatch motion_re raw")
      case None
      with Some Cons show ?thesis
        by (simp add: parse_event_motion_go_def parse_event_motion_def motion_of_entry_go_def Let_def)
    next
      case m: (Some m)
      from Some Cons m show ?thesis
        by (auto simp: parse_event_motion_go_def parse_event_motion_def motion_of_entry_go_def Let_def
            parse_coord_pairs_checked not_le split: option.split sum.split list.split)
    qed
  qed
qed

section \<open>States\<close>

definition state_for_same_code_go :: "string \<Rightarrow> string option call" where
  "state_for_same_code_go same =
     (if length same < 3 then Returns None
      else then_go (go_slice same 1 3) (\<lambda>d. Returns (map_of fips_state_codes d)))"

fun same_loop_go :: "string list \<Rightarrow> string list \<Rightarrow> string list call" where
  "same_loop_go [] seen = Returns seen"
| "same_loop_go (c # cs) seen =
     then_go (state_for_same_code_go c) (\<lambda>st.
       case st of
         Some st \<Rightarrow> same_loop_go cs (List.insert st seen)
       | None \<Rightarrow> same_loop_go cs seen)"

text \<open>\<open>strings.LastIndex\<close> of a byte, \<open>None\<close> for -1.\<close>

fun last_index :: "char \<Rightarrow> string \<Rightarrow> nat option" where
  "last_index d [] = None"
| "last_index d (c # s) =
     (case last_index d s of Some i \<Rightarrow> Some (Suc i) | None \<Rightarrow> if c = d then Some 0 else None)"

fun segments_loop_go :: "string list \<Rightarrow> string list \<Rightarrow> string list call" where
  "segments_loop_go [] seen = Returns seen"
| "segments_loop_go (s # ss) seen =
     (let segment = trim_space s
      in case last_index (CHR '','') segment of
           None \<Rightarrow> segments_loop_go ss seen
         | Some pos \<Rightarrow> then_go (go_slice_from segment (pos + 1)) (\<lambda>rest.
             let candidate = trim_space rest; upper = to_upper candidate
             in if length candidate = 2 \<and> is_valid_state_code upper
                then segments_loop_go ss (List.insert upper seen)
                else segments_loop_go ss seen))"

definition derive_states_go :: "string list \<Rightarrow> string \<Rightarrow> (string list \<times> bool) call" where
  "derive_states_go sameCodes areaDesc =
     then_go (same_loop_go sameCodes []) (\<lambda>seen.
       let usedFallback = (seen = [] \<and> areaDesc \<noteq> '''')
       in then_go (if usedFallback then segments_loop_go (split_on (CHR '';'') areaDesc) seen else Returns seen)
            (\<lambda>seen. Returns (sort seen, usedFallback)))"

lemma state_for_same_code_checked: "state_for_same_code_go same = Returns (state_for_same_code same)"
  by (simp add: state_for_same_code_go_def state_for_same_code_def take_drop)

lemma same_loop_checked: "same_loop_go cs seen = Returns (same_loop cs seen)"
  by (induction cs seen rule: same_loop.induct) (auto simp: state_for_same_code_checked split: option.split)

lemma last_index_after:
  "after_last d s = map_option (\<lambda>i. drop (Suc i) s) (last_index d s) \<and>
     (\<forall>i. last_index d s = Some i \<longrightarrow> i < length s)"
  by (induction s) (auto split: option.splits)

lemma segments_loop_checked: "segments_loop_go ss seen = Returns (segments_loop ss seen)"
proof (induction ss arbitrary: seen)
  case (Cons s ss)
  then show ?case
    using last_index_after [of "CHR '',''" "trim_space s"]
    by (cases "last_index (CHR '','') (trim_space s)") (auto simp: Let_def Suc_le_eq)
qed simp

lemma derive_states_checked: "derive_states_go cs a = Returns (derive_states cs a)"
  by (simp add: derive_states_go_def derive_states_def same_loop_checked segments_loop_checked Let_def)

section \<open>VTEC and tags\<close>

definition vtec_of_groups_go :: "captures option \<Rightarrow> vtec call" where
  "vtec_of_groups_go m =
     then_go (go_submatch pvtec_re m 1) (\<lambda>m1. then_go (go_submatch pvtec_re m 2) (\<lambda>m2.
     then_go (go_submatch pvtec_re m 3) (\<lambda>m3. then_go (go_submatch pvtec_re m 4) (\<lambda>m4.
     then_go (go_submatch pvtec_re m 5) (\<lambda>m5. then_go (go_submatch pvtec_re m 6) (\<lambda>m6.
       Returns \<lparr>ProductClass = m1, Action = m2, Office = m3, Phenomenon = m4, Significance = m5,
                ETN = m6\<rparr>))))))"

fun vtec_loop_go :: "bool \<Rightarrow> string list \<Rightarrow> (bool + vtec) call" where
  "vtec_loop_go saw [] = Returns (Inl saw)"
| "vtec_loop_go saw (s # ss) =
     (let s' = trim_space s
      in if s' = '''' then vtec_loop_go saw ss
         else let m = find_submatch pvtec_re s'
              in if m = None then vtec_loop_go True ss
                 else then_go (vtec_of_groups_go m) (\<lambda>v. Returns (Inr v)))"

definition parse_vtec_go :: "params \<Rightarrow> (vtec_error + vtec option) call" where
  "parse_vtec_go params =
     (case params ''VTEC'' of
        None \<Rightarrow> Returns (Inr None)
      | Some raw \<Rightarrow>
          if raw = [] then Returns (Inr None)
          else then_go (vtec_loop_go False raw) (\<lambda>r.
            case r of
              Inr v \<Rightarrow> Returns (Inr (Some v))
            | Inl sawNonBlank \<Rightarrow>
                Returns (if \<not> sawNonBlank then Inr None else Inl (NoParseablePVTEC raw))))"

definition tag_line_go :: "string \<Rightarrow> (string \<times> string) option call" where
  "tag_line_go line =
     (let l = trim_space line
      in if l = '''' then Returns None
         else let m = find_submatch tag_line_re l
              in if m = None then Returns None
                 else then_go (go_submatch tag_line_re m 1) (\<lambda>m1.
                      then_go (go_submatch tag_line_re m 2) (\<lambda>m2.
                        let key = normalize_key m1; v = trim_space m2
                        in Returns (if v = '''' then None else Some (key, v)))))"

fun tags_loop_go :: "string list \<Rightarrow> warning_tags \<Rightarrow> warning_tags call" where
  "tags_loop_go [] t = Returns t"
| "tags_loop_go (line # lines) t =
     then_go (tag_line_go line) (\<lambda>r.
       case r of
         None \<Rightarrow> tags_loop_go lines t
       | Some (key, v) \<Rightarrow> tags_loop_go lines (assign_tag tag_keys key v t))"

definition parse_warning_tags_go :: "string \<Rightarrow> warning_tags option call" where
  "parse_warning_tags_go description =
     (case tag_block description of
        None \<Rightarrow> Returns None
      | Some block \<Rightarrow>
          then_go (tags_loop_go (split_on (CHR 0x0A) block) no_tags) (\<lambda>tags.
            Returns (if tags_is_empty (Some tags) then None else Some tags)))"

lemma vtec_of_groups_checked: "vtec_of_groups_go (Some m) = Returns (vtec_of_groups m)"
  by (simp add: vtec_of_groups_go_def vtec_of_groups_def)

lemma vtec_loop_checked: "vtec_loop_go saw ss = Returns (vtec_loop saw ss)"
  by (induction saw ss rule: vtec_loop.induct) (auto simp: vtec_of_groups_checked Let_def split: option.split)

lemma parse_vtec_checked: "parse_vtec_go ps = Returns (parse_vtec ps)"
  by (auto simp: parse_vtec_go_def parse_vtec_def vtec_loop_checked split: option.split sum.split)

lemma tag_line_checked: "tag_line_go line = Returns (tag_line line)"
  by (auto simp: tag_line_go_def tag_line_def Let_def split: option.split)

lemma tags_loop_checked: "tags_loop_go lines t = Returns (tags_loop lines t)"
  by (induction lines arbitrary: t) (auto simp: tag_line_checked split: option.split)

lemma parse_warning_tags_checked: "parse_warning_tags_go d = Returns (parse_warning_tags d)"
  by (auto simp: parse_warning_tags_go_def parse_warning_tags_def tags_loop_checked Let_def split: option.split)

section \<open>Tornado detection\<close>

definition is_tornado_hazard_go :: "string \<Rightarrow> bool call" where
  "is_tornado_hazard_go description =
     (let m = find_submatch hazard_line_re description
      in if m = None then Returns False
         else then_go (go_submatch hazard_line_re m 1) (\<lambda>haz.
           if \<not> contains (to_lower haz) ''tornado'' then Returns False
           else Returns (\<not> match_string svr_hazard_exclusion_re haz)))"

definition narrative_source_go :: "string \<Rightarrow> string call" where
  "narrative_source_go description =
     (let m = find_submatch source_line_re description
      in if m \<noteq> None
         then then_go (go_submatch source_line_re m 1) (\<lambda>m1.
           Returns (trim_right_chars [CHR ''.''] (trim_space m1)))
         else Returns '''')"

definition tier3_detection_go ::
  "detection_state option \<Rightarrow> string \<Rightarrow> string \<Rightarrow> detection_state option call" where
  "tier3_detection_go det description narrative =
     (if det = None
      then then_go (is_tornado_hazard_go description) (\<lambda>haz.
        Returns (if haz \<and> contains (to_upper narrative) ''RADAR INDICATED''
                 then Some DetectionRadarIndicated else det))
      else Returns det)"

text \<open>The tag block is read through its pointer, which is nil without tags.\<close>

definition tier2_go ::
  "detection_state option \<Rightarrow> damage_threat \<Rightarrow> warning_tags option \<Rightarrow>
   ((detect_error + detection_state option) \<times> damage_threat \<times> string) call" where
  "tier2_go det1 threat1 tags =
     (if tags \<noteq> None
      then then_go (go_deref tags) (\<lambda>t.
        Returns (tier2_detection det1 t, tier2_threat threat1 t, trim_space (Source t)))
      else Returns (Inr det1, threat1, ''''))"

definition detect_tornado_go :: "params \<Rightarrow> string \<Rightarrow> (detect_error + tornado_detection option) call" where
  "detect_tornado_go ps description =
     (case tier1_detection ps of
        Inl e \<Rightarrow> Returns (Inl e)
      | Inr det1 \<Rightarrow>
          then_go (parse_warning_tags_go description) (\<lambda>tags.
          then_go (tier2_go det1 (tier1_threat ps) tags) (\<lambda>(r, threat2, source2).
            case r of
              Inl e \<Rightarrow> Returns (Inl e)
            | Inr det2 \<Rightarrow>
                then_go (narrative_source_go description) (\<lambda>narrative.
                  let source3 = (if source2 = '''' \<and> narrative \<noteq> '''' then narrative else source2)
                  in then_go (tier3_detection_go det2 description narrative) (\<lambda>det3.
                    case det3 of
                      None \<Rightarrow> Returns (Inr None)
                    | Some d \<Rightarrow>
                        Returns (Inr (Some \<lparr>Detection = d, Confirmed = (d = DetectionObserved),
                                            DamageThreat = threat2, SourceText = source3\<rparr>)))))))"

lemma is_tornado_hazard_checked: "is_tornado_hazard_go d = Returns (is_tornado_hazard d)"
  by (auto simp: is_tornado_hazard_go_def is_tornado_hazard_def Let_def split: option.split)

lemma narrative_source_checked: "narrative_source_go d = Returns (narrative_source d)"
  by (auto simp: narrative_source_go_def narrative_source_def Let_def split: option.split)

lemma tier3_detection_checked:
  "n = narrative_source d \<Longrightarrow> tier3_detection_go det d n = Returns (tier3_detection det d)"
  by (auto simp: tier3_detection_go_def tier3_detection_def is_tornado_hazard_checked)

lemma tier2_checked:
  "tier2_go det1 threat1 tags = Returns
     (case tags of None \<Rightarrow> Inr det1 | Some t \<Rightarrow> tier2_detection det1 t,
      case tags of None \<Rightarrow> threat1 | Some t \<Rightarrow> tier2_threat threat1 t,
      case tags of None \<Rightarrow> '''' | Some t \<Rightarrow> trim_space (Source t))"
  by (auto simp: tier2_go_def)

lemma detect_tornado_checked: "detect_tornado_go ps d = Returns (detect_tornado ps d)"
  by (auto simp: detect_tornado_go_def detect_tornado_def parse_warning_tags_checked tier2_checked
      narrative_source_checked tier3_detection_checked Let_def split: option.split sum.split)

section \<open>The collapse\<close>

fun collapse_loop_go ::
  "active_alert list \<Rightarrow> (string \<Rightarrow> nat option) \<Rightarrow> active_alert list \<Rightarrow> active_alert list call" where
  "collapse_loop_go [] winners out = Returns out"
| "collapse_loop_go (a # alerts) winners out =
     (if eventID a = '''' then collapse_loop_go alerts winners (out @ [a])
      else let key = collapse_key a
           in case winners key of
                None \<Rightarrow> collapse_loop_go alerts (winners(key \<mapsto> length out)) (out @ [a])
              | Some idx \<Rightarrow> then_go (go_index out idx) (\<lambda>incumbent.
                  if later_issuance a incumbent
                  then then_go (go_update out idx a) (\<lambda>out. collapse_loop_go alerts winners out)
                  else collapse_loop_go alerts winners out))"

definition collapse_by_event_go :: "active_alert list \<Rightarrow> active_alert list call" where
  "collapse_by_event_go alerts = collapse_loop_go alerts Map.empty []"

text \<open>The index of a winner is a place of \<open>out\<close>, which only grows.\<close>

lemma collapse_loop_checked:
  "\<forall>k i. winners k = Some i \<longrightarrow> i < length out \<Longrightarrow>
     collapse_loop_go alerts winners out = Returns (snd (fold collapse_step alerts (winners, out)))"
proof (induction alerts arbitrary: winners out)
  case (Cons a alerts)
  show ?case
  proof (cases "eventID a = ''''")
    case True
    have "\<forall>k i. winners k = Some i \<longrightarrow> i < length (out @ [a])" using Cons.prems by fastforce
    with Cons.IH True show ?thesis by (simp add: collapse_step_def)
  next
    case vtec: False
    show ?thesis
    proof (cases "winners (collapse_key a)")
      case None
      have "\<forall>k i. (winners(collapse_key a \<mapsto> length out)) k = Some i \<longrightarrow> i < length (out @ [a])"
        using Cons.prems by (auto simp: less_Suc_eq)
      from Cons.IH [OF this] None vtec show ?thesis
        by (simp add: collapse_step_def del: fun_upd_apply)
    next
      case (Some idx)
      with Cons.prems have "idx < length out" by blast
      with Cons.IH [of winners "out[idx := a]"] Cons.IH [of winners out] Cons.prems Some vtec show ?thesis
        by (simp add: collapse_step_def)
    qed
  qed
qed simp

lemma collapse_by_event_checked: "collapse_by_event_go alerts = Returns (collapse_by_event alerts)"
  by (simp add: collapse_by_event_go_def collapse_by_event_def collapse_loop_checked)

section \<open>The read\<close>

definition active_alert_go :: "read_env \<Rightarrow> event_row \<Rightarrow> active_alert call" where
  "active_alert_go env r =
     (let (parameters, geocode) =
            (if er_properties r \<noteq> '''' then fst (rd_unmarshal env (er_properties r))
             else (Map.empty, \<lparr>SAME = [], UGC = []\<rparr>))
      in then_go (parse_event_motion_go (rd_float env) (rd_parse_time env) (rd_clock env (er_nws_id r)) parameters)
           (\<lambda>motion.
         then_go (derive_states_go (SAME geocode) (er_area_desc r)) (\<lambda>(states, usedFallback).
         then_go (parse_warning_tags_go (er_description r)) (\<lambda>tags.
         then_go (detect_tornado_go parameters (er_description r)) (\<lambda>detection.
         then_go (parse_vtec_go parameters) (\<lambda>v.
         let (event, act) = (case v of Inr (Some v) \<Rightarrow> (event_id v, Action v) | _ \<Rightarrow> ('''', ''''))
         in Returns
             \<lparr>NWSID = er_nws_id r, EventType = er_event_type r, aa_Severity = er_severity r,
              aa_Headline = er_headline r, aa_Description = er_description r,
              aa_AreaDesc = er_area_desc r, aa_States = states,
              aa_Geometry = map_option (rd_geojson env) (er_geometry r),
              EffectiveAt = er_effective_at r, ExpiresAt = er_expires_at r,
              StormMotion = (case motion of Inl _ \<Rightarrow> None | Inr m \<Rightarrow> m), WarningTags = tags,
              Tornado = (case detection of Inl _ \<Rightarrow> None | Inr d \<Rightarrow> d),
              VTECEventID = event, VTECAction = act, eventID = event\<rparr>))))))"

definition get_active_alerts_go :: "read_env \<Rightarrow> event_row list \<Rightarrow> (read_err + active_alert list) call" where
  "get_active_alerts_go env rs =
     (let (read, err) = read_rows (rd_fault env) (active_rows (rd_scan env) (rd_now env) rs)
      in then_go (map_go (active_alert_go env) read) (\<lambda>alerts.
           case err of
             Some e \<Rightarrow> Returns (Inl e)
           | None \<Rightarrow> then_go (collapse_by_event_go alerts) (\<lambda>alerts. Returns (Inr alerts))))"

lemma active_alert_checked: "active_alert_go env r = Returns (active_alert_of env r)"
  by (simp add: active_alert_go_def active_alert_of_def parse_event_motion_checked derive_states_checked
      parse_warning_tags_checked detect_tornado_checked parse_vtec_checked Let_def split_beta)

text \<open>
  The checked read returns what the read of the store model returns, on every table; evaluation
  uses that equation.
\<close>

theorem get_active_alerts_checked [code]: "get_active_alerts_go env rs = Returns (get_active_alerts env rs)"
proof -
  have "active_alert_go env = (\<lambda>r. Returns (active_alert_of env r))"
    by (rule ext) (rule active_alert_checked)
  then show ?thesis
    by (simp add: get_active_alerts_go_def get_active_alerts_def collapse_by_event_checked split_beta
        split: option.split)
qed

end
