(* ===== verification/System.thy ===== *)
theory System
  imports Poller Checked_Read
begin

text \<open>
  The service as \<open>cmd/ingest/main.go\<close> wires it: the poller over the NWS and SPC clients, the store
  and the publishers. The world of a cycle is the ETag cache, the database and the destinations; what
  the network, the server and the destinations do in a cycle is its environment. The report fetches
  and the read of the active alerts are the checked ones, which panic where Go would; the other
  calls have no index, slice or pointer that could fail, and return.
\<close>

section \<open>The wiring\<close>

record system =
  sy_etags :: etag_cache
  sy_db :: db
  sy_dests :: dests

record sys_env =
  se_decode :: "string \<Rightarrow> alerts_response option"
  se_alerts :: "nat \<Rightarrow> http_attempt"
  se_reports :: "feed \<Rightarrow> nat \<Rightarrow> spc_attempt"
  se_float :: "rat \<Rightarrow> rat option"
  se_parse_time :: "string \<Rightarrow> time option"
  se_marshal :: "alert_properties \<Rightarrow> string option"
  se_batch :: batch_env
  se_report_batch :: report_env
  se_read :: read_env
  se_purge_err :: "db_err option"
  se_purge_now :: time
  se_encode :: "snapshot \<Rightarrow> string option"
  se_encode_state :: "state_snapshot \<Rightarrow> string option"
  se_format :: "time \<Rightarrow> string"
  se_put :: "nat \<Rightarrow> file_env \<times> (nat \<Rightarrow> put_outcome)"

record wiring =
  wi_nws :: nws_client
  wi_spc :: spc_client
  wi_dir :: string                      \<comment> \<open>the snapshot directory\<close>
  wi_r2 :: bool                         \<comment> \<open>the R2 publisher is configured\<close>

definition sys_fetch_alerts ::
  "wiring \<Rightarrow> sys_env \<Rightarrow> time option \<Rightarrow> string \<Rightarrow> system \<Rightarrow>
   (alerts_response option \<times> fetch_error option) call \<times> system" where
  "sys_fetch_alerts wi se ctx area w =
     (case fetch_active_alerts (wi_nws wi) ctx (se_decode se) (se_alerts se) area (sy_etags w) of
        ((r, etags), requests) \<Rightarrow> (Returns r, w\<lparr>sy_etags := etags\<rparr>))"

definition sys_upsert_alerts ::
  "sys_env \<Rightarrow> time option \<Rightarrow> alert list \<Rightarrow> system \<Rightarrow> batch_result call \<times> system" where
  "sys_upsert_alerts se ctx alerts w =
     (case upsert_alerts_batch (se_parse_time se) (se_marshal se) (se_batch se) alerts
             (weather_events (sy_db w)) of
        (res, rs) \<Rightarrow> (Returns res, w\<lparr>sy_db := (sy_db w)\<lparr>weather_events := rs\<rparr>\<rparr>))"

definition sys_upsert_reports ::
  "sys_env \<Rightarrow> time option \<Rightarrow> storm_report list \<Rightarrow> system \<Rightarrow> (nat \<times> bool \<times> db_err option) call \<times> system" where
  "sys_upsert_reports se ctx reports w =
     (case upsert_storm_reports_batch (se_report_batch se) reports (storm_reports (sy_db w)) of
        (res, rs) \<Rightarrow> (Returns res, w\<lparr>sy_db := (sy_db w)\<lparr>storm_reports := rs\<rparr>\<rparr>))"

definition sys_purge :: "sys_env \<Rightarrow> time option \<Rightarrow> system \<Rightarrow> (nat \<times> db_err option) call \<times> system" where
  "sys_purge se ctx w =
     (case store_purge_expired (se_purge_err se) (se_purge_now se) (weather_events (sy_db w)) of
        (res, rs) \<Rightarrow> (Returns res, w\<lparr>sy_db := (sy_db w)\<lparr>weather_events := rs\<rparr>\<rparr>))"

definition sys_publish ::
  "wiring \<Rightarrow> sys_env \<Rightarrow> nat \<Rightarrow> time option \<Rightarrow> snapshot \<Rightarrow> system \<Rightarrow> pub_err option call \<times> system" where
  "sys_publish wi se i ctx sn w =
     (let pubs = file_pub (se_encode se) (wi_dir wi) (fst (se_put se i)) #
                 (if wi_r2 wi then [r2_pub (se_encode se) (se_format se) (snd (se_put se i))] else [])
      in case multi_publish pubs sn (sy_dests w) of (r, d) \<Rightarrow> (Returns r, w\<lparr>sy_dests := d\<rparr>))"

definition sys_publish_state :: "wiring \<Rightarrow> sys_env \<Rightarrow> (file_env \<times> put_outcome, system) state_publisher" where
  "sys_publish_state wi se e ctx s w =
     (case main_publish_state (se_encode_state se) (wi_dir wi) (wi_r2 wi) e ctx s (sy_dests w) of
        (r, d) \<Rightarrow> (r, w\<lparr>sy_dests := d\<rparr>))"

definition main_services :: "wiring \<Rightarrow> sys_env \<Rightarrow> (file_env \<times> put_outcome, system) services" where
  "main_services wi se =
     \<lparr>sv_alerts = sys_fetch_alerts wi se,
      sv_tornado = (\<lambda>ctx w. (fst (fetch_today_tornado_reports (se_float se) (wi_spc wi) ctx
                                    (se_reports se FeedSPCTorn)), w)),
      sv_hail = (\<lambda>ctx w. (fst (fetch_today_hail_reports (se_float se) (wi_spc wi) ctx
                                 (se_reports se FeedSPCHail)), w)),
      sv_wind = (\<lambda>ctx w. (fst (fetch_today_wind_reports (se_float se) (wi_spc wi) ctx
                                 (se_reports se FeedSPCWind)), w)),
      sv_upsert_alerts = sys_upsert_alerts se,
      sv_upsert_reports = sys_upsert_reports se,
      sv_active_alerts = (\<lambda>ctx w. (get_active_alerts_go (se_read se) (weather_events (sy_db w)), w)),
      sv_purge = sys_purge se,
      sv_publish = sys_publish wi se,
      sv_publish_state = sys_publish_state wi se\<rparr>"

text \<open>A cycle of the service is wired when its collaborators are these.\<close>

definition wired :: "wiring \<Rightarrow> sys_env \<Rightarrow> (file_env \<times> put_outcome, system) cycle \<Rightarrow> bool" where
  "wired wi se cy \<longleftrightarrow> cy_services cy = main_services wi se"

lemma main_services_simps [simp]:
  "sv_alerts (main_services wi se) = sys_fetch_alerts wi se"
  "sv_upsert_alerts (main_services wi se) = sys_upsert_alerts se"
  "sv_upsert_reports (main_services wi se) = sys_upsert_reports se"
  "sv_active_alerts (main_services wi se) =
     (\<lambda>ctx w. (Returns (get_active_alerts (se_read se) (weather_events (sy_db w))), w))"
  "sv_purge (main_services wi se) = sys_purge se"
  "sv_publish (main_services wi se) = sys_publish wi se"
  "sv_publish_state (main_services wi se) = sys_publish_state wi se"
  by (simp_all add: main_services_def get_active_alerts_checked)

text \<open>The fetch of a report feed never panics, whatever the file holds.\<close>

lemma spc_feeds_return [simp]:
  "\<exists>reports err. fst (fetch_today_tornado_reports fl c dl env) = Returns (reports, err)"
  "\<exists>reports err. fst (fetch_today_hail_reports fl c dl env) = Returns (reports, err)"
  "\<exists>reports err. fst (fetch_today_wind_reports fl c dl env) = Returns (reports, err)"
  unfolding fetch_today_tornado_reports_def fetch_today_hail_reports_def fetch_today_wind_reports_def
  using fetch_reports_returns by (metis surj_pair)+

section \<open>The fetcher's contract\<close>

text \<open>
  What the poller relies on when it reads \<open>alerts.Features\<close>: a fetch returns a response or an error,
  never neither, so a nil error comes with a response.
\<close>

locale alert_fetcher =
  fixes fetch :: "time option \<Rightarrow> string \<Rightarrow> 'w \<Rightarrow> (alerts_response option \<times> fetch_error option) call \<times> 'w"
  assumes returns: "\<exists>resp err. fst (fetch ctx area w) = Returns (resp, err) \<and> (resp = None \<longleftrightarrow> err \<noteq> None)"
begin

lemma never_fetch_panic:
  "sv_alerts (cy_services cy) = fetch \<Longrightarrow> alerts_result cfg cy ctx p \<noteq> FetchPanic"
  using returns [of "fetch_ctx cy FeedAlerts AlertsFetchBudgetPercent ctx" "join '','' (Areas cfg)" "po_world p"]
  by (auto simp: alerts_result_def split: prod.splits call.splits option.splits)

end

interpretation nws_fetcher: alert_fetcher "sys_fetch_alerts wi se" for wi se
proof
  fix ctx area and w :: system
  let ?f = "fetch_active_alerts (wi_nws wi) ctx (se_decode se) (se_alerts se) area (sy_etags w)"
  obtain resp err etags requests where f: "?f = (((resp, err), etags), requests)" by (metis surj_pair)
  obtain k where "attempt_answer (se_decode se) (alerts_endpoint (wi_nws wi) area) (sy_etags w) (se_alerts se k) =
      ((resp, err), etags)"
    using f by (metis fetch_active_alerts_answer fst_conv)
  then have "one_of (resp, err)" using attempt_answer_one_of by (metis fst_conv)
  then show "\<exists>resp err. fst (sys_fetch_alerts wi se ctx area w) = Returns (resp, err) \<and> (resp = None \<longleftrightarrow> err \<noteq> None)"
    by (simp add: sys_fetch_alerts_def f one_of_def)
qed

section \<open>A wired cycle never panics\<close>

lemma returns_and_then:
  "\<exists>a. fst m = Returns a \<Longrightarrow> (\<And>a t. \<exists>b. fst (f a t) = Returns b) \<Longrightarrow> \<exists>b. fst (and_then m f) = Returns b"
  by (cases m) (auto simp: and_then_def)

lemma returns_on_world: "(\<And>w. \<exists>a. fst (f w) = Returns a) \<Longrightarrow> \<exists>a. fst (on_world f p) = Returns a"
  by (simp add: on_world_simp)

lemma sys_returns:
  "\<exists>r. fst (sys_upsert_alerts se ctx as w) = Returns r"
  "\<exists>r. fst (sys_upsert_reports se ctx rs w) = Returns r"
  "\<exists>r. fst (sys_purge se ctx w) = Returns r"
  "\<exists>r. fst (sys_publish wi se i ctx sn w) = Returns r"
  unfolding sys_upsert_alerts_def sys_upsert_reports_def sys_purge_def sys_publish_def Let_def
  by (auto split: prod.splits)

lemma fetch_feed_returns: "(\<And>ctx w. \<exists>r. fst (fetch ctx w) = Returns r) \<Longrightarrow> \<exists>rs. fst (fetch_feed cy f fetch ctx p) = Returns rs"
  unfolding fetch_feed_def by (rule returns_and_then, rule returns_on_world) (auto simp: split_beta)

lemma poll_alerts_returns:
  assumes "wired wi se cy"
  shows "\<exists>r. fst (poll_alerts cfg cy ctx p) = Returns r"
proof -
  have "alerts_result cfg cy ctx p \<noteq> FetchPanic"
    by (rule nws_fetcher.never_fetch_panic [of cy wi se]) (use assms in \<open>simp add: wired_def\<close>)
  moreover have "fst (sys_upsert_alerts se c as w) \<noteq> Panics m" for c as w m
    using sys_returns(1) [of se c as w] by auto
  then have "alerts_result cfg cy ctx p \<noteq> UpsertPanic"
    using assms by (auto simp: alerts_result_def wired_def split: prod.splits call.splits option.splits)
  ultimately show ?thesis
    using poll_alerts_panics [of cfg cy ctx p] by (cases "fst (poll_alerts cfg cy ctx p)") auto
qed

lemma publish_with_retry_returns:
  assumes "\<And>i c w. \<exists>r. fst (fn i c w) = Returns r"
  shows "\<exists>b. fst (publish_with_retry ctx fn env w) = Returns b"
proof -
  let ?a = "answer_at fn ctx publishPutTimeout env w"
  have "0 < PublishPutMaxRetries + 1" by simp
  then obtain k where k: "attempt_publish ctx fn (PublishPutMaxRetries + 1) publishPutTimeout publishRetryDelay env w =
      ((if failed_call (?a k) \<and> k \<noteq> PublishPutMaxRetries + 1 - 1
        then Returns (Some (PubCtxErr (the (parent_ends ctx publishRetryDelay (env k))))) else ?a k),
       world_at fn ctx publishPutTimeout env w (Suc k))"
    by (rule attempt_publish_ends)
  obtain r where "?a k = Returns r" unfolding answer_at_def using assms by blast
  then show ?thesis by (auto simp: publish_with_retry_def k [simplified])
qed

lemma publish_snapshot_returns:
  assumes "wired wi se cy"
  shows "\<exists>b. fst (publish_snapshot cfg cy ctx p) = Returns b"
  unfolding publish_snapshot_def
proof (rule returns_and_then)
  show "\<exists>a. fst (on_world (sv_active_alerts (cy_services cy) ctx) p) = Returns a"
    using assms by (simp add: wired_def on_world_simp)
  have put: "\<exists>b. fst (publish_with_retry ctx (\<lambda>i c. sv_publish (cy_services cy) i c sn) (cy_put cy) w) = Returns b" for sn w
    using assms sys_returns(4) by (intro publish_with_retry_returns) (simp add: wired_def)
  fix r t
  show "\<exists>b. fst (case r of
      Inl err \<Rightarrow> (Returns False, t)
    | Inr alerts \<Rightarrow> (let sn = new_snapshot (cy_generated_at cy) (Areas cfg) alerts;
            p = t\<lparr>po_health := reset_publish_failures (po_health t)\<rparr>
        in and_then (on_world (publish_with_retry ctx (\<lambda>i c. sv_publish (cy_services cy) i c sn) (cy_put cy)) p)
             (\<lambda>mergedOK p. let p = if mergedOK then record_ok FeedPublish cy p else p;
                  (h, w) = publish_per_state (sv_publish_state (cy_services cy)) ctx (Areas cfg) alerts
                      (sn_GeneratedAt sn) (cy_sched cy) (po_health p, po_world p)
              in (Returns mergedOK, p\<lparr>po_health := h, po_world := w\<rparr>)))) = Returns b"
    by (cases r) (auto simp: Let_def split_beta intro!: returns_and_then returns_on_world put)
qed

lemma fetch_phase_returns:
  assumes "wired wi se cy"
  shows "\<exists>b. fst (fetch_phase cfg cy ctx bud p) = Returns b"
proof -
  have "\<exists>b. fst (poll_storm_reports cy c q) = Returns b" for c q
    using assms sys_returns(2) unfolding poll_storm_reports_def wired_def
    by (auto intro!: returns_and_then fetch_feed_returns returns_on_world simp: main_services_def split_beta)
  then show ?thesis
    using poll_alerts_returns [OF assms] sys_returns(3) assms
    by (auto simp: fetch_phase_def Let_def split_beta wired_def intro!: returns_and_then returns_on_world)
qed

text \<open>
  C14: a wired cycle runs to its end. Whatever the network, the server and the destinations do, no
  index, slice, submatch or pointer access of a cycle panics: every row of a report file has the
  fields that are read, every stored alert is read within bounds, the response the poller reads is
  never nil. So both phases always run, and failures upstream never keep the node from publishing.
\<close>

theorem wired_poll_returns:
  assumes "wired wi se cy"
  shows "\<exists>alertsOK p1 mergedOK p2.
    fetch_phase cfg cy ctx (fetch_budget cfg) p = (Returns alertsOK, p1) \<and>
    publish_phase cfg cy ctx (publish_budget cfg) p1 = (Returns mergedOK, p2) \<and>
    poll cfg cy ctx p = (Returns (), heartbeat cfg alertsOK mergedOK p2)"
proof -
  obtain a p1 where f: "fetch_phase cfg cy ctx (fetch_budget cfg) p = (Returns a, p1)"
    using fetch_phase_returns [OF assms] by (metis prod.collapse)
  obtain m p2 where g: "publish_phase cfg cy ctx (publish_budget cfg) p1 = (Returns m, p2)"
    using publish_snapshot_returns [OF assms] unfolding publish_phase_def by (metis prod.collapse)
  show ?thesis by (simp add: poll_phases f g)
qed

definition sample_sys_env :: sys_env where
  "sample_sys_env =
     \<lparr>se_decode = (\<lambda>_. None),
      se_alerts = (\<lambda>_. \<lparr>att_build_err = Some ''bad url'', att_outcome = TransportErr '''', att_now = 0,
                     att_rand = (\<lambda>n. 0), att_ctx_first = None\<rparr>),
      se_reports = (\<lambda>_ _. \<lparr>att_build_err = Some ''bad url'', att_outcome = TransportErr '''', att_now = 0,
                     att_rand = (\<lambda>n. 0), att_ctx_first = None, att_body_failed = False, att_clock = (\<lambda>_. 0)\<rparr>),
      se_float = Some, se_parse_time = (\<lambda>_. None), se_marshal = (\<lambda>_. None), se_batch = sample_batch_env,
      se_report_batch = sample_report_env, se_read = sample_read_env, se_purge_err = None, se_purge_now = 90,
      se_encode = (\<lambda>sn. Some (''{}'')), se_encode_state = sample_enc, se_format = (\<lambda>_. ''t''),
      se_put = (\<lambda>_. (\<lparr>fe_mkdir_fails = False, fe_written = None, fe_rename_fails = False\<rparr>, \<lambda>_. PutOk))\<rparr>"

definition sample_wiring :: wiring where
  "sample_wiring = \<lparr>wi_nws = new_client ''ua'', wi_spc = spc_new_client, wi_dir = ''snapshots'', wi_r2 = True\<rparr>"

definition sample_sys_cycle :: "(file_env \<times> put_outcome, system) cycle" where
  "sample_sys_cycle =
     \<lparr>cy_services = main_services sample_wiring sample_sys_env, cy_fetch_start = 0, cy_until = (\<lambda>_. 0),
      cy_timeout = (\<lambda>_. 0), cy_success = (\<lambda>_. 1), cy_publish_start = 2, cy_generated_at = 2,
      cy_put = sample_put_env, cy_sched = (\<lambda>_. (0, sample_pe, sample_meets PutOk))\<rparr>"

definition sample_system :: system where
  "sample_system =
     \<lparr>sy_etags = Map.empty, sy_db = \<lparr>weather_events = sample_table, storm_reports = []\<rparr>,
      sy_dests = \<lparr>d_files = Map.empty, d_bucket = Map.empty\<rparr>\<rparr>"

lemma sample_wired: "wired sample_wiring sample_sys_env sample_sys_cycle"
  by (simp add: wired_def sample_sys_cycle_def)

theorem wired_poll_returns_witness:
  "\<exists>p'. poll (sample_config ModeBoth) sample_sys_cycle None (poller_new new_registry sample_system) = (Returns (), p')"
  using wired_poll_returns [OF sample_wired, of "sample_config ModeBoth" None "poller_new new_registry sample_system"]
  by blast

section \<open>What a published cycle shows\<close>

definition file_at :: "wiring \<Rightarrow> system \<Rightarrow> string \<Rightarrow> string option" where
  "file_at wi w key = d_files (sy_dests w) (join_path (wi_dir wi) key)"

definition sys_shows :: "system \<Rightarrow> string \<Rightarrow> string option" where
  "sys_shows w a = r2_shows (sy_dests w) a"

definition live_object :: "system \<Rightarrow> string option" where
  "live_object w = object_data (d_bucket (sy_dests w)) SnapshotKey"

lemma sys_publish_state_r2:
  assumes "sys_publish_state (wi\<lparr>wi_r2 := True\<rparr>) se e ctx s w = (r, w')"
  shows "sys_shows w' a = sys_shows w a \<or> a = ss_AreaState s \<and> sys_shows w' a = se_encode_state se s"
    and "r = Returns None \<Longrightarrow> sys_shows w' (ss_AreaState s) = se_encode_state se s"
proof -
  obtain d where "main_publish_state (se_encode_state se) (wi_dir wi) True e ctx s (sy_dests w) = (r, d)"
    and w': "w' = w\<lparr>sy_dests := d\<rparr>"
    using assms by (auto simp: sys_publish_state_def split: prod.splits)
  from main_publish_r2 [OF this(1)] show
    "sys_shows w' a = sys_shows w a \<or> a = ss_AreaState s \<and> sys_shows w' a = se_encode_state se s"
    and "r = Returns None \<Longrightarrow> sys_shows w' (ss_AreaState s) = se_encode_state se s"
    by (simp_all add: w' sys_shows_def)
qed

interpretation sys_fan: state_puts "sys_publish_state (wi\<lparr>wi_r2 := True\<rparr>) se" sys_shows "se_encode_state se" for wi se
  by unfold_locales (use sys_publish_state_r2 in blast)+

lemma sys_publish_ok:
  assumes "sys_publish (wi\<lparr>wi_r2 := True\<rparr>) se i ctx sn w = (Returns None, w')"
  shows "live_object w' = se_encode se sn \<and> file_at wi w' SnapshotKey = se_encode se sn \<and> sy_db w' = sy_db w"
proof -
  let ?pubs = "[file_pub (se_encode se) (wi_dir wi) (fst (se_put se i)),
    r2_pub (se_encode se) (se_format se) (snd (se_put se i))]"
  obtain d where m: "multi_publish ?pubs sn (sy_dests w) = (None, d)" and w': "w' = w\<lparr>sy_dests := d\<rparr>"
    using assms by (auto simp: sys_publish_def split: prod.splits)
  obtain rf fs' where f: "file_publish (se_encode se) (wi_dir wi) (fst (se_put se i)) sn (d_files (sy_dests w)) = (rf, fs')"
    by fastforce
  obtain rb b' where b: "r2_publish (se_encode se) (se_format se) (snd (se_put se i)) sn (d_bucket (sy_dests w)) = (rb, b')"
    by fastforce
  have ne: "SnapshotKey \<noteq> history_key (se_format se) sn" by (simp add: SnapshotKey_def history_key_def)
  from multi_publish_both [of "se_encode se" "wi_dir wi" "fst (se_put se i)" "se_format se" "snd (se_put se i)" sn "sy_dests w"]
  obtain data where d: "d = (sy_dests w)\<lparr>d_files := fs', d_bucket := b'\<rparr>" "se_encode se sn = Some data"
    "fs' (join_path (wi_dir wi) SnapshotKey) = Some data"
    "b' = (d_bucket (sy_dests w))(SnapshotKey \<mapsto> \<lparr>ob_data = data, ob_content_type = json_utf8, ob_cache_control = CacheControlLive\<rparr>,
       history_key (se_format se) sn \<mapsto> \<lparr>ob_data = data, ob_content_type = json_utf8, ob_cache_control = CacheControlHistory\<rparr>)"
    by (auto simp: m f b)
  show ?thesis using ne by (simp add: w' d(1,2,3) live_object_def file_at_def object_data_def) (simp add: d(4))
qed

lemma sys_publish_state_frame:
  "live_object (snd (sys_publish_state wi se e ctx s w)) = live_object w \<and>
   file_at wi (snd (sys_publish_state wi se e ctx s w)) SnapshotKey = file_at wi w SnapshotKey \<and>
   sy_db (snd (sys_publish_state wi se e ctx s w)) = sy_db w"
proof -
  obtain r d where p: "main_publish_state (se_encode_state se) (wi_dir wi) (wi_r2 wi) e ctx s (sy_dests w) = (r, d)"
    by fastforce
  obtain rf w1 rb where m: "file_state_pub (se_encode_state se) (wi_dir wi) (fst e) s (sy_dests w) = (rf, w1)"
    "if wi_r2 wi then r2_state_pub (se_encode_state se) (snd e) s w1 = (rb, d) else rb = None \<and> d = w1"
    using p by (rule main_publish_state_cases)
  have ne: "per_state_key a \<noteq> SnapshotKey" for a by (simp add: per_state_key_def PerStateKeyPrefix_def SnapshotKey_def)
  have k: "file_key_ok SnapshotKey" by code_simp
  obtain fs' where fs: "file_put (wi_dir wi) (fst e) (per_state_key (ss_AreaState s)) (se_encode_state se s)
      (d_files (sy_dests w)) = (rf, fs')" "w1 = (sy_dests w)\<lparr>d_files := fs'\<rparr>"
    using m(1) by (auto simp: file_state_pub_def file_publish_state_def split: prod.splits)
  have "d_files w1 (join_path (wi_dir wi) SnapshotKey) = d_files (sy_dests w) (join_path (wi_dir wi) SnapshotKey)"
    using file_put_cases(1) [OF fs(1) per_state_key_ok k] ne [of "ss_AreaState s"] by (auto simp: fs(2))
  moreover have "d_files d = d_files w1" using m(2) r2_state_pub_shows(3) by (auto split: if_splits)
  moreover have "d_bucket d SnapshotKey = d_bucket w1 SnapshotKey"
    using m(2) ne [of "ss_AreaState s"] not_sym [OF ne [of "ss_AreaState s"]]
    by (auto simp: r2_state_pub_def r2_publish_state_def put_object_def Let_def
        split: if_splits option.splits put_outcome.splits)
  moreover have "d_bucket w1 = d_bucket (sy_dests w)" using file_state_pub_shows(2) [OF m(1)] .
  ultimately show ?thesis by (simp add: sys_publish_state_def p live_object_def object_data_def file_at_def)
qed

lemma publish_with_retry_ok:
  assumes "publish_with_retry ctx fn env w = (Returns True, w')"
  obtains k c where "fn k c (world_at fn ctx publishPutTimeout env w k) = (Returns None, w')"
proof -
  let ?a = "answer_at fn ctx publishPutTimeout env w"
  have "0 < PublishPutMaxRetries + 1" by simp
  then obtain k where k: "attempt_publish ctx fn (PublishPutMaxRetries + 1) publishPutTimeout publishRetryDelay env w =
      ((if failed_call (?a k) \<and> k \<noteq> PublishPutMaxRetries + 1 - 1
        then Returns (Some (PubCtxErr (the (parent_ends ctx publishRetryDelay (env k))))) else ?a k),
       world_at fn ctx publishPutTimeout env w (Suc k))"
    by (rule attempt_publish_ends)
  have "?a k = Returns None" "w' = world_at fn ctx publishPutTimeout env w (Suc k)"
    using assms by (auto simp: publish_with_retry_def k [simplified] split: call.splits if_splits)
  then show thesis
    by (intro that [of k "with_timeout ctx (pe_now (env k)) publishPutTimeout"])
      (simp add: answer_at_def prod_eq_iff)
qed

lemma world_at_frame: "(\<And>i c v. g (snd (fn i c v)) = g v) \<Longrightarrow> g (world_at fn ctx t env w k) = g w"
  by (induction k) auto

lemma sys_publish_db: "sy_db (snd (sys_publish wi se i c sn v)) = sy_db v"
  by (simp add: sys_publish_def Let_def split_beta)

lemma publish_snapshot_cases:
  assumes "wired wi se cy" and "publish_snapshot cfg cy ctx p = (Returns True, p')"
  obtains alerts k c v w st where
    "get_active_alerts (se_read se) (weather_events (sy_db (po_world p))) = Inr alerts"
    "sys_publish wi se k c (new_snapshot (cy_generated_at cy) (Areas cfg) alerts) v = (Returns None, w)"
    "sy_db v = sy_db (po_world p)"
    "fan_reach (sys_publish_state wi se)
       (\<lambda>state. new_state_snapshot state (filter_alerts_by_state alerts state) (cy_generated_at cy)) ctx (Areas cfg)
       (record_success FeedPublish (cy_success cy FeedPublish) (reset_publish_failures (po_health p))) w st"
    "fan_done (Areas cfg) st" "po_health p' = fan_health st" "po_world p' = fan_world st"
proof -
  from assms obtain alerts q where a: "get_active_alerts (se_read se) (weather_events (sy_db (po_world p))) = Inr alerts"
    and q: "on_world (publish_with_retry ctx (\<lambda>i c. sys_publish wi se i c
        (new_snapshot (cy_generated_at cy) (Areas cfg) alerts)) (cy_put cy))
        (p\<lparr>po_health := reset_publish_failures (po_health p)\<rparr>) = (Returns True, q)"
    and p': "p' = (let p = record_ok FeedPublish cy q; (h, w) = publish_per_state (sys_publish_state wi se) ctx (Areas cfg)
        alerts (cy_generated_at cy) (cy_sched cy) (po_health p, po_world p) in p\<lparr>po_health := h, po_world := w\<rparr>)"
    by (auto simp: publish_snapshot_def wired_def and_then_Returns on_world_simp new_snapshot_def Let_def split_beta
        split: sum.splits)
  obtain w where w: "publish_with_retry ctx (\<lambda>i c. sys_publish wi se i c
      (new_snapshot (cy_generated_at cy) (Areas cfg) alerts)) (cy_put cy) (po_world p) = (Returns True, w)"
    and qw: "q = p\<lparr>po_health := reset_publish_failures (po_health p), po_world := w\<rparr>"
    using q by (auto simp: on_world_def split: prod.splits)
  obtain h' w' where fan: "publish_per_state (sys_publish_state wi se) ctx (Areas cfg) alerts (cy_generated_at cy)
      (cy_sched cy) (record_success FeedPublish (cy_success cy FeedPublish) (reset_publish_failures (po_health p)), w) = (h', w')"
    by fastforce
  have "p' = (record_ok FeedPublish cy q)\<lparr>po_health := h', po_world := w'\<rparr>"
    using p' fan by (simp add: qw record_ok_def Let_def)
  moreover obtain k c where "sys_publish wi se k c (new_snapshot (cy_generated_at cy) (Areas cfg) alerts)
      (world_at (\<lambda>i c. sys_publish wi se i c (new_snapshot (cy_generated_at cy) (Areas cfg) alerts)) ctx
         publishPutTimeout (cy_put cy) (po_world p) k) = (Returns None, w)"
    using w by (rule publish_with_retry_ok)
  moreover have "sy_db (world_at (\<lambda>i c. sys_publish wi se i c sn) ctx t (cy_put cy) v n) = sy_db v" for sn t v n
    by (rule world_at_frame) (rule sys_publish_db)
  ultimately show thesis using fan that a by (elim publish_per_state_reach) simp
qed

lemma not_recorded_ok:
  assumes "fan_done areas st" and "fan_failures areas st a = 0" and "a \<in> set areas"
  shows "\<exists>i < length (fan_phases st). areas ! i = a \<and> fan_phases st ! i = Gone True"
proof -
  obtain i where i: "i < length areas" "areas ! i = a" using assms(3) by (auto simp: in_set_conv_nth)
  have len: "length (fan_phases st) = length areas" using assms(1) by (simp add: fan_done_def)
  have "is_gone (fan_phases st ! i)" using assms(1) i len by (simp add: fan_done_def list_all_length)
  then obtain ok where ok: "fan_phases st ! i = Gone ok" by (cases "fan_phases st ! i") auto
  have "(a, fan_phases st ! i) \<in> set (zip areas (fan_phases st))"
    using i len by (metis in_set_conv_nth length_zip min.idem nth_zip)
  then have "\<not> recorded (fan_phases st ! i)"
    using assms(2) by (auto simp: fan_failures_def filter_empty_conv)
  with ok i len show ?thesis by (cases ok) (auto simp: recorded_def)
qed

lemma published_shows:
  assumes "wired (wi\<lparr>wi_r2 := True\<rparr>) se cy" and "po_health p \<noteq> None"
    and "publish_snapshot cfg cy ctx p = (Returns True, p')"
  shows "\<exists>alerts. get_active_alerts (se_read se) (weather_events (sy_db (po_world p))) = Inr alerts \<and>
    live_object (po_world p') = se_encode se (new_snapshot (cy_generated_at cy) (Areas cfg) alerts) \<and>
    file_at wi (po_world p') SnapshotKey = live_object (po_world p') \<and>
    (\<forall>a \<in> set (Areas cfg). put_failure_count (po_health p') a = 0 \<longrightarrow>
       sys_shows (po_world p') a =
         se_encode_state se (new_state_snapshot a (filter_alerts_by_state alerts a) (cy_generated_at cy))) \<and>
    last_success (po_health p') FeedPublish = Some (cy_success cy FeedPublish) \<and>
    sy_db (po_world p') = sy_db (po_world p)"
proof -
  let ?wi = "wi\<lparr>wi_r2 := True\<rparr>"
  obtain alerts k c v w st where pub:
    "get_active_alerts (se_read se) (weather_events (sy_db (po_world p))) = Inr alerts"
    "sys_publish ?wi se k c (new_snapshot (cy_generated_at cy) (Areas cfg) alerts) v = (Returns None, w)"
    "sy_db v = sy_db (po_world p)"
    "fan_reach (sys_publish_state ?wi se)
       (\<lambda>state. new_state_snapshot state (filter_alerts_by_state alerts state) (cy_generated_at cy)) ctx (Areas cfg)
       (record_success FeedPublish (cy_success cy FeedPublish) (reset_publish_failures (po_health p))) w st"
    "fan_done (Areas cfg) st" "po_health p' = fan_health st" "po_world p' = fan_world st"
    using assms(1,3) by (rule publish_snapshot_cases)
  let ?h = "record_success FeedPublish (cy_success cy FeedPublish) (reset_publish_failures (po_health p))"
  have live: "reset_publish_failures (po_health p) \<noteq> None" using assms(2) by (rule reg_log.live_reset)
  then have h: "?h \<noteq> None" by (rule reg_log.live_record)
  note ok = sys_publish_ok [OF pub(2)]
  have frame: "live_object (fan_world st) = live_object w"
    "file_at ?wi (fan_world st) SnapshotKey = file_at ?wi w SnapshotKey" "sy_db (fan_world st) = sy_db w"
    using fan_reach_frame [OF pub(4), of live_object] fan_reach_frame [OF pub(4), of "\<lambda>v. file_at ?wi v SnapshotKey"]
      fan_reach_frame [OF pub(4), of sy_db] sys_publish_state_frame [of ?wi se] by blast+
  note counts = fan_reach_counts [OF pub(4) h]
  have zero: "put_failure_count ?h a = 0" for a
    using live by (simp add: reg_log.failures_record reg_log.failures_reset)
  have "last_success ?h FeedPublish = Some (cy_success cy FeedPublish)" using live by (simp add: reg_log.last_record)
  with counts pub(6) have last: "last_success (po_health p') FeedPublish = Some (cy_success cy FeedPublish)" by simp
  note vis = sys_fan.fan_reach_shows [OF pub(4)]
  have states: "sys_shows (po_world p') a =
      se_encode_state se (new_state_snapshot a (filter_alerts_by_state alerts a) (cy_generated_at cy))"
    if a: "a \<in> set (Areas cfg)" "put_failure_count (po_health p') a = 0" for a
  proof -
    have "fan_failures (Areas cfg) st a = 0" using counts zero a(2) pub(6) by simp
    from not_recorded_ok [OF pub(5) this a(1)] obtain i where i: "i < length (fan_phases st)" "Areas cfg ! i = a"
      "fan_phases st ! i = Gone True" by blast
    from vis i show ?thesis by (auto simp: sys_fan.fan_shows_def new_state_snapshot_def pub(7))
  qed
  have "sy_db w = sy_db v" using sys_publish_db [of ?wi se k c _ v] pub(2) by (metis snd_conv)
  with ok frame pub(1,3,7) states last show ?thesis by (auto simp: file_at_def)
qed

text \<open>
  C8: what a published cycle shows. If the merged snapshot counts as published, then the live object
  and the file hold the very same snapshot, made of the active alerts that were read; every state
  whose failure counter is zero shows the part of that snapshot that lists it, under the same
  timestamp; the health check sees the publish as fresh; and the database is as it was. No order of
  the goroutines and no failure of a state's put makes a difference.
\<close>

theorem published_cycle_shows:
  assumes "wired (wi\<lparr>wi_r2 := True\<rparr>) se cy" and "po_health p \<noteq> None"
    and "publish_snapshot cfg cy ctx p = (Returns True, p')"
  shows "\<exists>alerts. get_active_alerts (se_read se) (weather_events (sy_db (po_world p))) = Inr alerts \<and>
    live_object (po_world p') = se_encode se (new_snapshot (cy_generated_at cy) (Areas cfg) alerts) \<and>
    file_at wi (po_world p') SnapshotKey = live_object (po_world p') \<and>
    (\<forall>a \<in> set (Areas cfg). put_failure_count (po_health p') a = 0 \<longrightarrow>
       sys_shows (po_world p') a =
         se_encode_state se (new_state_snapshot a (filter_alerts_by_state alerts a) (cy_generated_at cy))) \<and>
    last_success (po_health p') FeedPublish = Some (cy_success cy FeedPublish) \<and>
    sy_db (po_world p') = sy_db (po_world p)"
  using assms by (rule published_shows)

theorem published_cycle_shows_witness:
  "\<exists>p'. publish_snapshot (sample_config ModeBoth) sample_sys_cycle None (poller_new new_registry sample_system) =
      (Returns True, p') \<and> live_object (po_world p') = Some ''{}'' \<and>
    sy_db (po_world p') = sy_db sample_system"
proof -
  let ?p = "poller_new new_registry sample_system"
  have "fst (publish_snapshot (sample_config ModeBoth) sample_sys_cycle None ?p) = Returns True" by code_simp
  then obtain p' where p': "publish_snapshot (sample_config ModeBoth) sample_sys_cycle None ?p = (Returns True, p')"
    by (metis prod.collapse)
  have "wired (sample_wiring\<lparr>wi_r2 := True\<rparr>) sample_sys_env sample_sys_cycle"
    using sample_wired by (simp add: sample_wiring_def)
  moreover have "po_health ?p \<noteq> None" by (simp add: poller_new_def new_registry_def)
  ultimately have "live_object (po_world p') = Some ''{}''" "sy_db (po_world p') = sy_db (po_world ?p)"
    using published_cycle_shows [OF _ _ p', of sample_wiring sample_sys_env] by (auto simp: sample_sys_env_def)
  with p' show ?thesis by (simp add: poller_new_def)
qed

end
