(* ===== verification/Run.thy ===== *)
theory Run
  imports Poller
begin

text \<open>
  The polling loop, \<open>Poller.Run\<close>: absolute-time scheduling with missed ticks skipped. A run is given
  the clock readings of every round and whether the context ends before its timer. The loop that
  skips missed ticks reads the clock until it is not past the next tick; that it ends is a theorem,
  so it is defined as a partial function.
\<close>

section \<open>The loop\<close>

definition tick :: "duration \<Rightarrow> time \<Rightarrow> int \<Rightarrow> time" where
  "tick interval start cycle = start + wrap64 (cycle * interval)"

text \<open>The cycle whose tick is waited for, and the number of readings taken in all.\<close>

partial_function (option) skip_missed ::
  "duration \<Rightarrow> time \<Rightarrow> (nat \<Rightarrow> time) \<Rightarrow> nat \<Rightarrow> int \<Rightarrow> (int \<times> nat) option" where
  "skip_missed interval start clock i cycle =
     (if tick interval start cycle < clock i
      then skip_missed interval start clock (i + 1) (wrap64 (cycle + 1))
      else Some (cycle, i + 1))"

declare skip_missed.simps [code]

record wait_env =
  we_clock :: "nat \<Rightarrow> time"             \<comment> \<open>the readings of the skip loop\<close>
  we_ctx_first :: bool                  \<comment> \<open>the context ends before the timer fires\<close>

text \<open>
  The instants the polls were scheduled for, the state after them, and whether \<open>Run\<close> has returned;
  a run whose waits are used up is still waiting. \<open>None\<close> is a run that never leaves the skip loop.
\<close>

fun run_loop ::
  "duration \<Rightarrow> time \<Rightarrow> ('s \<Rightarrow> 's) \<Rightarrow> wait_env list \<Rightarrow> int \<Rightarrow> 's \<Rightarrow> (time list \<times> 's \<times> bool) option" where
  "run_loop interval start poll_once [] cycle s = Some ([], s, False)"
| "run_loop interval start poll_once (w # ws) cycle s =
     (case skip_missed interval start (we_clock w) 0 cycle of
        None \<Rightarrow> None
      | Some (c, _) \<Rightarrow>
          if we_ctx_first w then Some ([], s, True)
          else (case run_loop interval start poll_once ws (wrap64 (c + 1)) (poll_once s) of
                  None \<Rightarrow> None
                | Some (ts, s', stopped) \<Rightarrow> Some (tick interval start c # ts, s', stopped)))"

definition run ::
  "duration \<Rightarrow> duration \<Rightarrow> bool \<Rightarrow> time \<Rightarrow> ('s \<Rightarrow> 's) \<Rightarrow> wait_env list \<Rightarrow> 's \<Rightarrow> (time list \<times> 's \<times> bool) option" where
  "run interval jitter ctx_ends_in_jitter start poll_once ws s =
     (if jitter > 0 \<and> ctx_ends_in_jitter then Some ([], s, True)
      else run_loop interval start poll_once ws 1 (poll_once s))"

section \<open>Missed ticks are skipped, and no others\<close>

text \<open>Readings that never pass \<open>B\<close>, in a schedule that stays within the range of durations.\<close>

definition bounded_clock :: "duration \<Rightarrow> time \<Rightarrow> time \<Rightarrow> (nat \<Rightarrow> time) \<Rightarrow> bool" where
  "bounded_clock interval start B clock \<longleftrightarrow>
     0 < interval \<and> start \<le> B \<and> B - start + interval < 2 ^ 63 \<and> (\<forall>i. clock i \<le> B)"

lemma tick_small:
  "0 < interval \<Longrightarrow> 0 \<le> cycle \<Longrightarrow> cycle * interval < 2 ^ 63 \<Longrightarrow> tick interval start cycle = start + cycle * interval"
  unfolding tick_def by (subst wrap64_small) (auto intro: order_trans [of _ 0])

text \<open>A cycle counter does not wrap while its tick is representable.\<close>

lemma wrap64_next_cycle:
  assumes "0 < interval" and "1 \<le> cycle" and "(cycle + 1) * interval < 2 ^ 63"
  shows "wrap64 (cycle + 1) = cycle + 1"
proof -
  have "cycle + 1 \<le> (cycle + 1) * interval" using mult_left_mono [of 1 interval "cycle + 1"] assms(1,2) by simp
  then have "cycle + 1 < 2 ^ 63" using assms(3) by (rule le_less_trans)
  then show ?thesis using assms(2) by (intro wrap64_small) auto
qed

lemma skip_returns:
  assumes "bounded_clock interval start B clock"
  shows "1 \<le> cycle \<Longrightarrow> cycle * interval < 2 ^ 63 \<Longrightarrow>
    \<exists>c. skip_missed interval start clock i cycle = Some (c, i + nat (c - cycle) + 1) \<and> cycle \<le> c \<and>
      c * interval \<le> max (cycle * interval) (B - start + interval) \<and>
      clock (i + nat (c - cycle)) \<le> start + c * interval \<and>
      (\<forall>k. cycle \<le> k \<and> k < c \<longrightarrow> start + k * interval < clock (i + nat (k - cycle)))"
proof (induction "nat (B - start - cycle * interval + interval)" arbitrary: i cycle rule: less_induct)
  case less
  have pos: "0 < interval" and B: "clock j \<le> B" "B - start + interval < 2 ^ 63" for j
    using assms by (simp_all add: bounded_clock_def)
  have t: "tick interval start cycle = start + cycle * interval" using pos less.prems by (intro tick_small) auto
  show ?case
  proof (cases "tick interval start cycle < clock i")
    case False
    then show ?thesis
      by (intro exI [of _ cycle]) (simp add: skip_missed.simps [of interval start clock i cycle] t)
  next
    case True
    then have below: "cycle * interval < B - start" using B(1) [of i] t by simp
    have next_small: "(cycle + 1) * interval < 2 ^ 63" using below B(2) by (simp add: algebra_simps)
    note w = wrap64_next_cycle [OF pos less.prems(1) next_small]
    have "nat (B - start - (cycle + 1) * interval + interval) < nat (B - start - cycle * interval + interval)"
      using below pos by (simp add: algebra_simps)
    from less.hyps [OF this _ next_small, of "i + 1"] less.prems(1) obtain c where c:
      "skip_missed interval start clock (i + 1) (cycle + 1) = Some (c, i + 1 + nat (c - (cycle + 1)) + 1)"
      "cycle + 1 \<le> c" "c * interval \<le> max ((cycle + 1) * interval) (B - start + interval)"
      "clock (i + 1 + nat (c - (cycle + 1))) \<le> start + c * interval"
      "\<forall>k. cycle + 1 \<le> k \<and> k < c \<longrightarrow> start + k * interval < clock (i + 1 + nat (k - (cycle + 1)))"
      by auto
    have shift: "i + 1 + nat (k - (cycle + 1)) = i + nat (k - cycle)" if "cycle + 1 \<le> k" for k
      using that by simp
    have "start + k * interval < clock (i + nat (k - cycle))" if "cycle \<le> k" "k < c" for k
    proof (cases "cycle + 1 \<le> k")
      case up: True
      from c(5) [rule_format, of k] up that(2) show ?thesis unfolding shift [OF up] by simp
    next
      case False
      with that have "k = cycle" by simp
      with True t show ?thesis by simp
    qed
    moreover have "c * interval \<le> max (cycle * interval) (B - start + interval)"
      using c(3) below by (simp add: algebra_simps)
    moreover have "skip_missed interval start clock i cycle = Some (c, i + nat (c - cycle) + 1)"
      using True c(1) shift [OF c(2)] by (simp add: skip_missed.simps [of interval start clock i cycle] w)
    moreover have "clock (i + nat (c - cycle)) \<le> start + c * interval"
      using c(4) unfolding shift [OF c(2)] .
    ultimately show ?thesis using c(2) by (intro exI [of _ c]) simp
  qed
qed

text \<open>With an interval of zero every tick is \<open>start\<close>, and time that has passed stays passed.\<close>

lemma skip_zero:
  assumes ret: "skip_missed 0 start clock i cycle = Some r"
  shows "\<exists>j \<ge> i. clock j \<le> start"
proof (rule skip_missed.raw_induct
    [where P = "\<lambda>interval s cl i c r. interval = 0 \<and> s = start \<and> cl = clock \<longrightarrow> (\<exists>j \<ge> i. clock j \<le> start)",
     OF _ ret, simplified])
  fix f interval s cl i c r
  assume IH: "\<And>interval s cl i c r. f interval s cl i c = Some r \<Longrightarrow>
      interval = 0 \<and> s = start \<and> cl = clock \<longrightarrow> (\<exists>j \<ge> i. clock j \<le> start)"
    and eq: "(if tick interval s c < cl i then f interval s cl (i + 1) (wrap64 (c + 1)) else Some (c, i + 1)) = Some r"
  show "interval = 0 \<and> s = start \<and> cl = clock \<longrightarrow> (\<exists>j \<ge> i. clock j \<le> start)"
  proof
    assume z: "interval = 0 \<and> s = start \<and> cl = clock"
    show "\<exists>j \<ge> i. clock j \<le> start"
    proof (cases "tick interval s c < cl i")
      case True
      with eq have "f interval s cl (i + 1) (wrap64 (c + 1)) = Some r" by simp
      from IH [OF this] z show ?thesis by (meson add_leD1)
    next
      case False
      with z show ?thesis by (intro exI [of _ i]) (simp add: tick_def)
    qed
  qed
qed

section \<open>The schedule\<close>

definition on_schedule :: "duration \<Rightarrow> time \<Rightarrow> int \<Rightarrow> time list \<Rightarrow> bool" where
  "on_schedule interval start first ts \<longleftrightarrow>
     (\<exists>ks. ts = map (\<lambda>k. start + k * interval) ks \<and> sorted_wrt (<) ks \<and> (\<forall>k \<in> set ks. first \<le> k))"

lemma on_schedule_Nil: "on_schedule interval start first []"
  by (auto simp: on_schedule_def)

lemma on_schedule_Cons:
  assumes "on_schedule interval start (c + 1) ts" and "first \<le> c"
  shows "on_schedule interval start first ((start + c * interval) # ts)"
proof -
  from assms(1) obtain ks where "ts = map (\<lambda>k. start + k * interval) ks" "sorted_wrt (<) ks" "\<forall>k \<in> set ks. c + 1 \<le> k"
    by (auto simp: on_schedule_def)
  with assms(2) show ?thesis unfolding on_schedule_def by (intro exI [of _ "c # ks"]) fastforce
qed

text \<open>
  Every poll is of a tick that was not past at the last reading of its round, and every tick that the
  round passed over was past at the reading that was taken for it.
\<close>

fun skips_only_past :: "duration \<Rightarrow> time \<Rightarrow> int \<Rightarrow> time list \<Rightarrow> wait_env list \<Rightarrow> bool" where
  "skips_only_past interval start cycle [] ws = True"
| "skips_only_past interval start cycle (t # ts) [] = False"
| "skips_only_past interval start cycle (t # ts) (w # ws) =
     (let c = (t - start) div interval
      in cycle \<le> c \<and> t = start + c * interval \<and> we_clock w (nat (c - cycle)) \<le> t \<and>
         list_all (\<lambda>k. start + k * interval < we_clock w (nat (k - cycle))) [cycle..c - 1] \<and>
         skips_only_past interval start (c + 1) ts ws)"

lemma run_loop_schedule:
  assumes "0 < interval"
  shows "\<forall>w \<in> set ws. bounded_clock interval start B (we_clock w) \<Longrightarrow> 1 \<le> cycle \<Longrightarrow>
    max (cycle * interval) (B - start + interval) + int (length ws) * interval < 2 ^ 63 \<Longrightarrow>
    \<exists>ts. run_loop interval start poll_once ws cycle s =
        Some (ts, (poll_once ^^ length ts) s, \<exists>w \<in> set ws. we_ctx_first w) \<and>
      on_schedule interval start cycle ts \<and> skips_only_past interval start cycle ts ws \<and>
      list_all2 (\<lambda>t w. \<exists>i. we_clock w i \<le> t) ts (takeWhile (\<lambda>w. \<not> we_ctx_first w) ws)"
proof (induction ws arbitrary: cycle s)
  case Nil
  then show ?case by (simp add: on_schedule_Nil)
next
  case (Cons w ws)
  let ?m = "max (cycle * interval) (B - start + interval)"
  have small: "?m + int (length ws) * interval + interval < 2 ^ 63" using Cons.prems(3) by (simp add: algebra_simps)
  have nonneg: "0 \<le> int (length ws) * interval" using assms by simp
  have m: "?m + interval < 2 ^ 63" using small nonneg by linarith
  then have "cycle * interval < 2 ^ 63" using assms by linarith
  from skip_returns [OF _ Cons.prems(2) this, of start B "we_clock w" 0] Cons.prems(1) obtain c where c:
    "skip_missed interval start (we_clock w) 0 cycle = Some (c, nat (c - cycle) + 1)" "cycle \<le> c"
    "c * interval \<le> ?m" "we_clock w (nat (c - cycle)) \<le> start + c * interval"
    "\<forall>k. cycle \<le> k \<and> k < c \<longrightarrow> start + k * interval < we_clock w (nat (k - cycle))"
    by auto
  have w1: "wrap64 (c + 1) = c + 1"
    using assms Cons.prems(2) c(2,3) m by (intro wrap64_next_cycle) (auto simp: algebra_simps)
  have t: "tick interval start c = start + c * interval"
    using assms Cons.prems(2) c(2,3) m by (intro tick_small) auto
  show ?case
  proof (cases "we_ctx_first w")
    case True
    with c(1) show ?thesis by (simp add: on_schedule_Nil)
  next
    case False
    have "max ((c + 1) * interval) (B - start + interval) + int (length ws) * interval < 2 ^ 63"
      using c(3) small assms by (simp add: algebra_simps)
    from Cons.IH [OF _ _ this, of "poll_once s"] Cons.prems(1,2) c(2) obtain ts where ts:
      "run_loop interval start poll_once ws (c + 1) (poll_once s) =
         Some (ts, (poll_once ^^ length ts) (poll_once s), \<exists>w \<in> set ws. we_ctx_first w)"
      "on_schedule interval start (c + 1) ts" "skips_only_past interval start (c + 1) ts ws"
      "list_all2 (\<lambda>t w. \<exists>i. we_clock w i \<le> t) ts (takeWhile (\<lambda>w. \<not> we_ctx_first w) ws)" by auto
    have "(poll_once ^^ length ts) (poll_once s) = (poll_once ^^ length (tick interval start c # ts)) s"
      by (simp add: funpow_swap1)
    moreover have "skips_only_past interval start cycle (tick interval start c # ts) (w # ws)"
      using c(2,4,5) ts(3) assms by (simp add: t Let_def list_all_iff)
    ultimately show ?thesis
      using c ts False w1 t
      by (intro exI [of _ "tick interval start c # ts"]) (auto intro: on_schedule_Cons simp del: skips_only_past.simps)
  qed
qed

lemma run_schedule:
  assumes "0 < interval" and "\<forall>w \<in> set ws. bounded_clock interval start B (we_clock w)"
    and "B - start + (int (length ws) + 1) * interval < 2 ^ 63" and "start \<le> B"
  shows "\<exists>ts s' stopped. run interval jitter early start poll_once ws s = Some (ts, s', stopped) \<and>
    on_schedule interval start 1 ts \<and> skips_only_past interval start 1 ts ws \<and>
    (if 0 < jitter \<and> early then ts = [] \<and> s' = s \<and> stopped
     else list_all2 (\<lambda>t w. \<exists>i. we_clock w i \<le> t) ts (takeWhile (\<lambda>w. \<not> we_ctx_first w) ws) \<and>
       s' = (poll_once ^^ Suc (length ts)) s \<and> (stopped \<longleftrightarrow> (\<exists>w \<in> set ws. we_ctx_first w)))"
proof (cases "0 < jitter \<and> early")
  case True
  then show ?thesis by (auto simp: run_def on_schedule_Nil)
next
  case False
  have "max (1 * interval) (B - start + interval) + int (length ws) * interval < 2 ^ 63"
    using assms(3,4) by (simp add: algebra_simps)
  from run_loop_schedule [OF assms(1,2) _ this, of poll_once "poll_once s"] obtain ts where
    "run_loop interval start poll_once ws 1 (poll_once s) =
       Some (ts, (poll_once ^^ length ts) (poll_once s), \<exists>w \<in> set ws. we_ctx_first w)"
    "on_schedule interval start 1 ts" "skips_only_past interval start 1 ts ws"
    "list_all2 (\<lambda>t w. \<exists>i. we_clock w i \<le> t) ts (takeWhile (\<lambda>w. \<not> we_ctx_first w) ws)" by auto
  moreover have "(poll_once ^^ length ts) (poll_once s) = (poll_once ^^ Suc (length ts)) s"
    by (simp add: funpow_swap1)
  moreover have "run interval jitter early start poll_once ws s = run_loop interval start poll_once ws 1 (poll_once s)"
    using False by (auto simp: run_def)
  ultimately show ?thesis unfolding if_not_P [OF False]
    by (intro exI [of _ ts] exI [of _ "(poll_once ^^ Suc (length ts)) s"] exI [of _ "\<exists>w \<in> set ws. we_ctx_first w"])
      (simp only: simp_thms)
qed

text \<open>
  C15: the loop keeps its schedule and never hangs. With a positive interval, whatever the clock does
  below some bound, the loop that skips missed ticks ends in every round; after the first poll every
  poll belongs to a tick \<open>start + k * interval\<close> of its own, in ascending order and without drift, and
  to one that the clock had not passed when it was chosen, so polls never come in bursts to catch up;
  a tick is passed over only when the clock, read for it, was strictly after it; and the run stops exactly when the context ends during the jitter or a wait.
\<close>

theorem run_keeps_schedule:
  assumes "0 < interval" and "\<forall>w \<in> set ws. bounded_clock interval start B (we_clock w)"
    and "B - start + (int (length ws) + 1) * interval < 2 ^ 63" and "start \<le> B"
  shows "\<exists>ts s' stopped. run interval jitter early start poll_once ws s = Some (ts, s', stopped) \<and>
    on_schedule interval start 1 ts \<and> skips_only_past interval start 1 ts ws \<and>
    (if 0 < jitter \<and> early then ts = [] \<and> s' = s \<and> stopped
     else list_all2 (\<lambda>t w. \<exists>i. we_clock w i \<le> t) ts (takeWhile (\<lambda>w. \<not> we_ctx_first w) ws) \<and>
       s' = (poll_once ^^ Suc (length ts)) s \<and> (stopped \<longleftrightarrow> (\<exists>w \<in> set ws. we_ctx_first w)))"
  using assms by (rule run_schedule)

text \<open>A poll that runs long: the clock has passed two ticks, and the third is the next.\<close>

definition sample_waits :: "wait_env list" where
  "sample_waits =
     [\<lparr>we_clock = (\<lambda>i. 85 * second), we_ctx_first = False\<rparr>, \<lparr>we_clock = (\<lambda>i. 91 * second), we_ctx_first = True\<rparr>]"

theorem run_keeps_schedule_witness:
  "\<exists>ts s'. run (30 * second) 0 False 0 Suc sample_waits 0 = Some (ts, s', True) \<and> s' = Suc (length ts) \<and>
    on_schedule (30 * second) 0 1 ts \<and> skips_only_past (30 * second) 0 1 ts sample_waits"
proof -
  have "0 < 30 * second" "0 \<le> 91 * second"
    "91 * second - 0 + (int (length sample_waits) + 1) * (30 * second) < 2 ^ 63"
    "\<forall>w \<in> set sample_waits. bounded_clock (30 * second) 0 (91 * second) (we_clock w)"
    by (simp_all add: second_def sample_waits_def bounded_clock_def)
  from run_keeps_schedule [OF this(1,4,3,2), of 0 False Suc 0] obtain ts s' stopped where r:
    "run (30 * second) 0 False 0 Suc sample_waits 0 = Some (ts, s', stopped)" "on_schedule (30 * second) 0 1 ts"
    "skips_only_past (30 * second) 0 1 ts sample_waits"
    "s' = (Suc ^^ Suc (length ts)) 0" "stopped \<longleftrightarrow> (\<exists>w \<in> set sample_waits. we_ctx_first w)" by auto
  have "(Suc ^^ n) 0 = n" for n by (induction n) auto
  with r show ?thesis by (auto simp: sample_waits_def simp del: skips_only_past.simps)
qed

text \<open>
  C38: an interval of zero, which the configuration accepts, hangs the process. Once time has passed
  after the first poll, every tick lies in the past and the loop that skips missed ticks never
  ends: no second poll ever runs and no shutdown is noticed.
\<close>

theorem zero_interval_hangs:
  assumes "\<forall>i. start < we_clock w i" and "\<not> (0 < jitter \<and> early)"
  shows "run 0 jitter early start poll_once (w # ws) s = None"
proof -
  have "skip_missed 0 start (we_clock w) 0 1 = None"
  proof (cases "skip_missed 0 start (we_clock w) 0 1")
    case (Some r)
    from skip_zero [OF this] assms(1) show ?thesis by (meson not_le)
  qed
  with assms(2) show ?thesis by (simp add: run_def)
qed

theorem zero_interval_hangs_witness:
  "run 0 0 False 0 Suc [\<lparr>we_clock = (\<lambda>i. int i + 1), we_ctx_first = True\<rparr>] 0 = None"
  by (rule zero_interval_hangs) auto

section \<open>The poller's run\<close>

text \<open>The cycles still to come travel with the poller: each poll takes the next.\<close>

fun poll_next ::
  "config \<Rightarrow> (('e, 'w) cycle \<times> time option) list \<times> 'w poller \<Rightarrow> (('e, 'w) cycle \<times> time option) list \<times> 'w poller" where
  "poll_next cfg ([], p) = ([], p)"
| "poll_next cfg ((cy, ctx) # cs, p) = (cs, poll_safely cfg cy ctx p)"

definition poller_run ::
  "config \<Rightarrow> duration \<Rightarrow> bool \<Rightarrow> time \<Rightarrow> wait_env list \<Rightarrow> (('e, 'w) cycle \<times> time option) list \<times> 'w poller \<Rightarrow>
   (time list \<times> ((('e, 'w) cycle \<times> time option) list \<times> 'w poller) \<times> bool) option" where
  "poller_run cfg jitter early start ws s = run (PollInterval cfg) jitter early start (poll_next cfg) ws s"

lemma poll_next_cycles: "(poll_next cfg ^^ n) (cs, p) = (drop n cs, run_cycles cfg (take n cs) p)"
proof (induction n arbitrary: cs p)
  case 0
  then show ?case by simp
next
  case (Suc n)
  show ?case
  proof (cases cs)
    case Nil
    with Suc show ?thesis by (simp add: funpow_Suc_right del: funpow.simps)
  next
    case (Cons c cs')
    obtain cy ctx where "c = (cy, ctx)" by (cases c)
    with Cons Suc show ?thesis by (simp add: funpow_Suc_right del: funpow.simps)
  qed
qed

end
