(* ===== verification/Ingest_Main.thy ===== *)
theory Ingest_Main
  imports System Run
begin

text \<open>
  The start of the process, \<open>cmd/ingest/main.go\<close>: the environment variables, their validation and
  defaults, and the wiring that follows from them. \<open>getenv\<close> is \<open>os.Getenv\<close>, empty for an unset
  variable; \<open>parse_duration\<close> is \<open>time.ParseDuration\<close>; whether the database, its migration and the
  AWS configuration come up is the environment's.
\<close>

section \<open>The areas\<close>

text \<open>\<open>stateCodeRE\<close> is \<open>^[A-Z]{2}$\<close>.\<close>

definition state_code_re :: "string \<Rightarrow> bool" where
  "state_code_re s \<longleftrightarrow> length s = 2 \<and> list_all is_upper s"

fun areas_loop :: "string list \<Rightarrow> string list \<Rightarrow> string list \<Rightarrow> string list" where
  "areas_loop [] seen out = out"
| "areas_loop (token # tokens) seen out =
     (let code = to_upper (trim_space token)
      in if \<not> state_code_re code \<or> \<not> is_valid_state_code code then areas_loop tokens seen out
         else if code \<in> set seen then areas_loop tokens seen out
         else areas_loop tokens (code # seen) (out @ [code]))"

definition parse_areas :: "string \<Rightarrow> string list" where
  "parse_areas raw =
     (if trim_space raw = '''' then [''WI'']
      else areas_loop (split_on (CHR '','') raw) [] [])"

section \<open>The start\<close>

datatype startup_err =
    NoDatabaseURL | NoAreas | ModeErr mode_error | ConnectErr string | MigrateErr string
  | R2Err r2_new_err

record startup_env =
  st_getenv :: "string \<Rightarrow> string"
  st_parse_duration :: "string \<Rightarrow> duration option"
  st_connect_err :: "string option"
  st_migrate_err :: "string option"
  st_aws_err :: "string option"

record service =
  se_config :: config
  se_wiring :: wiring
  se_bucket :: "r2 option"
  se_feeds :: "feed list"
  se_max_age :: duration

definition env_or :: "startup_env \<Rightarrow> string \<Rightarrow> string \<Rightarrow> string" where
  "env_or env name fallback = (if st_getenv env name = '''' then fallback else st_getenv env name)"

definition poll_interval :: "startup_env \<Rightarrow> duration" where
  "poll_interval env =
     (let v = st_getenv env ''POLL_INTERVAL''
      in if v \<noteq> ''''
         then (case st_parse_duration env v of Some d \<Rightarrow> d | None \<Rightarrow> 30 * second)
         else 30 * second)"

text \<open>The R2 publisher, if this node publishes and an account is configured.\<close>

definition r2_setup :: "startup_env \<Rightarrow> mode \<Rightarrow> startup_err + r2 option" where
  "r2_setup env m =
     (if \<not> should_publish m then Inr None
      else if st_getenv env ''R2_ACCOUNT_ID'' \<noteq> '''' then
        (case new_r2 (st_aws_err env)
                \<lparr>AccountID = st_getenv env ''R2_ACCOUNT_ID'', AccessKeyID = st_getenv env ''R2_ACCESS_KEY_ID'',
                 SecretAccessKey = st_getenv env ''R2_SECRET_ACCESS_KEY'', Bucket = st_getenv env ''R2_BUCKET_NAME''\<rparr> of
           Inl e \<Rightarrow> Inl (R2Err e) | Inr r2Pub \<Rightarrow> Inr (Some r2Pub))
      else Inr None)"

definition startup :: "startup_env \<Rightarrow> startup_err + service" where
  "startup env =
     (if st_getenv env ''DATABASE_URL'' = '''' then Inl NoDatabaseURL
      else let snapshotDir = env_or env ''SNAPSHOT_DIR'' ''./snapshots'';
               nwsUserAgent = env_or env ''NWS_USER_AGENT'' ''(seestorm.org, contact@seestorm.org)'';
               areas = parse_areas (st_getenv env ''NWS_AREA'')
      in if areas = [] then Inl NoAreas
      else let pollInterval = poll_interval env;
               rawMode = st_getenv env ''MODE''
      in case require_explicit_mode_on_fly (st_getenv env ''FLY_APP_NAME'') rawMode of
           Some e \<Rightarrow> Inl (ModeErr e)
         | None \<Rightarrow>
      (case parse_mode rawMode of
         Inl e \<Rightarrow> Inl (ModeErr e)
       | Inr m \<Rightarrow>
      (case st_connect_err env of
         Some e \<Rightarrow> Inl (ConnectErr e)
       | None \<Rightarrow>
      (case st_migrate_err env of
         Some e \<Rightarrow> Inl (MigrateErr e)
       | None \<Rightarrow>
      (case r2_setup env m of
         Inl e \<Rightarrow> Inl e
       | Inr r2 \<Rightarrow>
           Inr \<lparr>se_config = \<lparr>PollInterval = pollInterval, Areas = areas, cfg_Mode = m,
                             HealthPing = Some (pinger_new (st_getenv env ''HEALTHCHECK_PING_URL''))\<rparr>,
                se_wiring = \<lparr>wi_nws = new_client nwsUserAgent, wi_spc = spc_new_client,
                             wi_dir = snapshotDir, wi_r2 = (r2 \<noteq> None)\<rparr>,
                se_bucket = r2,
                se_feeds = required_feeds (should_ingest m) (should_publish m),
                se_max_age = wrap64 (HealthStalenessMultiplier * pollInterval)\<rparr>)))))"

section \<open>Areas are valid, distinct, and in order\<close>

definition area_of :: "string \<Rightarrow> string option" where
  "area_of token =
     (let code = to_upper (trim_space token)
      in if state_code_re code \<and> is_valid_state_code code then Some code else None)"

lemma areas_loop_eq:
  "set seen = set out \<Longrightarrow> distinct out \<Longrightarrow>
     areas_loop tokens seen out = rev (remdups (rev (out @ List.map_filter area_of tokens)))"
proof (induction tokens arbitrary: seen out)
  case Nil
  then show ?case by (simp add: map_filter_simps distinct_remdups_id)
next
  case (Cons t ts)
  show ?case
  proof (cases "area_of t")
    case None
    with Cons show ?thesis by (auto simp: area_of_def Let_def map_filter_simps split: if_splits)
  next
    case (Some c)
    then have c: "c = to_upper (trim_space t)" "state_code_re c" "is_valid_state_code c"
      by (auto simp: area_of_def Let_def split: if_splits)
    show ?thesis
    proof (cases "c \<in> set seen")
      case False
      with Cons.prems have "set (c # seen) = set (out @ [c])" "distinct (out @ [c])" by auto
      from Cons.IH [OF this] False c Some Cons.prems show ?thesis by (simp add: Let_def map_filter_simps)
    next
      case True
      then have "areas_loop (t # ts) seen out = areas_loop ts seen out" using c by (simp add: Let_def)
      also have "\<dots> = rev (remdups (rev (out @ List.map_filter area_of ts)))"
        by (rule Cons.IH [OF Cons.prems])
      also have "remdups (rev (out @ List.map_filter area_of ts)) = remdups (rev (out @ List.map_filter area_of (t # ts)))"
      proof -
        have "remdups (xs @ c # ys) = remdups (xs @ ys)" if "c \<in> set ys" for xs ys :: "string list"
          using that by (induction xs) auto
        then show ?thesis using True Cons.prems Some by (simp add: map_filter_simps)
      qed
      finally show ?thesis .
    qed
  qed
qed

lemma parse_areas_eq:
  "trim_space raw \<noteq> '''' \<Longrightarrow>
     parse_areas raw = rev (remdups (rev (List.map_filter area_of (split_on (CHR '','') raw))))"
  using areas_loop_eq [of "[]" "[]"] by (simp add: parse_areas_def)


lemma split_on_join:
  "ts \<noteq> [] \<Longrightarrow> \<forall>t \<in> set ts. d \<notin> set t \<Longrightarrow> split_on d (join [d] ts) = ts"
proof (induction "[d]" ts rule: join.induct)
  case (3 x y ts)
  have "d \<notin> set l \<Longrightarrow> split_on d (l @ d # s) = l # split_on d s" for l s by (induction l) auto
  with 3 show ?case by simp
next
  case (2 x)
  then have "d \<notin> set x" by simp
  then show ?case by (induction x) auto
qed simp

lemma area_of_table: "list_all (\<lambda>a. area_of a = Some a \<and> CHR '','' \<notin> set a) (map snd fips_state_codes)"
  by code_simp

lemma area_of_valid: "is_valid_state_code c \<Longrightarrow> area_of c = Some c \<and> CHR '','' \<notin> set c"
  using area_of_table by (auto simp: is_valid_state_code_def valid_state_abbrevs_def list_all_iff)

lemma area_of_Some: "area_of t = Some c \<longleftrightarrow> is_valid_state_code c \<and> to_upper (trim_space t) = c"
  by (auto simp: area_of_def state_code_re_def Let_def dest: valid_state_shape)

lemma parse_areas_default: "trim_space raw = '''' \<Longrightarrow> parse_areas raw = [''WI'']"
  by (simp add: parse_areas_def)

lemma set_map_filter_Some: "set (List.map_filter f xs) = {y. \<exists>x \<in> set xs. f x = Some y}"
  by (induction xs) (auto simp: map_filter_simps split: option.splits)

lemma parse_areas_set:
  "trim_space raw \<noteq> '''' \<Longrightarrow> set (parse_areas raw) =
     {c. is_valid_state_code c \<and> (\<exists>t \<in> set (split_on (CHR '','') raw). to_upper (trim_space t) = c)}"
  by (auto simp: parse_areas_eq set_map_filter_Some area_of_Some)

lemma parse_areas_distinct: "distinct (parse_areas raw)"
  by (cases "trim_space raw = ''''") (simp_all add: parse_areas_eq parse_areas_default)

lemma parse_areas_valid: "set (parse_areas raw) \<subseteq> Collect is_valid_state_code"
proof (cases "trim_space raw = ''''")
  case True
  have "is_valid_state_code ''WI''" by code_simp
  with True show ?thesis by (simp add: parse_areas_default)
next
  case False
  then show ?thesis by (auto simp: parse_areas_set)
qed

lemma map_filter_Some: "\<forall>x \<in> set xs. f x = Some x \<Longrightarrow> List.map_filter f xs = xs"
  by (induction xs) (simp_all add: map_filter_simps)

lemma parse_areas_join:
  assumes "areas \<noteq> []" and "distinct areas" and "set areas \<subseteq> Collect is_valid_state_code"
  shows "parse_areas (join '','' areas) = areas"
proof -
  have areas: "\<forall>a \<in> set areas. area_of a = Some a \<and> CHR '','' \<notin> set a" using assms(3) area_of_valid by blast
  have split: "split_on (CHR '','') (join '','' areas) = areas"
    using assms(1) areas by (intro split_on_join) auto
  obtain a as where a: "areas = a # as" using assms(1) by (cases areas) auto
  have "trim_space (join '','' areas) \<noteq> ''''"
  proof -
    have a_ok: "length a = 2 \<and> list_all is_upper a" using a assms(3) valid_state_shape by auto
    then obtain c cs where "a = c # cs" "is_upper c" by (cases a) auto
    then have "no_space_byte c" "c \<in> set (join '','' areas)"
      using a by (auto simp: no_space_byte_def is_upper_def neq_Nil_conv code_def) (cases as; simp)
    then show ?thesis by (rule trim_space_not_blank)
  qed
  then show ?thesis using areas assms(2) by (simp add: parse_areas_eq split map_filter_Some distinct_remdups_id)
qed


section \<open>Properties\<close>

text \<open>
  The areas of a node. A blank setting means Wisconsin; otherwise the node's areas are exactly
  the state codes of the NWS table that stand, trimmed and in any case, between the commas, each
  once. A duplicate-free list of codes, written with commas, is read back unchanged and in order.
\<close>

theorem parse_areas_spec:
  "distinct (parse_areas raw) \<and>
   set (parse_areas raw) =
     (if trim_space raw = '''' then {''WI''}
      else {c. is_valid_state_code c \<and> (\<exists>t \<in> set (split_on (CHR '','') raw). to_upper (trim_space t) = c)}) \<and>
   (areas \<noteq> [] \<and> distinct areas \<and> set areas \<subseteq> Collect is_valid_state_code \<longrightarrow>
      parse_areas (join '','' areas) = areas)"
  by (simp add: parse_areas_distinct parse_areas_set parse_areas_default parse_areas_join)

theorem parse_areas_spec_witness: "parse_areas (join '','' [''OK'', ''TX'', ''KS'']) = [''OK'', ''TX'', ''KS'']"
proof -
  have "list_all is_valid_state_code [''OK'', ''TX'', ''KS'']" by code_simp
  then show ?thesis using parse_areas_spec [of "[]" "[''OK'', ''TX'', ''KS'']"] by simp
qed

lemma startup_cases:
  assumes "startup env = Inr s"
  obtains m r2 where "parse_areas (st_getenv env ''NWS_AREA'') \<noteq> []"
    "require_explicit_mode_on_fly (st_getenv env ''FLY_APP_NAME'') (st_getenv env ''MODE'') = None"
    "parse_mode (st_getenv env ''MODE'') = Inr m" "r2_setup env m = Inr r2"
    "Areas (se_config s) = parse_areas (st_getenv env ''NWS_AREA'')" "cfg_Mode (se_config s) = m"
    "wi_r2 (se_wiring s) \<longleftrightarrow> r2 \<noteq> None" "se_bucket s = r2"
    "se_feeds s = required_feeds (should_ingest m) (should_publish m)"
  using assms unfolding startup_def Let_def
  by (auto split: if_splits option.splits sum.splits)

text \<open>
  C37: a process that starts is configured soundly. Its areas are a nonempty list of distinct known
  states; it runs at least one phase; on Fly it runs both only when MODE spells that out; the R2
  publisher is wired exactly when the node publishes and an account is set, and then to that
  account's endpoint with a bucket and credentials; and its health check expects exactly the feeds that its phases can record.
\<close>

theorem startup_sound:
  assumes "startup env = Inr s"
  shows "Areas (se_config s) \<noteq> [] \<and> distinct (Areas (se_config s)) \<and>
    set (Areas (se_config s)) \<subseteq> Collect is_valid_state_code \<and>
    (should_ingest (cfg_Mode (se_config s)) \<or> should_publish (cfg_Mode (se_config s))) \<and>
    (st_getenv env ''FLY_APP_NAME'' \<noteq> '''' \<and> should_ingest (cfg_Mode (se_config s)) \<and>
       should_publish (cfg_Mode (se_config s)) \<longrightarrow> to_lower (trim_space (st_getenv env ''MODE'')) = ''both'') \<and>
    (wi_r2 (se_wiring s) \<longleftrightarrow> should_publish (cfg_Mode (se_config s)) \<and> st_getenv env ''R2_ACCOUNT_ID'' \<noteq> '''') \<and>
    (wi_r2 (se_wiring s) \<longrightarrow> (\<exists>r. se_bucket s = Some r \<and> r2_bucket r = st_getenv env ''R2_BUCKET_NAME'' \<and> r2_bucket r \<noteq> '''' \<and>
       r2_endpoint r = ''https://'' @ st_getenv env ''R2_ACCOUNT_ID'' @ ''.r2.cloudflarestorage.com'' \<and>
       fst (r2_credentials r) \<noteq> '''' \<and> snd (r2_credentials r) \<noteq> '''')) \<and>
    (FeedPublish \<in> set (se_feeds s) \<longleftrightarrow> should_publish (cfg_Mode (se_config s))) \<and>
    (f \<noteq> FeedPublish \<longrightarrow> (f \<in> set (se_feeds s) \<longleftrightarrow> should_ingest (cfg_Mode (se_config s))))"
proof -
  obtain m r2 where s: "parse_areas (st_getenv env ''NWS_AREA'') \<noteq> []"
    "require_explicit_mode_on_fly (st_getenv env ''FLY_APP_NAME'') (st_getenv env ''MODE'') = None"
    "parse_mode (st_getenv env ''MODE'') = Inr m" "r2_setup env m = Inr r2"
    "Areas (se_config s) = parse_areas (st_getenv env ''NWS_AREA'')" "cfg_Mode (se_config s) = m"
    "wi_r2 (se_wiring s) \<longleftrightarrow> r2 \<noteq> None" "se_bucket s = r2"
    "se_feeds s = required_feeds (should_ingest m) (should_publish m)"
    using assms by (rule startup_cases)
  have "r2 \<noteq> None \<longleftrightarrow> should_publish m \<and> st_getenv env ''R2_ACCOUNT_ID'' \<noteq> ''''"
    "r2 = Some r \<Longrightarrow> r2_bucket r = st_getenv env ''R2_BUCKET_NAME'' \<and> r2_bucket r \<noteq> '''' \<and>
       r2_endpoint r = ''https://'' @ st_getenv env ''R2_ACCOUNT_ID'' @ ''.r2.cloudflarestorage.com'' \<and>
       fst (r2_credentials r) \<noteq> '''' \<and> snd (r2_credentials r) \<noteq> ''''" for r
    using s(4)
    by (auto simp: r2_setup_def new_r2_def r2_config_complete_def Let_def split: if_splits option.splits sum.splits)
  moreover have "FeedPublish \<in> set (se_feeds s) \<longleftrightarrow> should_publish m"
    "f \<noteq> FeedPublish \<longrightarrow> (f \<in> set (se_feeds s) \<longleftrightarrow> should_ingest m)"
    by (cases f; auto simp: s(9) required_feeds_def Let_def)+
  ultimately show ?thesis
    using s(1-3) parse_areas_distinct parse_areas_valid fly_node_role_is_explicit [OF _ s(2,3)] parse_mode_phases [OF s(3)]
    by (auto simp: s(5-8))
qed

definition sample_startup_env :: startup_env where
  "sample_startup_env =
     \<lparr>st_getenv = (\<lambda>name. if name = ''DATABASE_URL'' then ''postgres://db'' else if name = ''NWS_AREA'' then ''ok, tx,ZZ''
                   else if name = ''MODE'' then ''publish'' else if name = ''FLY_APP_NAME'' then ''seestorm''
                   else if name \<in> {''R2_ACCOUNT_ID'', ''R2_ACCESS_KEY_ID'', ''R2_SECRET_ACCESS_KEY'', ''R2_BUCKET_NAME''}
                   then ''x'' else ''''),
      st_parse_duration = (\<lambda>_. None), st_connect_err = None, st_migrate_err = None, st_aws_err = None\<rparr>"

theorem startup_sound_witness:
  "\<exists>s. startup sample_startup_env = Inr s \<and> Areas (se_config s) = [''OK'', ''TX''] \<and>
    \<not> should_ingest (cfg_Mode (se_config s)) \<and> wi_r2 (se_wiring s) \<and> set (se_feeds s) = {FeedPublish}"
proof -
  have "case startup sample_startup_env of Inl e \<Rightarrow> False
    | Inr s \<Rightarrow> Areas (se_config s) = [''OK'', ''TX''] \<and> cfg_Mode (se_config s) = ''publish''" by code_simp
  then obtain s where s: "startup sample_startup_env = Inr s" "Areas (se_config s) = [''OK'', ''TX'']"
    "cfg_Mode (se_config s) = ''publish''" by (auto split: sum.splits)
  have m: "should_publish ''publish''" "\<not> should_ingest ''publish''" by (simp_all add: should_publish_def should_ingest_def mode_defs)
  have "wi_r2 (se_wiring s)"
    using startup_sound [OF s(1)] s(3) m by (simp add: sample_startup_env_def)
  moreover have "f \<in> set (se_feeds s) \<longleftrightarrow> f = FeedPublish" for f
    using startup_sound [OF s(1), of f] s(3) m by auto
  ultimately show ?thesis using s m by auto
qed

end
