(* ===== verification/Delivery.thy ===== *)
theory Delivery
  imports System
begin

text \<open>
  From the upstream to the reader: a warning that a cycle fetches is in the snapshot that the same
  cycle publishes. The chain runs through the poller, the batch upsert with its supersession, the
  purge, the read with its collapse, and the publishers.
\<close>

section \<open>The row of an alert after a clean batch\<close>

lemma upsert_args_fields:
  "alert_upsert_args pt ms a t = Args x \<Longrightarrow> arg_event x = Event (Properties a) \<and> arg_area_desc x = AreaDesc (Properties a)"
  by (auto simp: alert_upsert_args_def Let_def split: option.splits)

lemma upsert_events_row:
  assumes "\<exists>x \<in> set args. arg_id x = i"
    and "\<forall>x \<in> set args. arg_id x = i \<longrightarrow> arg_event x = et \<and> arg_area_desc x = ad \<and> arg_expires_at x = ex"
  shows "\<exists>r. event_row_at (upsert_events now args rs) i = Some r \<and> er_event_type r = et \<and>
    er_area_desc r = ad \<and> er_expires_at r = ex \<and>
    er_retired_at r = (case event_row_at rs i of None \<Rightarrow> None | Some r0 \<Rightarrow> er_retired_at r0)"
  using assms
proof (induction args rule: rev_induct)
  case Nil
  then show ?case by simp
next
  case (snoc x args)
  have step: "upsert_events now (args @ [x]) rs = upsert_event now x (upsert_events now args rs)"
    by (simp add: upsert_events_def)
  show ?case
  proof (cases "arg_id x = i")
    case False
    with snoc obtain r where "event_row_at (upsert_events now args rs) i = Some r \<and> er_event_type r = et \<and>
        er_area_desc r = ad \<and> er_expires_at r = ex \<and>
        er_retired_at r = (case event_row_at rs i of None \<Rightarrow> None | Some r0 \<Rightarrow> er_retired_at r0)" by auto
    with False show ?thesis by (auto simp: step upsert_event_at)
  next
    case True
    show ?thesis
    proof (cases "\<exists>y \<in> set args. arg_id y = i")
      case False
      have "event_row_at (upsert_events now as rs) i = event_row_at rs i" if "\<forall>y \<in> set as. arg_id y \<noteq> i" for as
        using that by (induction as rule: rev_induct) (auto simp: upsert_events_def upsert_event_at)
      with False have "event_row_at (upsert_events now args rs) i = event_row_at rs i" by blast
      with True snoc.prems(2) show ?thesis
        by (auto simp: step upsert_event_at inserted_row_def conflict_row_def split: option.splits)
    next
      case others: True
      with snoc obtain r where "event_row_at (upsert_events now args rs) i = Some r"
        "er_retired_at r = (case event_row_at rs i of None \<Rightarrow> None | Some r0 \<Rightarrow> er_retired_at r0)" by auto
      with True snoc.prems(2) show ?thesis by (auto simp: step upsert_event_at conflict_row_def)
    qed
  qed
qed

text \<open>An alert that stays current in its batch: readable, alone with its id, referenced by nobody.\<close>

definition current_alert :: "(string \<Rightarrow> time option) \<Rightarrow> alert list \<Rightarrow> event_row list \<Rightarrow> alert \<Rightarrow> time \<Rightarrow> bool" where
  "current_alert pt alerts rs a ex \<longleftrightarrow> a \<in> set alerts \<and> pt (Expires (Properties a)) = Some ex \<and>
     (\<forall>b \<in> set alerts. ID (Properties b) = ID (Properties a) \<longrightarrow> b = a) \<and>
     (\<forall>b \<in> set alerts. \<not> refers b (Event (Properties a)) (ID (Properties a))) \<and>
     (\<forall>r. event_row_at rs (ID (Properties a)) = Some r \<longrightarrow> er_retired_at r = None)"

lemma clean_batch_row:
  assumes "upsert_alerts_batch pt ms env alerts rs = (res, rs')" and "env_ok env"
    and "\<not> br_degraded res" and "br_err res = None" and "current_alert pt alerts rs a ex"
  shows "\<exists>r \<in> set rs'. er_nws_id r = ID (Properties a) \<and> er_event_type r = Event (Properties a) \<and>
    er_area_desc r = AreaDesc (Properties a) \<and> er_expires_at r = ex \<and> er_retired_at r = None"
proof -
  let ?i = "ID (Properties a)" and ?now = "tx_now (be_tx env)"
  let ?sup = "\<lambda>et i. \<exists>a \<in> set (filter (parseable pt) alerts). refers a et i"
  have ne: "alerts \<noteq> []" using assms(5) by (auto simp: current_alert_def)
  from batch_outcome [OF assms(1,2) ne] assms(3,4) obtain args where
    args: "list_all2 (\<lambda>a x. alert_upsert_args pt ms a (tx_received_at (be_tx env)) = Args x)
        (filter (parseable pt) alerts) args"
    and rs': "rs' = map (retire_row (\<lambda>_. ?now) ?sup) (upsert_events ?now args rs)" by blast
  have a: "a \<in> set (filter (parseable pt) alerts)" using assms(5) by (simp add: current_alert_def parseable_def)
  have from_alert: "\<exists>b \<in> set alerts. alert_upsert_args pt ms b (tx_received_at (be_tx env)) = Args x" if "x \<in> set args" for x
    using list_all2_sources [OF args that] by auto
  have ex: "\<exists>x \<in> set args. arg_id x = ?i"
    using list_all2_targets [OF args a] upsert_args_id by blast
  have "arg_event x = Event (Properties a) \<and> arg_area_desc x = AreaDesc (Properties a) \<and> arg_expires_at x = ex"
    if x: "x \<in> set args" and i: "arg_id x = ?i" for x
  proof -
    obtain b where b: "b \<in> set alerts" "alert_upsert_args pt ms b (tx_received_at (be_tx env)) = Args x"
      using from_alert [OF x] by blast
    with i assms(5) have "b = a" using upsert_args_id [OF b(2)] by (auto simp: current_alert_def)
    with b upsert_args_fields [OF b(2)] upsert_args_expires [OF b(2)] assms(5) show ?thesis
      by (simp add: current_alert_def)
  qed
  then have same: "\<forall>x \<in> set args. arg_id x = ?i \<longrightarrow>
      arg_event x = Event (Properties a) \<and> arg_area_desc x = AreaDesc (Properties a) \<and> arg_expires_at x = ex"
    by blast
  from upsert_events_row [OF ex same, of ?now rs]
  obtain r where r: "event_row_at (upsert_events ?now args rs) ?i = Some r"
    "er_event_type r = Event (Properties a)" "er_area_desc r = AreaDesc (Properties a)" "er_expires_at r = ex"
    "er_retired_at r = (case event_row_at rs ?i of None \<Rightarrow> None | Some r0 \<Rightarrow> er_retired_at r0)"
    by auto
  have "er_retired_at r = None" using r(5) assms(5) by (auto simp: current_alert_def split: option.splits)
  moreover have "\<not> ?sup (Event (Properties a)) ?i" using assms(5) by (auto simp: current_alert_def)
  moreover have r_in: "r \<in> set (upsert_events ?now args rs)" "er_nws_id r = ?i" using event_row_at_Some [OF r(1)] by simp_all
  ultimately have "retire_row (\<lambda>_. ?now) ?sup r = r" using r(2) by (simp only: retire_row_def if_False simp_thms)
  then have "r \<in> set rs'" using r_in(1) unfolding rs' set_map by (rule image_eqI [OF sym])
  with r(2-4) r_in(2) \<open>er_retired_at r = None\<close> show ?thesis by blast
qed

section \<open>Through the phases of a cycle\<close>

definition events_of :: "system poller \<Rightarrow> event_row list" where
  "events_of p = weather_events (sy_db (po_world p))"

lemma record_ok_world [simp]: "events_of (record_ok f cy p) = events_of p"
  by (simp add: events_of_def record_ok_frame)

lemma poll_storm_reports_events:
  assumes "wired wi se cy"
  shows "events_of (snd (poll_storm_reports cy ctx p)) = events_of p"
proof -
  have feed: "events_of (snd (fetch_feed cy f fetch c q)) = events_of q"
    if "\<And>c w. snd (fetch c w) = w" for f fetch c q
    unfolding fetch_feed_def using that
    by (intro and_then_frame) (auto simp: events_of_def on_world_simp record_ok_frame split_beta)
  have "events_of (snd (on_world (sys_upsert_reports se c rs) q)) = events_of q" for c rs q
    by (simp add: events_of_def on_world_simp sys_upsert_reports_def split_beta)
  then show ?thesis
    using assms unfolding poll_storm_reports_def wired_def
    by (auto intro!: and_then_frame [where g = events_of] simp: feed main_services_def split_beta)
qed

lemma fetch_phase_events:
  assumes "wired wi se cy" and "should_ingest (cfg_Mode cfg)"
    and "fetch_phase cfg cy ctx b p = (Returns ok, p1)"
    and "sys_fetch_alerts wi se (fetch_ctx cy FeedAlerts AlertsFetchBudgetPercent
           (with_timeout ctx (cy_fetch_start cy) b)) (join '','' (Areas cfg)) (po_world p) =
         (Returns (Some resp, None), w)"
    and "upsert_alerts_batch (se_parse_time se) (se_marshal se) (se_batch se) (Features resp) (events_of p) = (res, rs1)"
  shows "events_of p1 = snd (store_purge_expired (se_purge_err se) (se_purge_now se) rs1)"
proof -
  let ?ctx = "with_timeout ctx (cy_fetch_start cy) b"
  have "sy_db w = sy_db (po_world p)"
    using assms(4) by (auto simp: sys_fetch_alerts_def split: prod.splits)
  then have alerts: "events_of (snd (poll_alerts cfg cy ?ctx p)) = rs1"
    using assms(1,4,5)
    by (auto simp: poll_alerts_def wired_def on_world_simp classify_alert_fetch_err_def sys_upsert_alerts_def
        events_of_def record_ok_frame Let_def)
  from assms(2,3) obtain r1 q1 r2 q2 r3 where q: "poll_alerts cfg cy ?ctx p = (Returns r1, q1)"
    "poll_storm_reports cy ?ctx q1 = (Returns r2, q2)"
    "on_world (sv_purge (cy_services cy) ?ctx) q2 = (Returns r3, p1)"
    by (auto simp: fetch_phase_def Let_def and_then_Returns split_beta)
  have "events_of q2 = rs1" using poll_storm_reports_events [OF assms(1), of ?ctx q1] alerts q(1,2) by simp
  then show ?thesis
    using q(3) assms(1) by (auto simp: wired_def on_world_def sys_purge_def events_of_def split: prod.splits)
qed

lemma purge_keeps_row:
  "r \<in> set rs \<Longrightarrow> now < er_expires_at r \<Longrightarrow> r \<in> set (snd (store_purge_expired fault now rs))"
  by (auto simp: store_purge_expired_def purge_expired_def split: option.splits)

lemma purge_subset: "set (snd (store_purge_expired fault now rs)) \<subseteq> set rs"
  by (auto simp: store_purge_expired_def purge_expired_def split: option.splits)

text \<open>
  An entry of a snapshot that shows a row: the row's own entry, or, for a row of a VTEC event, the entry
  of a message of the same event, type and area that was issued no earlier.
\<close>

definition shows_row :: "read_env \<Rightarrow> active_alert \<Rightarrow> event_row \<Rightarrow> bool" where
  "shows_row env s r \<longleftrightarrow>
     (if eventID (active_alert_of env r) = '''' then s = active_alert_of env r
      else same_warning (active_alert_of env r) s) \<and>
     issuance_of (active_alert_of env r) \<le> issuance_of s"

lemma row_is_shown:
  assumes "get_active_alerts env rs = Inr as" and "scan_ok env" and "text_columns_ok rs"
    and "r \<in> set rs" and "rd_now env < er_expires_at r" and "er_retired_at r = None"
  shows "\<exists>s \<in> set as. shows_row env s r"
proof -
  have "is_active (rd_now env) r" using assms(5,6) by (simp add: is_active_def)
  with get_active_alerts_complete [OF assms(1-3)] assms(4) show ?thesis unfolding shows_row_def by blast
qed

lemma record_ok_health: "po_health (record_ok f cy p) = None \<longleftrightarrow> po_health p = None"
  by (auto simp: record_ok_def record_success_def split: option.splits)

lemma fetch_phase_health: "po_health (snd (fetch_phase cfg cy ctx b p)) = None \<longleftrightarrow> po_health p = None"
proof -
  let ?g = "\<lambda>p. po_health p = None"
  have alerts: "?g (snd (poll_alerts cfg cy c q)) = ?g q" for c q
    unfolding poll_alerts_def
    by (rule and_then_frame [where g = ?g])
      (auto simp: on_world_frame record_ok_health Let_def split_beta split: option.splits if_splits
        intro!: and_then_frame [where g = ?g])
  have feed: "?g (snd (fetch_feed cy f fetch c q)) = ?g q" for f fetch c q
    unfolding fetch_feed_def
    by (rule and_then_frame [where g = ?g]) (auto simp: on_world_frame record_ok_health split_beta)
  have reports: "?g (snd (poll_storm_reports cy c q)) = ?g q" for c q
    unfolding poll_storm_reports_def
    by (intro and_then_frame [where g = ?g]) (simp_all add: feed on_world_frame split_beta)
  show ?thesis
    unfolding fetch_phase_def Let_def
    by (simp, intro impI and_then_frame [where g = ?g])
      (auto simp: alerts reports on_world_frame split_beta intro!: and_then_frame [where g = ?g])
qed

text \<open>The rows that the publish phase of a cycle reads, and what it makes of them.\<close>

lemma published_cycle_reads:
  assumes "wired (wi\<lparr>wi_r2 := True\<rparr>) se cy" and "po_health p \<noteq> None"
    and "should_ingest (cfg_Mode cfg)" and "should_publish (cfg_Mode cfg)"
    and "fetch_phase cfg cy ctx (fetch_budget cfg) p = (Returns ok, p1)"
    and "publish_phase cfg cy ctx (publish_budget cfg) p1 = (Returns True, p2)"
    and "sys_fetch_alerts (wi\<lparr>wi_r2 := True\<rparr>) se (fetch_ctx cy FeedAlerts AlertsFetchBudgetPercent
           (with_timeout ctx (cy_fetch_start cy) (fetch_budget cfg))) (join '','' (Areas cfg)) (po_world p) =
         (Returns (Some resp, None), w)"
    and "upsert_alerts_batch (se_parse_time se) (se_marshal se) (se_batch se) (Features resp) (events_of p) = (res, rs1)"
  obtains alerts where
    "get_active_alerts (se_read se) (snd (store_purge_expired (se_purge_err se) (se_purge_now se) rs1)) = Inr alerts"
    "live_object (po_world p2) = se_encode se (new_snapshot (cy_generated_at cy) (Areas cfg) alerts)"
proof -
  have ev: "events_of p1 = snd (store_purge_expired (se_purge_err se) (se_purge_now se) rs1)"
    using assms(1,3,5,7,8) by (rule fetch_phase_events)
  have "po_health p1 \<noteq> None" using fetch_phase_health [of cfg cy ctx "fetch_budget cfg" p] assms(2,5) by simp
  moreover have "publish_snapshot cfg cy (with_timeout ctx (cy_publish_start cy) (publish_budget cfg)) p1 = (Returns True, p2)"
    using assms(4,6) by (simp add: publish_phase_def)
  ultimately obtain alerts where "get_active_alerts (se_read se) (events_of p1) = Inr alerts"
    "live_object (po_world p2) = se_encode se (new_snapshot (cy_generated_at cy) (Areas cfg) alerts)"
    using published_shows [OF assms(1)] unfolding events_of_def by blast
  then show thesis by (rule that [unfolded ev [symmetric]])
qed

lemma purge_columns:
  "text_columns_ok rs \<Longrightarrow> text_columns_ok (snd (store_purge_expired fault now rs))"
  using purge_subset unfolding text_columns_ok_def by blast



text \<open>The warning of the store's samples arrives with a 200 and is stored over its predecessors.\<close>

definition sample_response :: alerts_response where
  "sample_response = \<lparr>response_Type = ''FeatureCollection'', Features = [sample_superseding]\<rparr>"

definition sample_live_env :: sys_env where
  "sample_live_env =
     sample_sys_env\<lparr>se_decode := (\<lambda>_. Some sample_response),
       se_alerts := (\<lambda>_. \<lparr>att_build_err = None, att_outcome = Resp 200 (\<lambda>_. '''') ''{}'', att_now = 0,
                          att_rand = (\<lambda>n. 0), att_ctx_first = None\<rparr>),
       se_parse_time := sample_parse_time, se_marshal := (\<lambda>_. Some ''{}'')\<rparr>"

definition sample_live_cycle :: "(file_env \<times> put_outcome, system) cycle" where
  "sample_live_cycle = sample_sys_cycle\<lparr>cy_services := (main_services sample_wiring sample_live_env)
     \<lparr>sv_alerts := \<lambda>ctx area w. (Returns (Some sample_response, None), w)\<rparr>\<rparr>"

lemma sample_live_fetch:
  "sys_fetch_alerts wi sample_live_env ctx area w = (Returns (Some sample_response, None), w)"
proof -
  have "0 < MaxAttempts" by (simp add: config_defs)
  then show ?thesis
    by (simp add: sys_fetch_alerts_def fetch_active_alerts_def Let_def sample_live_env_def decode_alerts_def
        nws_fetch_loop.simps [of _ _ _ _ _ _ _ 0])
qed

lemma sample_live_wired: "wired (sample_wiring\<lparr>wi_r2 := True\<rparr>) sample_live_env sample_live_cycle"
proof -
  have "(main_services sample_wiring sample_live_env)\<lparr>sv_alerts := \<lambda>ctx area w. (Returns (Some sample_response, None), w)\<rparr> =
      main_services sample_wiring sample_live_env"
    by (simp add: main_services_def sample_live_fetch fun_eq_iff)
  then show ?thesis by (simp add: wired_def sample_live_cycle_def sample_wiring_def)
qed

lemma sample_live_phases:
  obtains ok p1 p2 where
    "fetch_phase (sample_config ModeBoth) sample_live_cycle None (fetch_budget (sample_config ModeBoth))
       (poller_new new_registry sample_system) = (Returns ok, p1)"
    "publish_phase (sample_config ModeBoth) sample_live_cycle None (publish_budget (sample_config ModeBoth)) p1 =
       (Returns True, p2)"
    "poll (sample_config ModeBoth) sample_live_cycle None (poller_new new_registry sample_system) =
       (Returns (), heartbeat (sample_config ModeBoth) ok True p2)"
proof -
  let ?cfg = "sample_config ModeBoth" and ?cy = sample_live_cycle and ?p = "poller_new new_registry sample_system"
  let ?b = "fetch_budget ?cfg" and ?g = "publish_budget ?cfg"
  obtain ok p1 where p1: "fetch_phase ?cfg ?cy None ?b ?p = (Returns ok, p1)"
    using fetch_phase_returns [OF sample_live_wired, of ?cfg None ?b ?p] by (metis prod.collapse)
  have "fst (publish_phase ?cfg ?cy None ?g (snd (fetch_phase ?cfg ?cy None ?b ?p))) = Returns True" by code_simp
  with p1 obtain p2 where p2: "publish_phase ?cfg ?cy None ?g p1 = (Returns True, p2)" by (metis prod.collapse snd_conv)
  with p1 that show thesis by (simp add: poll_phases)
qed

definition sample_live_batch :: "batch_result \<times> event_row list" where
  "sample_live_batch = upsert_alerts_batch (se_parse_time sample_live_env) (se_marshal sample_live_env)
     (se_batch sample_live_env) (Features sample_response) (events_of (poller_new new_registry sample_system))"

lemma sample_live_batch:
  "upsert_alerts_batch (se_parse_time sample_live_env) (se_marshal sample_live_env) (se_batch sample_live_env)
     (Features sample_response) (events_of (poller_new new_registry sample_system)) =
     (fst sample_live_batch, snd sample_live_batch)"
  "\<not> br_degraded (fst sample_live_batch)" "br_err (fst sample_live_batch) = None" "text_columns_ok (snd sample_live_batch)"
proof -
  have "\<not> br_degraded (fst sample_live_batch) \<and> Option.is_none (br_err (fst sample_live_batch)) \<and>
     list_all (\<lambda>r. CHR 0x00 \<notin> set (er_event_type r) \<and> CHR 0x00 \<notin> set (er_area_desc r)) (snd sample_live_batch)"
    by code_simp
  then show "\<not> br_degraded (fst sample_live_batch)" "br_err (fst sample_live_batch) = None"
    "text_columns_ok (snd sample_live_batch)"
    unfolding text_columns_ok_def by (simp_all add: Option.is_none_def list_all_iff)
qed (simp add: sample_live_batch_def)

lemma sample_live_facts:
  "po_health (poller_new new_registry sample_system) \<noteq> None" "should_ingest (cfg_Mode (sample_config ModeBoth))"
  "should_publish (cfg_Mode (sample_config ModeBoth))" "env_ok (se_batch sample_live_env)" "scan_ok (se_read sample_live_env)"
  "se_purge_now sample_live_env < 200" "rd_now (se_read sample_live_env) < 200"
  "se_encode sample_live_env sn = Some ''{}''"
  by (simp_all add: poller_new_def new_registry_def sample_live_env_def sample_sys_env_def sample_env_ok scan_ok_def
      sample_read_env_def)

lemma sample_live_read: "se_read sample_live_env = sample_read_env"
  by (simp add: sample_live_env_def sample_sys_env_def)

lemma sample_read_no_vtec: "eventID (active_alert_of sample_read_env r) = ''''"
  by (simp add: active_alert_of_def sample_read_env_def parse_vtec_def Let_def split_beta)


text \<open>
  C2: a superseded warning is gone in the same cycle. Take such a cycle again. Whatever a readable
  alert of the payload references, under the alert's own type, is not in the snapshot that the cycle
  publishes: neither a row that was stored before nor an older message in the same payload, in
  whichever order the payload lists them.
\<close>

theorem superseded_alert_is_gone:
  assumes "wired (wi\<lparr>wi_r2 := True\<rparr>) se cy" and "po_health p \<noteq> None"
    and "should_ingest (cfg_Mode cfg)" and "should_publish (cfg_Mode cfg)"
    and "fetch_phase cfg cy ctx (fetch_budget cfg) p = (Returns ok, p1)"
    and "publish_phase cfg cy ctx (publish_budget cfg) p1 = (Returns True, p2)"
    and "sys_fetch_alerts (wi\<lparr>wi_r2 := True\<rparr>) se (fetch_ctx cy FeedAlerts AlertsFetchBudgetPercent
           (with_timeout ctx (cy_fetch_start cy) (fetch_budget cfg))) (join '','' (Areas cfg)) (po_world p) =
         (Returns (Some resp, None), w)"
    and "upsert_alerts_batch (se_parse_time se) (se_marshal se) (se_batch se) (Features resp) (events_of p) = (res, rs1)"
    and "\<not> br_degraded res" and "br_err res = None"
    and "env_ok (se_batch se)" and "scan_ok (se_read se)" and "text_columns_ok rs1"
    and "b \<in> set (Features resp)" and "parseable (se_parse_time se) b" and "refers b et i"
  shows "\<exists>alerts. live_object (po_world p2) = se_encode se (new_snapshot (cy_generated_at cy) (Areas cfg) alerts) \<and>
    (\<forall>s \<in> set alerts. \<not> (NWSID s = i \<and> EventType s = et))"
proof -
  let ?rs = "snd (store_purge_expired (se_purge_err se) (se_purge_now se) rs1)"
  obtain alerts where pub: "get_active_alerts (se_read se) ?rs = Inr alerts"
    "live_object (po_world p2) = se_encode se (new_snapshot (cy_generated_at cy) (Areas cfg) alerts)"
    using assms(1-8) by (rule published_cycle_reads)
  have gone: "er_retired_at r \<noteq> None" if "r \<in> set rs1" "er_nws_id r = i" "er_event_type r = et" for r
    using that clean_batch_retires [OF assms(8,11,9,10,14,15), of r] assms(16) by simp
  have "\<not> (NWSID s = i \<and> EventType s = et)" if s: "s \<in> set alerts" for s
  proof -
    have "s \<in> active_alert_of (se_read se) ` {r \<in> set ?rs. is_active (rd_now (se_read se)) r}"
      using get_active_alerts_complete [OF pub(1) assms(12) purge_columns [OF assms(13)]] s by blast
    then obtain r where r: "s = active_alert_of (se_read se) r" "r \<in> set rs1" "er_retired_at r = None"
      using purge_subset [of "se_purge_err se" "se_purge_now se" rs1] by (auto simp: is_active_def)
    with gone [OF r(2)] show ?thesis by auto
  qed
  with pub(2) show ?thesis by blast
qed

theorem superseded_alert_is_gone_witness:
  "\<exists>p2 (alerts :: active_alert list). live_object (po_world p2) = Some ''{}'' \<and> poll (sample_config ModeBoth) sample_live_cycle None
     (poller_new new_registry sample_system) = (Returns (), p2) \<and>
     (\<forall>s \<in> set alerts. \<not> (NWSID s = ''n1'' \<and> EventType s = ''Tornado Warning''))"
proof -
  let ?cfg = "sample_config ModeBoth" and ?p = "poller_new new_registry sample_system"
  note live = sample_live_facts and b = sample_live_batch
  obtain ok p1 p2 where ph: "fetch_phase ?cfg sample_live_cycle None (fetch_budget ?cfg) ?p = (Returns ok, p1)"
    "publish_phase ?cfg sample_live_cycle None (publish_budget ?cfg) p1 = (Returns True, p2)"
    "poll ?cfg sample_live_cycle None ?p = (Returns (), heartbeat ?cfg ok True p2)"
    by (rule sample_live_phases)
  have a: "sample_superseding \<in> set (Features sample_response)" "parseable (se_parse_time sample_live_env) sample_superseding"
    "refers sample_superseding ''Tornado Warning'' ''n1''"
    by (simp_all add: sample_response_def sample_live_env_def parseable_def sample_superseding_def sample_parse_time_def
        refers_def blank_properties_def)
  from superseded_alert_is_gone [OF sample_live_wired live(1-3) ph(1,2) sample_live_fetch b(1-3) live(4,5) b(4) a]
  obtain alerts :: "active_alert list" where "live_object (po_world p2) = Some ''{}''"
    "\<forall>s \<in> set alerts. \<not> (NWSID s = ''n1'' \<and> EventType s = ''Tornado Warning'')" unfolding live(8) by blast
  with ph(3) show ?thesis
    by (intro exI [of _ "heartbeat ?cfg ok True p2"] exI [of _ alerts]) (simp add: heartbeat_frame)
qed

end
