(* ===== verification/Vouching.thy ===== *)
theory Vouching
  imports Delivery
begin

text \<open>
  The heartbeat of the wired service across cycles. The NWS client keeps the ETag of a payload as soon
  as it is decoded, before the poller stores it; the poller remembers whether storing it failed.
  Together they decide what a 304 may vouch for.
\<close>

section \<open>Only a fetch moves the ETag cache\<close>

abbreviation etags_of :: "system poller \<Rightarrow> etag_cache" where
  "etags_of p \<equiv> sy_etags (po_world p)"

abbreviation areas_endpoint :: "wiring \<Rightarrow> config \<Rightarrow> string" where
  "areas_endpoint wi cfg \<equiv> alerts_endpoint (wi_nws wi) (join '','' (Areas cfg))"

lemma sys_etags [simp]:
  "sy_etags (snd (sys_upsert_alerts se ctx as w)) = sy_etags w"
  "sy_etags (snd (sys_upsert_reports se ctx rs w)) = sy_etags w"
  "sy_etags (snd (sys_purge se ctx w)) = sy_etags w"
  "sy_etags (snd (sys_publish wi se i ctx sn w)) = sy_etags w"
  "sy_etags (snd (sys_publish_state wi se e ctx s w)) = sy_etags w"
  by (simp_all add: sys_upsert_alerts_def sys_upsert_reports_def sys_purge_def sys_publish_def sys_publish_state_def
      Let_def split_beta)

lemma publish_with_retry_frame:
  assumes "\<And>i c v. g (snd (fn i c v)) = g v"
  shows "g (snd (publish_with_retry ctx fn env w)) = g w"
proof -
  have "0 < PublishPutMaxRetries + 1" by simp
  then obtain k where k: "snd (attempt_publish ctx fn (PublishPutMaxRetries + 1) publishPutTimeout publishRetryDelay env w) =
      world_at fn ctx publishPutTimeout env w (Suc k)"
    by (rule attempt_publish_ends [where fn = fn and parent = ctx and t = publishPutTimeout and env = env and w = w
          and d = publishRetryDelay]) (metis snd_conv)
  have "snd (publish_with_retry ctx fn env w) =
      snd (attempt_publish ctx fn (PublishPutMaxRetries + 1) publishPutTimeout publishRetryDelay env w)"
    by (simp add: publish_with_retry_def split: prod.splits call.splits option.splits)
  then show ?thesis unfolding k using assms by (simp add: world_at_frame [where g = g] del: world_at.simps)
qed

lemma publish_per_state_frame:
  assumes "\<And>e c s v. g (snd (pub e c s v)) = g v"
  shows "g (snd (publish_per_state pub parent areas alerts t sched (h, w))) = g w"
proof -
  obtain h' w' where r: "publish_per_state pub parent areas alerts t sched (h, w) = (h', w')" by fastforce
  then obtain st where st: "fan_reach pub (\<lambda>state. new_state_snapshot state (filter_alerts_by_state alerts state) t)
      parent areas h w st" "w' = fan_world st"
    by (rule publish_per_state_reach)
  from fan_reach_frame [where g = g, OF st(1) assms] r st(2) show ?thesis by simp
qed

lemma publish_phase_keeps:
  assumes "wired wi se cy" and "\<And>i c sn w. g (snd (sys_publish wi se i c sn w)) = g w"
    and "\<And>e c s w. g (snd (sys_publish_state wi se e c s w)) = g w"
  shows "g (po_world (snd (publish_phase cfg cy ctx b p))) = g (po_world p)"
proof -
  have put: "g (snd (publish_with_retry c (\<lambda>i d. sys_publish wi se i d sn) env w)) = g w" for c sn env w
    by (rule publish_with_retry_frame) (rule assms(2))
  have state: "g (snd (publish_per_state (sys_publish_state wi se) c as al t sched (h, w))) = g w"
    for c as al t sched h w
    by (rule publish_per_state_frame) (rule assms(3))
  have "g (po_world (snd (publish_snapshot cfg cy c q))) = g (po_world q)" for c q
    using assms(1) unfolding publish_snapshot_def wired_def
    by (intro and_then_frame [where g = "\<lambda>p. g (po_world p)"])
      (auto simp: on_world_simp Let_def split_beta put state record_ok_frame
        split: sum.splits intro!: and_then_frame [where g = "\<lambda>p. g (po_world p)"])
  then show ?thesis by (simp add: publish_phase_def)
qed

lemma publish_phase_etags:
  "wired wi se cy \<Longrightarrow> etags_of (snd (publish_phase cfg cy ctx b p)) = etags_of p"
  by (rule publish_phase_keeps) simp_all

lemma fetch_phase_etags:
  assumes "wired wi se cy" and "should_ingest (cfg_Mode cfg)"
  shows "etags_of (snd (fetch_phase cfg cy ctx b p)) =
    etags_of (snd (poll_alerts cfg cy (with_timeout ctx (cy_fetch_start cy) b) p))"
proof -
  have feed: "etags_of (snd (fetch_feed cy f fetch c q)) = etags_of q" if "\<And>c w. snd (fetch c w) = w" for f fetch c q
    unfolding fetch_feed_def using that by (intro and_then_frame) (auto simp: on_world_simp record_ok_frame split_beta)
  have reports: "etags_of (snd (poll_storm_reports cy c q)) = etags_of q" for c q
    using assms(1) unfolding poll_storm_reports_def wired_def
    by (auto intro!: and_then_frame [where g = etags_of] simp: feed on_world_simp main_services_def split_beta)
  obtain r q where m: "poll_alerts cfg cy (with_timeout ctx (cy_fetch_start cy) b) p = (r, q)" by fastforce
  show ?thesis
    using assms
    by (cases r) (auto simp: fetch_phase_def Let_def m split_beta wired_def reports on_world_simp
        intro!: and_then_frame [where g = etags_of])
qed


section \<open>What came of the alerts in a wired cycle\<close>

lemma wired_no_upsert_panic:
  assumes "wired wi se cy"
  shows "alerts_result cfg cy ctx p \<noteq> UpsertPanic"
proof -
  have "fst (sys_upsert_alerts se c as w) \<noteq> Panics m" for c as w m using sys_returns(1) [of se c as w] by auto
  then show ?thesis
    using assms by (auto simp: alerts_result_def wired_def split: prod.splits call.splits option.splits)
qed

text \<open>A cycle whose fetch does not bring a payload leaves the ETag of its areas alone.\<close>

lemma wired_alerts_etags:
  assumes "wired wi se cy"
  shows "alerts_result cfg cy ctx p \<in> {Landed, UpsertErr} \<or> etags_of (snd (poll_alerts cfg cy ctx p)) = etags_of p"
proof -
  let ?area = "join '','' (Areas cfg)" and ?ctx = "fetch_ctx cy FeedAlerts AlertsFetchBudgetPercent ctx"
  obtain resp err etags log where f: "fetch_active_alerts (wi_nws wi) ?ctx (se_decode se) (se_alerts se) ?area (etags_of p) =
      (((resp, err), etags), log)" by (metis surj_pair)
  note cache = fetch_cache [OF f]
  have sys: "sys_fetch_alerts wi se ?ctx ?area (po_world p) = (Returns (resp, err), (po_world p)\<lparr>sy_etags := etags\<rparr>)"
    by (simp add: sys_fetch_alerts_def f)
  show ?thesis
  proof (cases "err = None")
    case True
    then obtain r where "resp = Some r" using cache by auto
    then have "alerts_result cfg cy ctx p \<in> {Landed, UpsertErr, UpsertPanic}"
      using assms True by (auto simp: alerts_result_def wired_def sys split: call.splits)
    with wired_no_upsert_panic [OF assms] show ?thesis by auto
  next
    case False
    then have "etags = etags_of p" using cache by simp
    then have "etags_of (snd (poll_alerts cfg cy ctx p)) = etags_of p"
      using assms False
      by (auto simp: poll_alerts_def wired_def on_world_simp sys classify_alert_fetch_err_def Let_def record_ok_frame)
    then show ?thesis by simp
  qed
qed

lemma wired_cycle_etags:
  assumes "wired wi se cy" and "should_ingest (cfg_Mode cfg)"
  shows "cycle_alerts cfg cy ctx p \<in> {Landed, UpsertErr} \<or> etags_of (poll_safely cfg cy ctx p) = etags_of p"
proof -
  have "etags_of (poll_safely cfg cy ctx p) = etags_of (snd (fetch_phase cfg cy ctx (fetch_budget cfg) p))"
    unfolding poll_safely_snd poll_phases
    by (intro and_then_frame [where g = etags_of]) (auto simp: publish_phase_etags [OF assms(1)] heartbeat_frame
        intro!: and_then_frame [where g = etags_of])
  then show ?thesis
    using wired_alerts_etags [OF assms(1)] by (simp add: fetch_phase_etags [OF assms] cycle_alerts_def fetch_budget_def)
qed

text \<open>Without a payload that was handed to the store, nothing is cached.\<close>

lemma wired_run_etags:
  assumes "should_ingest (cfg_Mode cfg)"
  shows "\<forall>(cy, ctx) \<in> set cs. \<exists>se. wired wi se cy \<Longrightarrow>
    last_upsert (alerts_results cfg cs p) = None \<Longrightarrow> etags_of (run_cycles cfg cs p) = etags_of p"
proof (induction cs arbitrary: p)
  case (Cons c cs)
  obtain cy ctx where c: "c = (cy, ctx)" by (cases c)
  with Cons.prems(1) obtain se where w: "wired wi se cy" by auto
  have none: "last_upsert (alerts_results cfg cs (poll_safely cfg cy ctx p)) = None"
    "cycle_alerts cfg cy ctx p \<notin> {Landed, UpsertErr}"
    using Cons.prems(2) by (auto simp: c last_upsert_def find_append split: option.splits if_splits)
  from wired_cycle_etags [OF w assms, of ctx p] none(2) have "etags_of (poll_safely cfg cy ctx p) = etags_of p" by blast
  with Cons.IH [OF _ none(1)] Cons.prems(1) show ?case by (simp add: c)
qed simp


section \<open>The heartbeat\<close>

text \<open>A server that answers 304 only to a request with an \<open>If-None-Match\<close> header, as HTTP has it.\<close>

definition conditional_304 :: "wiring \<Rightarrow> config \<Rightarrow> sys_env \<Rightarrow> system poller \<Rightarrow> bool" where
  "conditional_304 wi cfg se p \<longleftrightarrow>
     (\<forall>k h b. att_outcome (se_alerts se k) = Resp 304 h b \<longrightarrow>
        req_if_none_match (nws_request (wi_nws wi) (areas_endpoint wi cfg)
          (last_etag (wi_nws wi) (join '','' (Areas cfg)) (etags_of p))) \<noteq> None)"

lemma unchanged_was_cached:
  assumes "wired wi se cy" and "conditional_304 wi cfg se p" and "alerts_result cfg cy ctx p = Unchanged"
  shows "etags_of p (areas_endpoint wi cfg) \<noteq> None"
proof -
  let ?area = "join '','' (Areas cfg)" and ?ctx = "fetch_ctx cy FeedAlerts AlertsFetchBudgetPercent ctx"
  obtain resp err etags log where f: "fetch_active_alerts (wi_nws wi) ?ctx (se_decode se) (se_alerts se) ?area (etags_of p) =
      (((resp, err), etags), log)" by (metis surj_pair)
  have "err = Some ErrNotModified"
    using assms(1,3) by (auto simp: alerts_result_def wired_def sys_fetch_alerts_def f split: if_splits option.splits call.splits)
  with fetch_cache [OF f] obtain k h b where "att_outcome (se_alerts se k) = Resp 304 h b" by auto
  with assms(2) have "req_if_none_match (nws_request (wi_nws wi) (areas_endpoint wi cfg)
      (last_etag (wi_nws wi) ?area (etags_of p))) \<noteq> None" unfolding conditional_304_def by blast
  then show ?thesis by (auto simp: nws_request_def split: if_splits option.splits)
qed

text \<open>
  C9: a heartbeat vouches for the alerts in the store. Let a node of the service that ingests start
  with an empty cache and run any number of cycles, with whatever failures, against an upstream that
  answers 304 only to conditional requests. If it then sends a heartbeat, either this very cycle
  handed its payload to the store and the batch upsert returned without an error, or nothing had
  changed upstream and the last payload that was ever handed to the store was upserted without an
  error, so there was one; and a node that also publishes has published the merged snapshot of this
  cycle.
\<close>

theorem wired_heartbeat_vouches:
  assumes "should_ingest (cfg_Mode cfg)" and "sy_etags w = Map.empty"
    and "\<forall>(cy, ctx) \<in> set cs. \<exists>se. wired wi se cy" and "wired wi se cy"
    and "p = run_cycles cfg cs (poller_new h w)" and "conditional_304 wi cfg se p"
    and "po_pings (poll_safely cfg cy ctx p) \<noteq> po_pings p"
  shows "(cycle_alerts cfg cy ctx p = Landed \<or> cycle_alerts cfg cy ctx p = Unchanged \<and>
      last_upsert (alerts_results cfg cs (poller_new h w)) = Some Landed) \<and>
    (should_publish (cfg_Mode cfg) \<longrightarrow>
      fst (publish_phase cfg cy ctx (publish_budget cfg) (snd (fetch_phase cfg cy ctx (fetch_budget cfg) p))) =
        Returns True)"
proof -
  let ?last = "last_upsert (alerts_results cfg cs (poller_new h w))"
  note hb = heartbeat_vouches [OF assms(1,5,7)]
  have "?last = Some Landed" if u: "cycle_alerts cfg cy ctx p = Unchanged" "?last \<noteq> Some UpsertErr"
  proof (cases ?last)
    case None
    from wired_run_etags [OF assms(1,3) this] have "etags_of p = Map.empty"
      using assms(2) by (simp add: assms(5) poller_new_def)
    with unchanged_was_cached [OF assms(4,6) u(1) [unfolded cycle_alerts_def]] show ?thesis by simp
  next
    case (Some r)
    then have "r = Landed \<or> r = UpsertErr"
      unfolding last_upsert_def by (auto dest: find_Some_in_set)
    with Some u(2) show ?thesis by auto
  qed
  with hb show ?thesis by blast
qed


theorem wired_heartbeat_vouches_witness:
  "cycle_alerts (sample_config ModeBoth) sample_live_cycle None (poller_new new_registry sample_system) = Landed"
proof -
  let ?cfg = "sample_config ModeBoth" and ?p = "poller_new new_registry sample_system"
  have "po_pings (poll_safely ?cfg sample_live_cycle None ?p) = [''https://ping'']" by code_simp
  then have ping: "po_pings (poll_safely ?cfg sample_live_cycle None ?p) \<noteq> po_pings ?p" by (simp add: poller_new_def)
  have "sy_etags sample_system = Map.empty" by (simp add: sample_system_def)
  moreover have "?p = run_cycles ?cfg [] ?p" by simp
  moreover have "conditional_304 (sample_wiring\<lparr>wi_r2 := True\<rparr>) ?cfg sample_live_env ?p"
    by (simp add: conditional_304_def sample_live_env_def)
  ultimately show ?thesis
    using wired_heartbeat_vouches [OF sample_live_facts(2) _ _ sample_live_wired _ _ ping, of sample_system "[]"]
    by (simp add: last_upsert_def)
qed

end
