(* ===== verification/Fleet.thy ===== *)
theory Fleet
  imports Vouching
begin

text \<open>
  Several nodes on one database. Regional ingesters and the publisher share the two tables, and the
  server runs their statements in some order. Here the statements that \<open>internal/store\<close> sends are
  steps of the shared table, whichever node sends them and whatever fails in between; a cycle of the
  poller is a list of store operations, and each of these is a path of such steps.
\<close>

section \<open>The statements of a fleet\<close>

text \<open>
  One statement that changes \<open>weather_events\<close>: an upsert of an alert that some node fetched, a
  retirement of ids that fetched alerts reference under the statement's event type, or a purge, which
  reads the clock no later than \<open>horizon\<close>.
\<close>

inductive fleet_step ::
  "(string \<Rightarrow> time option) \<Rightarrow> (alert_properties \<Rightarrow> string option) \<Rightarrow> alert set \<Rightarrow> time \<Rightarrow>
   event_row list \<Rightarrow> event_row list \<Rightarrow> bool"
  for pt ms fetched horizon where
  upsert: "a \<in> fetched \<Longrightarrow> alert_upsert_args pt ms a t = Args x \<Longrightarrow>
    fleet_step pt ms fetched horizon rs (upsert_event now x rs)"
| retire: "(\<And>i. i \<in> set ids \<Longrightarrow> \<exists>a \<in> fetched. refers a et i) \<Longrightarrow>
    fleet_step pt ms fetched horizon rs (retire_by_reference now ids et rs)"
| purge: "now \<le> horizon \<Longrightarrow> fleet_step pt ms fetched horizon rs (purge_expired now rs)"

abbreviation fleet_reach ::
  "(string \<Rightarrow> time option) \<Rightarrow> (alert_properties \<Rightarrow> string option) \<Rightarrow> alert set \<Rightarrow> time \<Rightarrow>
   event_row list \<Rightarrow> event_row list \<Rightarrow> bool" where
  "fleet_reach pt ms fetched horizon \<equiv> rtranclp (fleet_step pt ms fetched horizon)"

text \<open>A property of the table that no statement of any node breaks.\<close>

locale fleet_invariant =
  fixes pt :: "string \<Rightarrow> time option"
    and ms :: "alert_properties \<Rightarrow> string option"
    and fetched :: "alert set"
    and horizon :: time
    and inv :: "event_row list \<Rightarrow> bool"
  assumes upsert: "inv rs \<Longrightarrow> a \<in> fetched \<Longrightarrow> alert_upsert_args pt ms a t = Args x \<Longrightarrow> inv (upsert_event now x rs)"
    and retire: "inv rs \<Longrightarrow> (\<And>i. i \<in> set ids \<Longrightarrow> \<exists>a \<in> fetched. refers a et i) \<Longrightarrow>
      inv (retire_by_reference now ids et rs)"
    and purge: "inv rs \<Longrightarrow> now \<le> horizon \<Longrightarrow> inv (purge_expired now rs)"
begin

lemma step: "fleet_step pt ms fetched horizon rs rs' \<Longrightarrow> inv rs \<Longrightarrow> inv rs'"
  by (induction rule: fleet_step.induct) (auto intro: upsert retire purge)

lemma reach: "fleet_reach pt ms fetched horizon rs rs' \<Longrightarrow> inv rs \<Longrightarrow> inv rs'"
  by (induction rule: rtranclp_induct) (auto intro: step)

end

interpretation fleet_wf: fleet_invariant pt ms fetched horizon wf_events for pt ms fetched horizon
  by unfold_locales (simp_all add: upsert_event_wf retire_wf purge_wf)

section \<open>A batch is a path of statements\<close>

lemma retire_rows_reach:
  "\<forall>(et, ids) \<in> set m. \<forall>i \<in> set ids. \<exists>a \<in> fetched. refers a et i \<Longrightarrow>
     fleet_reach pt ms fetched horizon rs (map (retire_row now (listed m)) rs)"
proof (induction m arbitrary: rs)
  case (Cons e m)
  obtain et ids where e: "e = (et, ids)" by (cases e)
  have "fleet_step pt ms fetched horizon rs (retire_by_reference (now et) ids et rs)"
    using Cons.prems by (intro fleet_step.retire) (simp add: e)
  moreover have "fleet_reach pt ms fetched horizon (retire_by_reference (now et) ids et rs)
      (map (retire_row now (listed m)) (retire_by_reference (now et) ids et rs))"
    using Cons.prems by (intro Cons.IH) simp
  ultimately show ?case by (simp add: e retire_row_cons)
qed simp

lemma retire_predicate_reach:
  assumes "\<And>et i. p et i \<Longrightarrow> \<exists>a \<in> fetched. refers a et i"
  shows "fleet_reach pt ms fetched horizon rs (map (retire_row now p) rs)"
proof -
  let ?m = "map (\<lambda>r. (er_event_type r, [er_nws_id r])) (filter (\<lambda>r. p (er_event_type r) (er_nws_id r)) rs)"
  have m: "listed ?m et i \<longleftrightarrow> (\<exists>r \<in> set rs. er_event_type r = et \<and> er_nws_id r = i \<and> p et i)" for et i
    by (auto simp: listed_def)
  have "map (retire_row now p) rs = map (retire_row now (listed ?m)) rs"
    by (rule map_cong [OF refl]) (auto simp: retire_row_def m)
  moreover have "fleet_reach pt ms fetched horizon rs (map (retire_row now (listed ?m)) rs)"
    using assms by (intro retire_rows_reach) auto
  ultimately show ?thesis by (simp only:)
qed

lemma batch_fleet_reach:
  "batch_reach pt ms alerts rs rs' \<Longrightarrow> set alerts \<subseteq> fetched \<Longrightarrow> fleet_reach pt ms fetched horizon rs rs'"
proof (induction rule: batch_reach.induct)
  case (upsert rs1 a t x now)
  then have "fleet_step pt ms fetched horizon rs1 (upsert_event now x rs1)" by (intro fleet_step.upsert) auto
  with upsert show ?case by auto
next
  case (retire rs1 p clock)
  have "fleet_reach pt ms fetched horizon rs1 (map (retire_row clock p) rs1)"
    using retire.hyps(2) retire.prems by (intro retire_predicate_reach) blast
  with retire.IH [OF retire.prems] show ?case by (rule rtranclp_trans)
qed simp

section \<open>The operations of the store\<close>

text \<open>The three calls of the poller that change the database, with what each meets.\<close>

datatype store_op =
    AlertBatch batch_env "alert list"
  | ReportBatch report_env "storm_report list"
  | PurgeRows "db_err option" time

primrec apply_op ::
  "(string \<Rightarrow> time option) \<Rightarrow> (alert_properties \<Rightarrow> string option) \<Rightarrow> store_op \<Rightarrow> db \<Rightarrow> db" where
  "apply_op pt ms (AlertBatch env alerts) d =
     d\<lparr>weather_events := snd (upsert_alerts_batch pt ms env alerts (weather_events d))\<rparr>"
| "apply_op pt ms (ReportBatch env reports) d =
     d\<lparr>storm_reports := snd (upsert_storm_reports_batch env reports (storm_reports d))\<rparr>"
| "apply_op pt ms (PurgeRows fault now) d =
     d\<lparr>weather_events := snd (store_purge_expired fault now (weather_events d))\<rparr>"

text \<open>An operation of a fleet that fetched these alerts and whose clocks have not passed \<open>horizon\<close>.\<close>

primrec op_ok :: "alert set \<Rightarrow> time \<Rightarrow> store_op \<Rightarrow> bool" where
  "op_ok fetched horizon (AlertBatch env alerts) \<longleftrightarrow> env_ok env \<and> set alerts \<subseteq> fetched"
| "op_ok fetched horizon (ReportBatch env reports) \<longleftrightarrow> True"
| "op_ok fetched horizon (PurgeRows fault now) \<longleftrightarrow> now \<le> horizon"

lemma op_reach:
  "op_ok fetched horizon op \<Longrightarrow>
     fleet_reach pt ms fetched horizon (weather_events d) (weather_events (apply_op pt ms op d))"
proof (cases op)
  case (AlertBatch env alerts)
  assume "op_ok fetched horizon op"
  then have "env_ok env" "set alerts \<subseteq> fetched" by (simp_all add: AlertBatch)
  then show ?thesis
    using batch_fleet_reach [OF batch_reaches [OF prod.collapse [symmetric]]] by (simp add: AlertBatch)
next
  case (PurgeRows fault now)
  assume "op_ok fetched horizon op"
  then show ?thesis
    using fleet_step.purge [of now horizon pt ms fetched "weather_events d"]
    by (auto simp: PurgeRows store_purge_expired_def split: option.splits)
qed simp

lemma ops_reach:
  "list_all (op_ok fetched horizon) ops \<Longrightarrow>
     fleet_reach pt ms fetched horizon (weather_events d) (weather_events (fold (apply_op pt ms) ops d))"
proof (induction ops arbitrary: d)
  case (Cons op ops)
  then have "fleet_reach pt ms fetched horizon (weather_events d) (weather_events (apply_op pt ms op d))"
    by (intro op_reach) simp
  moreover have "fleet_reach pt ms fetched horizon (weather_events (apply_op pt ms op d))
      (weather_events (fold (apply_op pt ms) ops (apply_op pt ms op d)))"
    using Cons by simp
  ultimately show ?case by simp
qed simp

text \<open>
  A property of the whole database that no store operation breaks. A property of the table of events
  that no statement breaks is one.
\<close>

locale db_invariant =
  fixes pt :: "string \<Rightarrow> time option"
    and ms :: "alert_properties \<Rightarrow> string option"
    and fetched :: "alert set"
    and horizon :: time
    and keeps :: "db \<Rightarrow> bool"
  assumes op: "op_ok fetched horizon op \<Longrightarrow> keeps d \<Longrightarrow> keeps (apply_op pt ms op d)"
begin

lemma ops: "list_all (op_ok fetched horizon) ops \<Longrightarrow> keeps d \<Longrightarrow> keeps (fold (apply_op pt ms) ops d)"
  by (induction ops arbitrary: d) (auto intro: op)

end

sublocale fleet_invariant \<subseteq> on_db: db_invariant pt ms fetched horizon "\<lambda>d. inv (weather_events d)"
  by unfold_locales (rule reach [OF op_reach])

section \<open>Unique keys\<close>

lemma op_wf_db:
  assumes "op_ok fetched horizon op" and "wf_db d"
  shows "wf_db (apply_op pt ms op d)"
proof -
  have "wf_events (weather_events (apply_op pt ms op d))"
    using assms by (intro fleet_wf.on_db.op) (simp_all add: wf_db_def)
  moreover have "distinct (map report_key (storm_reports (apply_op pt ms op d)))"
  proof (cases op)
    case (ReportBatch env reports)
    obtain n degraded err rs where b: "upsert_storm_reports_batch env reports (storm_reports d) = ((n, degraded, err), rs)"
      by (metis surj_pair)
    from reports_batch_grows [OF b] assms(2) show ?thesis
      by (simp add: ReportBatch b report_grows_def wf_db_def)
  qed (use assms(2) in \<open>simp_all add: wf_db_def\<close>)
  ultimately show ?thesis by (simp add: wf_db_def)
qed

interpretation db_wf: db_invariant pt ms fetched horizon wf_db for pt ms fetched horizon
  by unfold_locales (rule op_wf_db)

section \<open>A cycle as store operations\<close>

text \<open>
  What a cycle of a wired node does to the database: the batch of the payload if one came, the batch
  of the reports of the feeds that answered, the purge; nothing on a node that only publishes.
\<close>

definition feed_reports :: "(storm_report list \<times> spc_error option) call \<Rightarrow> storm_report list" where
  "feed_reports r = (case r of Returns (reports, None) \<Rightarrow> reports | _ \<Rightarrow> [])"

definition feed_answers :: "(storm_report list \<times> spc_error option) call \<Rightarrow> bool" where
  "feed_answers r = (case r of Returns (_, err) \<Rightarrow> err = None | Panics _ \<Rightarrow> False)"

definition cycle_reports :: "wiring \<Rightarrow> sys_env \<Rightarrow> (feed \<Rightarrow> time option) \<Rightarrow> storm_report list" where
  "cycle_reports wi se ctx =
     feed_reports (fst (fetch_today_tornado_reports (se_float se) (wi_spc wi) (ctx FeedSPCTorn) (se_reports se FeedSPCTorn))) @
     feed_reports (fst (fetch_today_hail_reports (se_float se) (wi_spc wi) (ctx FeedSPCHail) (se_reports se FeedSPCHail))) @
     feed_reports (fst (fetch_today_wind_reports (se_float se) (wi_spc wi) (ctx FeedSPCWind) (se_reports se FeedSPCWind)))"

definition payload :: "wiring \<Rightarrow> sys_env \<Rightarrow> time option \<Rightarrow> string list \<Rightarrow> etag_cache \<Rightarrow> alert list option" where
  "payload wi se ctx areas etags =
     (case fst (fst (fetch_active_alerts (wi_nws wi) ctx (se_decode se) (se_alerts se) (join '','' areas) etags)) of
        (Some resp, None) \<Rightarrow> Some (Features resp)
      | _ \<Rightarrow> None)"

definition cycle_ops ::
  "wiring \<Rightarrow> sys_env \<Rightarrow> config \<Rightarrow> ('e, 'w) cycle \<Rightarrow> time option \<Rightarrow> etag_cache \<Rightarrow> store_op list" where
  "cycle_ops wi se cfg cy ctx etags =
     (if should_ingest (cfg_Mode cfg) then
        (let ctx = with_timeout ctx (cy_fetch_start cy) (fetch_budget cfg)
         in (case payload wi se (fetch_ctx cy FeedAlerts AlertsFetchBudgetPercent ctx) (Areas cfg) etags of
               Some alerts \<Rightarrow> [AlertBatch (se_batch se) alerts] | None \<Rightarrow> []) @
            [ReportBatch (se_report_batch se) (cycle_reports wi se (\<lambda>f. fetch_ctx cy f SPCFetchBudgetPercent ctx)),
             PurgeRows (se_purge_err se) (se_purge_now se)])
      else [])"

abbreviation db_of :: "system poller \<Rightarrow> db" where
  "db_of p \<equiv> sy_db (po_world p)"

lemma poll_alerts_db:
  assumes "wired wi se cy"
  shows "db_of (snd (poll_alerts cfg cy ctx p)) =
    (case payload wi se (fetch_ctx cy FeedAlerts AlertsFetchBudgetPercent ctx) (Areas cfg) (sy_etags (po_world p)) of
       Some alerts \<Rightarrow> apply_op (se_parse_time se) (se_marshal se) (AlertBatch (se_batch se) alerts) (db_of p)
     | None \<Rightarrow> db_of p)"
proof -
  let ?area = "join '','' (Areas cfg)" and ?ctx = "fetch_ctx cy FeedAlerts AlertsFetchBudgetPercent ctx"
  obtain resp err etags log where f: "fetch_active_alerts (wi_nws wi) ?ctx (se_decode se) (se_alerts se) ?area
      (sy_etags (po_world p)) = (((resp, err), etags), log)" by (metis surj_pair)
  note cache = fetch_cache [OF f]
  have sys: "sys_fetch_alerts wi se ?ctx ?area (po_world p) = (Returns (resp, err), (po_world p)\<lparr>sy_etags := etags\<rparr>)"
    by (simp add: sys_fetch_alerts_def f)
  have pay: "payload wi se ?ctx (Areas cfg) (sy_etags (po_world p)) =
      (case (resp, err) of (Some resp, None) \<Rightarrow> Some (Features resp) | _ \<Rightarrow> None)"
    by (simp add: payload_def f)
  show ?thesis
  proof (cases "err = None")
    case True
    then obtain r where r: "resp = Some r" using cache by auto
    with True show ?thesis
      using assms
      by (auto simp: pay poll_alerts_def wired_def on_world_simp sys classify_alert_fetch_err_def Let_def
          record_ok_frame sys_upsert_alerts_def split_beta)
  next
    case False
    then show ?thesis
      using assms
      by (auto simp: pay poll_alerts_def wired_def on_world_simp sys classify_alert_fetch_err_def Let_def
          record_ok_frame split: option.splits)
  qed
qed


lemma fetch_feed_wired:
  assumes "\<exists>reports err. g (fetch_ctx cy f SPCFetchBudgetPercent ctx) = Returns (reports, err)"
  shows "fetch_feed cy f (\<lambda>c w. (g c, w)) ctx p =
     (Returns (feed_reports (g (fetch_ctx cy f SPCFetchBudgetPercent ctx))),
      if feed_answers (g (fetch_ctx cy f SPCFetchBudgetPercent ctx)) then record_ok f cy p else p)"
proof -
  obtain reports err where "g (fetch_ctx cy f SPCFetchBudgetPercent ctx) = Returns (reports, err)"
    using assms by blast
  then show ?thesis
    by (cases err) (simp_all add: fetch_feed_def on_world_simp feed_reports_def feed_answers_def)
qed

lemma poll_storm_reports_db:
  assumes "wired wi se cy"
  shows "\<exists>n q. poll_storm_reports cy ctx p = (Returns n, q) \<and>
    db_of q = apply_op (se_parse_time se) (se_marshal se)
      (ReportBatch (se_report_batch se) (cycle_reports wi se (\<lambda>f. fetch_ctx cy f SPCFetchBudgetPercent ctx))) (db_of p)"
  using assms
  by (simp add: poll_storm_reports_def wired_def main_services_def fetch_feed_wired on_world_simp sys_upsert_reports_def
      cycle_reports_def record_ok_frame split_beta)

lemma fetch_phase_db:
  assumes "wired wi se cy"
  shows "db_of (snd (fetch_phase cfg cy ctx (fetch_budget cfg) p)) =
    fold (apply_op (se_parse_time se) (se_marshal se)) (cycle_ops wi se cfg cy ctx (sy_etags (po_world p))) (db_of p)"
proof (cases "should_ingest (cfg_Mode cfg)")
  case True
  let ?ctx = "with_timeout ctx (cy_fetch_start cy) (fetch_budget cfg)"
  obtain r q where a: "poll_alerts cfg cy ?ctx p = (Returns r, q)"
    using poll_alerts_returns [OF assms] by (metis prod.collapse)
  obtain n q' where s: "poll_storm_reports cy ?ctx q = (Returns n, q')"
    "db_of q' = apply_op (se_parse_time se) (se_marshal se)
      (ReportBatch (se_report_batch se) (cycle_reports wi se (\<lambda>f. fetch_ctx cy f SPCFetchBudgetPercent ?ctx))) (db_of q)"
    using poll_storm_reports_db [OF assms] by blast
  have "db_of (snd (fetch_phase cfg cy ctx (fetch_budget cfg) p)) =
      apply_op (se_parse_time se) (se_marshal se) (PurgeRows (se_purge_err se) (se_purge_now se)) (db_of q')"
    using True assms by (simp add: fetch_phase_def Let_def a s(1) split_beta wired_def on_world_simp sys_purge_def)
  with s(2) poll_alerts_db [OF assms, of cfg ?ctx p] True show ?thesis
    by (simp add: a cycle_ops_def Let_def split: option.splits)
next
  case False
  then show ?thesis by (simp add: fetch_phase_def cycle_ops_def)
qed

text \<open>The publish phase only reads, so a cycle changes the database by its operations alone.\<close>

lemma publish_phase_db: "wired wi se cy \<Longrightarrow> db_of (snd (publish_phase cfg cy ctx b p)) = db_of p"
  by (rule publish_phase_keeps) (simp_all add: sys_publish_db sys_publish_state_frame)

lemma poll_db:
  assumes "wired wi se cy"
  shows "db_of (poll_safely cfg cy ctx p) =
    fold (apply_op (se_parse_time se) (se_marshal se)) (cycle_ops wi se cfg cy ctx (sy_etags (po_world p))) (db_of p)"
proof -
  obtain ok p1 where f: "fetch_phase cfg cy ctx (fetch_budget cfg) p = (Returns ok, p1)"
    using fetch_phase_returns [OF assms] by (metis prod.collapse)
  have "db_of (poll_safely cfg cy ctx p) = db_of (snd (publish_phase cfg cy ctx (publish_budget cfg) p1))"
    by (cases "publish_phase cfg cy ctx (publish_budget cfg) p1"; cases "fst (publish_phase cfg cy ctx (publish_budget cfg) p1)")
      (auto simp: poll_safely_snd poll_phases f heartbeat_frame)
  then show ?thesis using fetch_phase_db [OF assms, of cfg ctx p] by (simp add: f publish_phase_db [OF assms])
qed

lemma cycle_ops_ok:
  assumes "env_ok (se_batch se)" and "se_purge_now se \<le> horizon"
    and "\<And>env alerts. AlertBatch env alerts \<in> set (cycle_ops wi se cfg cy ctx etags) \<Longrightarrow> set alerts \<subseteq> fetched"
  shows "list_all (op_ok fetched horizon) (cycle_ops wi se cfg cy ctx etags)"
  using assms by (auto simp: cycle_ops_def Let_def split: option.splits)


section \<open>A retired warning stays off the map\<close>

lemma purge_at:
  "wf_events rs \<Longrightarrow> event_row_at (purge_expired now rs) i =
     (case event_row_at rs i of None \<Rightarrow> None | Some r \<Rightarrow> if er_expires_at r < now then None else Some r)"
proof (induction rs)
  case (Cons r rs)
  have "event_row_at (purge_expired now rs) i = None" if "er_nws_id r = i"
    using that Cons.prems by (auto simp: event_row_at_None purge_expired_def wf_events_def)
  with Cons show ?case by (auto simp: purge_expired_def wf_events_def)
qed (simp add: purge_expired_def)

text \<open>Every copy of message \<open>i\<close> that is fetched is unreadable or expires at \<open>ex\<close>.\<close>

definition fixed_expiry :: "(string \<Rightarrow> time option) \<Rightarrow> alert set \<Rightarrow> string \<Rightarrow> time \<Rightarrow> bool" where
  "fixed_expiry pt fetched i ex \<longleftrightarrow>
     (\<forall>a \<in> fetched. ID (Properties a) = i \<longrightarrow> pt (Expires (Properties a)) \<in> {None, Some ex})"

text \<open>
  Message \<open>i\<close> can never be active after \<open>horizon\<close>: its row is retired, or was purged after it
  expired and may be back, but then past its expiry.
\<close>

definition never_live :: "string \<Rightarrow> time \<Rightarrow> time \<Rightarrow> event_row list \<Rightarrow> bool" where
  "never_live i ex horizon rs \<longleftrightarrow> wf_events rs \<and>
     (case event_row_at rs i of
        None \<Rightarrow> ex \<le> horizon
      | Some r \<Rightarrow> er_expires_at r = ex \<and> (er_retired_at r \<noteq> None \<or> ex \<le> horizon))"

interpretation fleet_never_live: fleet_invariant pt ms fetched horizon
    "\<lambda>rs. fixed_expiry pt fetched i ex \<longrightarrow> never_live i ex horizon rs" for pt ms fetched horizon i ex
proof
  fix rs a t x now
  assume inv: "fixed_expiry pt fetched i ex \<longrightarrow> never_live i ex horizon rs"
    and a: "a \<in> fetched" "alert_upsert_args pt ms a t = Args x"
  show "fixed_expiry pt fetched i ex \<longrightarrow> never_live i ex horizon (upsert_event now x rs)"
  proof
    assume fixed: "fixed_expiry pt fetched i ex"
    have "arg_id x = i \<longrightarrow> arg_expires_at x = ex"
      using fixed a upsert_args_id [OF a(2)] upsert_args_expires [OF a(2)] by (auto simp: fixed_expiry_def)
    then show "never_live i ex horizon (upsert_event now x rs)"
      using inv fixed
      by (auto simp: never_live_def upsert_event_wf upsert_event_at inserted_row_def conflict_row_def
          split: option.splits)
  qed
next
  fix rs ids et now
  assume inv: "fixed_expiry pt fetched i ex \<longrightarrow> never_live i ex horizon rs"
  then show "fixed_expiry pt fetched i ex \<longrightarrow> never_live i ex horizon (retire_by_reference now ids et rs)"
    by (auto simp: never_live_def retire_wf retire_at split: option.splits)
next
  fix rs now
  assume "fixed_expiry pt fetched i ex \<longrightarrow> never_live i ex horizon rs" "now \<le> horizon"
  then show "fixed_expiry pt fetched i ex \<longrightarrow> never_live i ex horizon (purge_expired now rs)"
    by (auto simp: never_live_def purge_wf purge_at split: option.splits)
qed

lemma active_entries:
  assumes "get_active_alerts env rs = Inr as" and "scan_ok env" and "s \<in> set as"
  obtains r where "r \<in> set rs" "is_active (rd_now env) r" "s = active_alert_of env r"
proof -
  have "s \<in> active_alert_of env ` set (active_rows (rd_scan env) (rd_now env) rs)"
    using assms(3) collapse_subset unfolding get_active_alerts_Inr(2) [OF assms(1)] by fastforce
  moreover have "set (active_rows (rd_scan env) (rd_now env) rs) = {r \<in> set rs. is_active (rd_now env) r}"
    using assms(2) by (intro active_rows_set) (simp add: scan_ok_def)
  ultimately show thesis using that by auto
qed

lemma never_live_hidden:
  assumes "never_live i ex horizon rs" and "get_active_alerts env rs = Inr as" and "scan_ok env"
    and "horizon \<le> rd_now env"
  shows "\<forall>s \<in> set as. NWSID s \<noteq> i"
proof (rule ballI, rule notI)
  fix s assume "s \<in> set as" "NWSID s = i"
  then obtain r where r: "r \<in> set rs" "is_active (rd_now env) r" "er_nws_id r = i"
    using active_entries [OF assms(2,3)] by (metis active_alert_fields(1))
  then have "event_row_at rs i = Some r" using assms(1) by (simp add: event_row_at_in never_live_def)
  with assms(1,4) r(2) show False by (auto simp: never_live_def is_active_def)
qed

lemma retired_stays_hidden:
  assumes "wf_events rs" and "event_row_at rs i = Some r" and "er_retired_at r \<noteq> None"
    and "fleet_reach pt ms fetched horizon rs (weather_events (sy_db (po_world p)))"
    and "fixed_expiry pt fetched i (er_expires_at r)"
    and "horizon \<le> rd_now (se_read se)" and "scan_ok (se_read se)"
    and "wired (wi\<lparr>wi_r2 := True\<rparr>) se cy" and "po_health p \<noteq> None"
    and "publish_snapshot cfg cy ctx p = (Returns True, p')"
  shows "\<exists>alerts. live_object (po_world p') = se_encode se (new_snapshot (cy_generated_at cy) (Areas cfg) alerts) \<and>
    (\<forall>s \<in> set alerts. NWSID s \<noteq> i)"
proof -
  have "never_live i (er_expires_at r) horizon rs" using assms(1-3) by (simp add: never_live_def)
  with fleet_never_live.reach [OF assms(4)] assms(5)
  have never: "never_live i (er_expires_at r) horizon (weather_events (db_of p))" by blast
  obtain alerts where alerts: "get_active_alerts (se_read se) (weather_events (db_of p)) = Inr alerts"
    "live_object (po_world p') = se_encode se (new_snapshot (cy_generated_at cy) (Areas cfg) alerts)"
    using published_shows [OF assms(8-10)] by blast
  from never_live_hidden [OF never alerts(1) assms(7,6)] alerts(2) show ?thesis by blast
qed

text \<open>
  C5: a superseded warning never returns. Once the row of a message is retired, no snapshot that any
  node publishes later lists that message, however the statements of all nodes interleave in
  between, including upserts of copies that the upstream still serves, replays of whole batches,
  failures and fallbacks, and purges after which the row is inserted anew. It rests on two facts about
  the outside: a message keeps its expiry in every copy, and the database clock does not go back.
\<close>

theorem retired_never_returns:
  assumes "wf_events rs" and "event_row_at rs i = Some r" and "er_retired_at r \<noteq> None"
    and "fleet_reach pt ms fetched horizon rs (weather_events (sy_db (po_world p)))"
    and "fixed_expiry pt fetched i (er_expires_at r)"
    and "horizon \<le> rd_now (se_read se)" and "scan_ok (se_read se)"
    and "wired (wi\<lparr>wi_r2 := True\<rparr>) se cy" and "po_health p \<noteq> None"
    and "publish_snapshot cfg cy ctx p = (Returns True, p')"
  shows "\<exists>alerts. live_object (po_world p') = se_encode se (new_snapshot (cy_generated_at cy) (Areas cfg) alerts) \<and>
    (\<forall>s \<in> set alerts. NWSID s \<noteq> i)"
  using assms by (rule retired_stays_hidden)


section \<open>A warning nobody superseded stays on the map\<close>

text \<open>
  No fetched message replaces message \<open>i\<close> of type \<open>et\<close>, and its readable copies keep that type and
  expire after \<open>horizon\<close>.
\<close>

definition unchallenged :: "(string \<Rightarrow> time option) \<Rightarrow> alert set \<Rightarrow> string \<Rightarrow> string \<Rightarrow> time \<Rightarrow> bool" where
  "unchallenged pt fetched i et horizon \<longleftrightarrow>
     (\<forall>a \<in> fetched. \<not> refers a et i \<and>
        (ID (Properties a) = i \<longrightarrow> (\<forall>ex. pt (Expires (Properties a)) = Some ex \<longrightarrow>
           Event (Properties a) = et \<and> horizon < ex)))"

definition still_live :: "string \<Rightarrow> string \<Rightarrow> time \<Rightarrow> event_row list \<Rightarrow> bool" where
  "still_live i et horizon rs \<longleftrightarrow> wf_events rs \<and>
     (\<exists>r. event_row_at rs i = Some r \<and> er_event_type r = et \<and> er_retired_at r = None \<and> horizon < er_expires_at r)"

interpretation fleet_still_live: fleet_invariant pt ms fetched horizon
    "\<lambda>rs. unchallenged pt fetched i et horizon \<longrightarrow> still_live i et horizon rs" for pt ms fetched horizon i et
proof
  fix rs a t x now
  assume inv: "unchallenged pt fetched i et horizon \<longrightarrow> still_live i et horizon rs"
    and a: "a \<in> fetched" "alert_upsert_args pt ms a t = Args x"
  show "unchallenged pt fetched i et horizon \<longrightarrow> still_live i et horizon (upsert_event now x rs)"
  proof
    assume un: "unchallenged pt fetched i et horizon"
    have "arg_id x = i \<longrightarrow> arg_event x = et \<and> horizon < arg_expires_at x"
      using un a upsert_args_id [OF a(2)] upsert_args_expires [OF a(2)] upsert_args_fields [OF a(2)]
      by (auto simp: unchallenged_def)
    then show "still_live i et horizon (upsert_event now x rs)"
      using inv un by (auto simp: still_live_def upsert_event_wf upsert_event_at conflict_row_def)
  qed
next
  fix rs ids et' now
  assume inv: "unchallenged pt fetched i et horizon \<longrightarrow> still_live i et horizon rs"
    and ids: "\<And>j. j \<in> set ids \<Longrightarrow> \<exists>a \<in> fetched. refers a et' j"
  show "unchallenged pt fetched i et horizon \<longrightarrow> still_live i et horizon (retire_by_reference now ids et' rs)"
  proof
    assume un: "unchallenged pt fetched i et horizon"
    with inv obtain r where r: "wf_events rs" "event_row_at rs i = Some r" "er_event_type r = et"
      "er_retired_at r = None" "horizon < er_expires_at r" by (auto simp: still_live_def)
    have "\<not> retire_match ids et' r"
      using un ids [of i] r(3) event_row_at_Some [OF r(2)] by (auto simp: unchallenged_def retire_match_def)
    with r show "still_live i et horizon (retire_by_reference now ids et' rs)"
      by (simp add: still_live_def retire_wf retire_at)
  qed
next
  fix rs now
  assume "unchallenged pt fetched i et horizon \<longrightarrow> still_live i et horizon rs" "now \<le> horizon"
  then show "unchallenged pt fetched i et horizon \<longrightarrow> still_live i et horizon (purge_expired now rs)"
    by (auto simp: still_live_def purge_wf purge_at)
qed

lemma unchallenged_stays_shown:
  assumes "wf_events rs" and "event_row_at rs i = Some r" and "er_retired_at r = None"
    and "horizon < er_expires_at r"
    and "fleet_reach pt ms fetched horizon rs (weather_events (sy_db (po_world p)))"
    and "unchallenged pt fetched i (er_event_type r) horizon"
    and "rd_now (se_read se) \<le> horizon" and "scan_ok (se_read se)"
    and "text_columns_ok (weather_events (sy_db (po_world p)))"
    and "wired (wi\<lparr>wi_r2 := True\<rparr>) se cy" and "po_health p \<noteq> None"
    and "publish_snapshot cfg cy ctx p = (Returns True, p')"
  shows "\<exists>alerts r'. live_object (po_world p') = se_encode se (new_snapshot (cy_generated_at cy) (Areas cfg) alerts) \<and>
    event_row_at (weather_events (sy_db (po_world p))) i = Some r' \<and>
    (\<exists>s \<in> set alerts.
       (if eventID (active_alert_of (se_read se) r') = '''' then s = active_alert_of (se_read se) r'
        else same_warning (active_alert_of (se_read se) r') s) \<and>
       issuance_of (active_alert_of (se_read se) r') \<le> issuance_of s)"
proof -
  let ?rs = "weather_events (db_of p)"
  have "still_live i (er_event_type r) horizon rs" using assms(1-4) by (auto simp: still_live_def)
  with fleet_still_live.reach [OF assms(5)] assms(6) have "still_live i (er_event_type r) horizon ?rs" by blast
  then obtain r' where r': "event_row_at ?rs i = Some r'" "er_retired_at r' = None" "horizon < er_expires_at r'"
    by (auto simp: still_live_def)
  have live: "r' \<in> set ?rs" "is_active (rd_now (se_read se)) r'"
    using event_row_at_Some [OF r'(1)] r'(2,3) assms(7) by (auto simp: is_active_def)
  obtain alerts where alerts: "get_active_alerts (se_read se) ?rs = Inr alerts"
    "live_object (po_world p') = se_encode se (new_snapshot (cy_generated_at cy) (Areas cfg) alerts)"
    using published_shows [OF assms(10-12)] by blast
  from get_active_alerts_complete [OF alerts(1) assms(8,9)] live r'(1) alerts(2) show ?thesis by blast
qed


section \<open>A cycle refines the store's operations\<close>

text \<open>
  The database sees a cycle as a list of store operations. Whatever the network, the server and
  the destinations do, a wired cycle changes the database exactly by the batch of its payload, the
  batch of its reports and the purge, in this order, and not at all on a node that only publishes;
  both keys stay unique; and for the events this is a path of the statements of a fleet whose
  fetched alerts include the payload, so that what holds of every path holds of every sequence of
  cycles of all nodes.
\<close>

theorem cycle_refines_store_ops:
  assumes "wired wi se cy" and "env_ok (se_batch se)" and "se_purge_now se \<le> horizon"
    and "\<forall>env alerts. AlertBatch env alerts \<in> set (cycle_ops wi se cfg cy ctx (sy_etags (po_world p))) \<longrightarrow>
      set alerts \<subseteq> fetched"
    and "wf_db (sy_db (po_world p))"
  shows "sy_db (po_world (poll_safely cfg cy ctx p)) =
      fold (apply_op (se_parse_time se) (se_marshal se)) (cycle_ops wi se cfg cy ctx (sy_etags (po_world p)))
        (sy_db (po_world p)) \<and>
    wf_db (sy_db (po_world (poll_safely cfg cy ctx p))) \<and>
    fleet_reach (se_parse_time se) (se_marshal se) fetched horizon (weather_events (sy_db (po_world p)))
      (weather_events (sy_db (po_world (poll_safely cfg cy ctx p))))"
proof -
  have "list_all (op_ok fetched horizon) (cycle_ops wi se cfg cy ctx (sy_etags (po_world p)))"
    using assms(2-4) by (intro cycle_ops_ok) auto
  then show ?thesis using db_wf.ops [OF _ assms(5)] ops_reach by (auto simp: poll_db [OF assms(1)])
qed


section \<open>A fleet at work\<close>

text \<open>
  The sample's superseding warning is itself retired; a node still gets it from the upstream and
  stores it again, and another purges.
\<close>

definition sample_fleet_ops :: "store_op list" where
  "sample_fleet_ops = [AlertBatch sample_batch_env [sample_superseding], PurgeRows None 90]"

definition sample_fleet_poller :: "event_row list \<Rightarrow> system poller" where
  "sample_fleet_poller rs = poller_new new_registry (sample_system\<lparr>sy_db :=
     fold (apply_op sample_parse_time (\<lambda>_. Some ''{}'')) sample_fleet_ops \<lparr>weather_events = rs, storm_reports = []\<rparr>\<rparr>)"

definition sample_retired_table :: "event_row list" where
  "sample_retired_table =
     [(sample_event_row ''n3'' ''Tornado Warning'' 200)\<lparr>er_retired_at := Some 30\<rparr>,
      sample_event_row ''n2'' ''Flood Watch'' 150]"

lemma sample_fleet_reach:
  "90 \<le> horizon \<Longrightarrow> fleet_reach sample_parse_time (\<lambda>_. Some ''{}'') {sample_superseding} horizon rs
     (weather_events (sy_db (po_world (sample_fleet_poller rs))))"
  using ops_reach [of "{sample_superseding}" horizon sample_fleet_ops sample_parse_time "\<lambda>_. Some ''{}''"
      "\<lparr>weather_events = rs, storm_reports = []\<rparr>"]
  by (simp add: sample_fleet_poller_def sample_fleet_ops_def poller_new_def sample_env_ok)

lemma sample_fleet_facts:
  "wired (sample_wiring\<lparr>wi_r2 := True\<rparr>) sample_sys_env sample_sys_cycle"
  "po_health (sample_fleet_poller rs) \<noteq> None" "scan_ok (se_read sample_sys_env)" "rd_now (se_read sample_sys_env) = 100"
  "se_encode sample_sys_env sn = Some ''{}''"
  using sample_wired
  by (simp_all add: sample_wiring_def sample_fleet_poller_def poller_new_def new_registry_def sample_sys_env_def
      scan_ok_def sample_read_env_def)

theorem retired_never_returns_witness:
  "\<exists>p' (alerts :: active_alert list).
     publish_snapshot (sample_config ModeBoth) sample_sys_cycle None (sample_fleet_poller sample_retired_table) = (Returns True, p') \<and>
     live_object (po_world p') = Some ''{}'' \<and> (\<forall>s \<in> set alerts. NWSID s \<noteq> ''n3'')"
proof -
  let ?p = "sample_fleet_poller sample_retired_table" and ?cfg = "sample_config ModeBoth"
  let ?r = "(sample_event_row ''n3'' ''Tornado Warning'' 200)\<lparr>er_retired_at := Some 30\<rparr>"
  have "fst (publish_snapshot ?cfg sample_sys_cycle None ?p) = Returns True" by code_simp
  then obtain p' where p': "publish_snapshot ?cfg sample_sys_cycle None ?p = (Returns True, p')" by (metis prod.collapse)
  have t: "wf_events sample_retired_table" "event_row_at sample_retired_table ''n3'' = Some ?r" "er_retired_at ?r \<noteq> None"
    by (simp_all add: wf_events_def sample_retired_table_def sample_event_row_def)
  have "fixed_expiry sample_parse_time {sample_superseding} ''n3'' (er_expires_at ?r)"
    by (simp add: fixed_expiry_def sample_superseding_def blank_properties_def sample_parse_time_def sample_event_row_def)
  from retired_never_returns [OF t sample_fleet_reach [of 95] this _ sample_fleet_facts(3,1,2) p']
  obtain alerts :: "active_alert list" where "live_object (po_world p') = Some ''{}''" "\<forall>s \<in> set alerts. NWSID s \<noteq> ''n3''"
    by (auto simp: sample_fleet_facts(4,5))
  with p' show ?thesis by blast
qed


theorem cycle_refines_store_ops_witness:
  "wf_db (sy_db (po_world (poll_safely (sample_config ModeBoth) sample_live_cycle None (poller_new new_registry sample_system))))"
proof -
  let ?p = "poller_new new_registry sample_system"
  have "wf_db (sy_db (po_world ?p))"
    by (simp add: wf_db_def wf_events_def poller_new_def sample_system_def sample_table_def sample_event_row_def)
  moreover have "se_purge_now sample_live_env \<le> 90" by (simp add: sample_live_env_def sample_sys_env_def)
  ultimately show ?thesis
    using cycle_refines_store_ops [OF sample_live_wired sample_live_facts(4), where horizon = 90
        and cfg = "sample_config ModeBoth" and p = ?p and fetched = UNIV and ctx = None]
    by blast
qed


section \<open>The order of the batches matters\<close>

text \<open>
  Retirement touches the rows that are there. A predecessor that another node stores after the batch
  of the message that replaced it stays live, until some batch brings that message again; in the other
  order it is retired.
\<close>

definition sample_predecessor :: alert where
  "sample_predecessor =
     \<lparr>alert_ID = ''n1'', alert_Type = ''Feature'',
      Properties = blank_properties\<lparr>ID := ''n1'', Event := ''Tornado Warning'', Expires := ''200''\<rparr>,
      Geometry = ''null''\<rparr>"

definition sample_order :: "alert list \<Rightarrow> event_row list" where
  "sample_order alerts = weather_events (fold (\<lambda>a. apply_op sample_parse_time (\<lambda>_. Some ''{}'')
     (AlertBatch sample_batch_env [a])) alerts \<lparr>weather_events = [], storm_reports = []\<rparr>)"

lemma late_predecessor_stays_live:
  "map_option er_retired_at (event_row_at (sample_order [sample_superseding, sample_predecessor]) ''n1'') = Some None"
  "map_option er_retired_at (event_row_at (sample_order [sample_predecessor, sample_superseding]) ''n1'') = Some (Some 21)"
  by code_simp+

end
