(* ===== verification/Fleet_Run.thy ===== *)
theory Fleet_Run
  imports Fleet
begin

text \<open>
  A fleet runs: several nodes, each with its own configuration, wiring, ETag cache, health registry
  and destinations, take turns at whole cycles on one shared database. The database is all they
  share, and what a node asks of it depends on the node alone.
\<close>

section \<open>The ETag cache after a cycle\<close>

definition alerts_ctx :: "config \<Rightarrow> ('e, 'w) cycle \<Rightarrow> time option \<Rightarrow> time option" where
  "alerts_ctx cfg cy ctx =
     fetch_ctx cy FeedAlerts AlertsFetchBudgetPercent (with_timeout ctx (cy_fetch_start cy) (fetch_budget cfg))"

definition cycle_etags ::
  "wiring \<Rightarrow> sys_env \<Rightarrow> config \<Rightarrow> ('e, 'w) cycle \<Rightarrow> time option \<Rightarrow> etag_cache \<Rightarrow> etag_cache" where
  "cycle_etags wi se cfg cy ctx etags =
     (if should_ingest (cfg_Mode cfg)
      then snd (fst (fetch_active_alerts (wi_nws wi) (alerts_ctx cfg cy ctx) (se_decode se) (se_alerts se)
                       (join '','' (Areas cfg)) etags))
      else etags)"

lemma poll_alerts_etags:
  assumes "wired wi se cy"
  shows "etags_of (snd (poll_alerts cfg cy ctx p)) =
    snd (fst (fetch_active_alerts (wi_nws wi) (fetch_ctx cy FeedAlerts AlertsFetchBudgetPercent ctx)
      (se_decode se) (se_alerts se) (join '','' (Areas cfg)) (etags_of p)))"
proof -
  let ?area = "join '','' (Areas cfg)" and ?ctx = "fetch_ctx cy FeedAlerts AlertsFetchBudgetPercent ctx"
  obtain resp err etags log where f: "fetch_active_alerts (wi_nws wi) ?ctx (se_decode se) (se_alerts se) ?area (etags_of p) =
      (((resp, err), etags), log)" by (metis surj_pair)
  have sys: "sys_fetch_alerts wi se ?ctx ?area (po_world p) = (Returns (resp, err), (po_world p)\<lparr>sy_etags := etags\<rparr>)"
    by (simp add: sys_fetch_alerts_def f)
  show ?thesis
    using assms
    by (auto simp: f poll_alerts_def wired_def on_world_simp sys classify_alert_fetch_err_def Let_def
        record_ok_frame sys_upsert_alerts_def split_beta split: option.splits)
qed

lemma poll_etags:
  assumes "wired wi se cy"
  shows "etags_of (poll_safely cfg cy ctx p) = cycle_etags wi se cfg cy ctx (etags_of p)"
proof -
  have fetch: "etags_of (snd (fetch_phase cfg cy ctx (fetch_budget cfg) p)) = cycle_etags wi se cfg cy ctx (etags_of p)"
  proof (cases "should_ingest (cfg_Mode cfg)")
    case True
    then show ?thesis
      by (simp add: fetch_phase_etags [OF assms] poll_alerts_etags [OF assms] cycle_etags_def alerts_ctx_def)
  qed (simp add: fetch_phase_def cycle_etags_def)
  have "etags_of (poll_safely cfg cy ctx p) = etags_of (snd (fetch_phase cfg cy ctx (fetch_budget cfg) p))"
    unfolding poll_safely_snd poll_phases
    by (intro and_then_frame [where g = etags_of]) (auto simp: publish_phase_etags [OF assms] heartbeat_frame
        intro!: and_then_frame [where g = etags_of])
  with fetch show ?thesis by simp
qed

section \<open>The fleet\<close>

record node =
  nd_config :: config
  nd_wiring :: wiring
  nd_poller :: "system poller"

record fleet =
  fl_db :: db
  fl_node :: "string \<Rightarrow> node"           \<comment> \<open>by machine id\<close>

record turn =
  tu_node :: string
  tu_env :: sys_env
  tu_cycle :: "(file_env \<times> put_outcome, system) cycle"
  tu_ctx :: "time option"

text \<open>A node works on the shared database; the copy in its own state is the one it left behind.\<close>

definition node_poller :: "fleet \<Rightarrow> string \<Rightarrow> system poller" where
  "node_poller fl k =
     (let p = nd_poller (fl_node fl k) in p\<lparr>po_world := (po_world p)\<lparr>sy_db := fl_db fl\<rparr>\<rparr>)"

definition fleet_turn :: "turn \<Rightarrow> fleet \<Rightarrow> fleet" where
  "fleet_turn t fl =
     (let k = tu_node t; n = fl_node fl k;
          p = poll_safely (nd_config n) (tu_cycle t) (tu_ctx t) (node_poller fl k)
      in fl\<lparr>fl_db := db_of p, fl_node := (fl_node fl)(k := n\<lparr>nd_poller := p\<rparr>)\<rparr>)"

definition fleet_run :: "turn list \<Rightarrow> fleet \<Rightarrow> fleet" where
  "fleet_run ts fl = fold fleet_turn ts fl"

text \<open>What a node asks of the database in its turn, and the requests of a run with their nodes.\<close>

definition turn_ops :: "turn \<Rightarrow> node \<Rightarrow> store_op list" where
  "turn_ops t n = cycle_ops (nd_wiring n) (tu_env t) (nd_config n) (tu_cycle t) (tu_ctx t) (etags_of (nd_poller n))"

fun fleet_ops :: "turn list \<Rightarrow> fleet \<Rightarrow> (string \<times> store_op) list" where
  "fleet_ops [] fl = []"
| "fleet_ops (t # ts) fl =
     map (Pair (tu_node t)) (turn_ops t (fl_node fl (tu_node t))) @ fleet_ops ts (fleet_turn t fl)"

text \<open>
  The turns are of wired cycles of their nodes; the nodes run one program, so they read times and
  print properties alike; and no clock of a purge is past \<open>horizon\<close>.
\<close>

definition turn_ok ::
  "(string \<Rightarrow> time option) \<Rightarrow> (alert_properties \<Rightarrow> string option) \<Rightarrow> time \<Rightarrow> fleet \<Rightarrow> turn \<Rightarrow> bool" where
  "turn_ok pt ms horizon fl t \<longleftrightarrow>
     wired (nd_wiring (fl_node fl (tu_node t))) (tu_env t) (tu_cycle t) \<and>
     se_parse_time (tu_env t) = pt \<and> se_marshal (tu_env t) = ms \<and>
     env_ok (se_batch (tu_env t)) \<and> se_purge_now (tu_env t) \<le> horizon"

text \<open>The alerts that the fleet fetched, of the batches it sent.\<close>

definition fetched_alerts :: "store_op list \<Rightarrow> alert set" where
  "fetched_alerts ops = {a. \<exists>env alerts. AlertBatch env alerts \<in> set ops \<and> a \<in> set alerts}"

lemma fetched_alerts_member: "AlertBatch env alerts \<in> set ops \<Longrightarrow> set alerts \<subseteq> fetched_alerts ops"
  by (auto simp: fetched_alerts_def)

lemma fleet_turn_node:
  "fl_node (fleet_turn t fl) k =
     (if k = tu_node t
      then (fl_node fl k)\<lparr>nd_poller := poll_safely (nd_config (fl_node fl k)) (tu_cycle t) (tu_ctx t) (node_poller fl k)\<rparr>
      else fl_node fl k)"
  by (simp add: fleet_turn_def Let_def)

lemma node_poller_parts [simp]:
  "db_of (node_poller fl k) = fl_db fl" "etags_of (node_poller fl k) = etags_of (nd_poller (fl_node fl k))"
  by (simp_all add: node_poller_def Let_def)

lemma fleet_turn_fixed [simp]:
  "nd_wiring (fl_node (fleet_turn t fl) k) = nd_wiring (fl_node fl k)"
  "nd_config (fl_node (fleet_turn t fl) k) = nd_config (fl_node fl k)"
  by (simp_all add: fleet_turn_node)

lemma turn_ok_later [simp]: "turn_ok pt ms horizon (fleet_turn t fl) = turn_ok pt ms horizon fl"
  by (simp add: fun_eq_iff turn_ok_def)

lemma fleet_turn_etags:
  assumes "turn_ok pt ms horizon fl t"
  shows "etags_of (nd_poller (fl_node (fleet_turn t fl) k)) =
    (if k = tu_node t
     then cycle_etags (nd_wiring (fl_node fl k)) (tu_env t) (nd_config (fl_node fl k)) (tu_cycle t) (tu_ctx t)
            (etags_of (nd_poller (fl_node fl k)))
     else etags_of (nd_poller (fl_node fl k)))"
  using assms by (auto simp: fleet_turn_node turn_ok_def poll_etags)

section \<open>A run is the operations of its nodes\<close>

lemma fleet_turn_db:
  "turn_ok pt ms horizon fl t \<Longrightarrow>
     fl_db (fleet_turn t fl) = fold (apply_op pt ms) (turn_ops t (fl_node fl (tu_node t))) (fl_db fl)"
  using poll_db [of "nd_wiring (fl_node fl (tu_node t))" "tu_env t" "tu_cycle t" _ _ "node_poller fl (tu_node t)"]
  by (auto simp: fleet_turn_def Let_def turn_ops_def turn_ok_def)

lemma fleet_run_db:
  "\<forall>t \<in> set ts. turn_ok pt ms horizon fl t \<Longrightarrow>
     fl_db (fleet_run ts fl) = fold (apply_op pt ms) (map snd (fleet_ops ts fl)) (fl_db fl)"
proof (induction ts arbitrary: fl)
  case (Cons t ts)
  then have "fl_db (fleet_run ts (fleet_turn t fl)) =
      fold (apply_op pt ms) (map snd (fleet_ops ts (fleet_turn t fl))) (fl_db (fleet_turn t fl))" by simp
  with Cons.prems fleet_turn_db [of pt ms horizon fl t] show ?case by (simp add: fleet_run_def comp_def)
qed (simp add: fleet_run_def)

lemma turn_ops_ok:
  assumes "turn_ok pt ms horizon fl t" and "fetched_alerts (turn_ops t (fl_node fl (tu_node t))) \<subseteq> fetched"
  shows "list_all (op_ok fetched horizon) (turn_ops t (fl_node fl (tu_node t)))"
  unfolding turn_ops_def
proof (rule cycle_ops_ok)
  show "set alerts \<subseteq> fetched"
    if "AlertBatch env alerts \<in> set (cycle_ops (nd_wiring (fl_node fl (tu_node t))) (tu_env t)
      (nd_config (fl_node fl (tu_node t))) (tu_cycle t) (tu_ctx t) (etags_of (nd_poller (fl_node fl (tu_node t)))))"
    for env alerts
    using fetched_alerts_member [OF that] assms(2) unfolding turn_ops_def by blast
qed (use assms(1) in \<open>simp_all add: turn_ok_def\<close>)

lemma fetched_alerts_append: "fetched_alerts (xs @ ys) = fetched_alerts xs \<union> fetched_alerts ys"
  by (auto simp: fetched_alerts_def)

lemma fleet_ops_ok:
  "\<forall>t \<in> set ts. turn_ok pt ms horizon fl t \<Longrightarrow> fetched_alerts (map snd (fleet_ops ts fl)) \<subseteq> fetched \<Longrightarrow>
     list_all (op_ok fetched horizon) (map snd (fleet_ops ts fl))"
proof (induction ts arbitrary: fl)
  case (Cons t ts)
  then have "fetched_alerts (turn_ops t (fl_node fl (tu_node t))) \<subseteq> fetched"
    "fetched_alerts (map snd (fleet_ops ts (fleet_turn t fl))) \<subseteq> fetched"
    by (simp_all add: fetched_alerts_append comp_def)
  with Cons.IH [of "fleet_turn t fl"] Cons.prems(1) turn_ops_ok [of pt ms horizon fl t fetched] show ?case
    by (simp add: comp_def)
qed simp

text \<open>What every store operation keeps, every run of every fleet keeps.\<close>

context db_invariant
begin

lemma run:
  assumes "\<forall>t \<in> set ts. turn_ok pt ms horizon fl t" and "fetched_alerts (map snd (fleet_ops ts fl)) \<subseteq> fetched"
    and "keeps (fl_db fl)"
  shows "keeps (fl_db (fleet_run ts fl))"
  unfolding fleet_run_db [OF assms(1)] by (rule ops [OF fleet_ops_ok [OF assms(1,2)] assms(3)])

end

text \<open>Two fleets that agree on a node's settings and ETag cache.\<close>

definition same_node :: "string \<Rightarrow> fleet \<Rightarrow> fleet \<Rightarrow> bool" where
  "same_node k fl fl' \<longleftrightarrow> nd_config (fl_node fl k) = nd_config (fl_node fl' k) \<and>
     nd_wiring (fl_node fl k) = nd_wiring (fl_node fl' k) \<and>
     etags_of (nd_poller (fl_node fl k)) = etags_of (nd_poller (fl_node fl' k))"

lemma same_node_turns:
  assumes "same_node k fl fl'" and "turn_ok pt ms horizon fl t" and "tu_node t = k"
  shows "turn_ok pt ms horizon fl' t" "turn_ops t (fl_node fl k) = turn_ops t (fl_node fl' k)"
    "same_node k (fleet_turn t fl) (fleet_turn t fl')"
proof -
  show ok: "turn_ok pt ms horizon fl' t" using assms by (simp add: turn_ok_def same_node_def)
  show "turn_ops t (fl_node fl k) = turn_ops t (fl_node fl' k)" using assms(1) by (simp add: turn_ops_def same_node_def)
  show "same_node k (fleet_turn t fl) (fleet_turn t fl')"
    using assms(1,3) by (auto simp: same_node_def fleet_turn_etags [OF assms(2)] fleet_turn_etags [OF ok])
qed

lemma same_node_others:
  "same_node k fl fl' \<Longrightarrow> turn_ok pt ms horizon fl t \<Longrightarrow> tu_node t \<noteq> k \<Longrightarrow> same_node k (fleet_turn t fl) fl'"
  by (auto simp: same_node_def fleet_turn_etags)

lemma fleet_ops_of_node:
  "\<forall>t \<in> set ts. turn_ok pt ms horizon fl t \<Longrightarrow> same_node k fl fl' \<Longrightarrow>
     filter (\<lambda>e. fst e = k) (fleet_ops ts fl) = fleet_ops (filter (\<lambda>t. tu_node t = k) ts) fl'"
proof (induction ts arbitrary: fl fl')
  case (Cons t ts)
  then have t: "turn_ok pt ms horizon fl t" and ts: "\<forall>t \<in> set ts. turn_ok pt ms horizon (fleet_turn t' fl) t" for t'
    by simp_all
  show ?case
  proof (cases "tu_node t = k")
    case True
    note same = same_node_turns [OF Cons.prems(2) t True]
    from Cons.IH [OF ts same(3)] True same(2) show ?thesis by (simp add: filter_map comp_def)
  next
    case False
    from Cons.IH [OF ts same_node_others [OF Cons.prems(2) t False]] False show ?thesis by (simp add: filter_map comp_def)
  qed
qed simp

text \<open>
  C11: the nodes of a fleet share the database and nothing else. Take any run of whole cycles of any
  nodes. The database ends as the fold of the store operations that the nodes asked for, in the order
  of their turns; what each node asked for is what it would have asked for running alone on any other
  database, so no node sees another in what it fetches and stores; both keys stay unique; and for the
  events the run is a path of the statements of a fleet, so that what holds of every path of
  statements holds of the run.
\<close>

theorem nodes_share_only_the_database:
  assumes "\<forall>t \<in> set ts. turn_ok pt ms horizon fl t" and "wf_db (fl_db fl)"
  shows "fl_db (fleet_run ts fl) = fold (apply_op pt ms) (map snd (fleet_ops ts fl)) (fl_db fl) \<and>
    (\<forall>k d. filter (\<lambda>e. fst e = k) (fleet_ops ts fl) =
       fleet_ops (filter (\<lambda>t. tu_node t = k) ts) (fl\<lparr>fl_db := d\<rparr>)) \<and>
    wf_db (fl_db (fleet_run ts fl)) \<and>
    fleet_reach pt ms (fetched_alerts (map snd (fleet_ops ts fl))) horizon (weather_events (fl_db fl))
      (weather_events (fl_db (fleet_run ts fl)))"
proof -
  note db = fleet_run_db [OF assms(1)]
  have ok: "list_all (op_ok (fetched_alerts (map snd (fleet_ops ts fl))) horizon) (map snd (fleet_ops ts fl))"
    by (rule fleet_ops_ok [OF assms(1) order_refl])
  have "same_node k fl (fl\<lparr>fl_db := d\<rparr>)" for k d by (simp add: same_node_def)
  with fleet_ops_of_node [OF assms(1)] db_wf.run [OF assms(1) order_refl assms(2)]
    ops_reach [OF ok, of pt ms "fl_db fl"] db show ?thesis by simp
qed

section \<open>Superseded for the whole fleet\<close>

text \<open>What follows a node's first operation in a run that starts with its turn.\<close>

lemma run_after_first_op:
  assumes "\<forall>s \<in> set (t # ts). turn_ok pt ms horizon fl s"
    and "turn_ops t (fl_node fl (tu_node t)) = op # rest"
  shows "fleet_reach pt ms (fetched_alerts (map snd (fleet_ops (t # ts) fl))) horizon
    (weather_events (apply_op pt ms op (fl_db fl))) (weather_events (fl_db (fleet_run (t # ts) fl)))"
proof -
  let ?later = "rest @ map snd (fleet_ops ts (fleet_turn t fl))"
  have ops: "map snd (fleet_ops (t # ts) fl) = op # ?later" by (simp add: assms(2) comp_def)
  have "list_all (op_ok (fetched_alerts (op # ?later)) horizon) (op # ?later)"
    using fleet_ops_ok [OF assms(1) order_refl] unfolding ops .
  then have "list_all (op_ok (fetched_alerts (op # ?later)) horizon) ?later" by simp
  moreover have "fl_db (fleet_run (t # ts) fl) = fold (apply_op pt ms) ?later (apply_op pt ms op (fl_db fl))"
    using fleet_run_db [OF assms(1)] unfolding ops by simp
  ultimately show ?thesis using ops_reach [of _ horizon ?later] unfolding ops by simp
qed


section \<open>Current for the whole fleet\<close>

text \<open>
  C3: what one node fetches, every node publishes. A node that need not publish itself stores a
  payload cleanly in its turn, and alert \<open>a\<close> of it is current there. After the rest of that cycle and
  any further cycles of any nodes, every snapshot that a publishing node puts before \<open>a\<close> expires
  holds the row of that message, or a later message of the same VTEC event, unless the fleet fetched
  something that references it or moved its type or expiry.
\<close>

theorem fetched_by_one_published_by_all:
  assumes "\<forall>s \<in> set (t # ts). turn_ok pt ms horizon fl s" and "wf_db (fl_db fl)"
    and "turn_ops t (fl_node fl (tu_node t)) = AlertBatch env alerts # rest" and "env_ok env"
    and "upsert_alerts_batch pt ms env alerts (weather_events (fl_db fl)) = (res, rs)"
    and "\<not> br_degraded res" and "br_err res = None"
    and "current_alert pt alerts (weather_events (fl_db fl)) a ex" and "horizon < ex"
    and "unchallenged pt (fetched_alerts (map snd (fleet_ops (t # ts) fl))) (ID (Properties a)) (Event (Properties a)) horizon"
    and "rd_now (se_read se) \<le> horizon" and "scan_ok (se_read se)"
    and "text_columns_ok (weather_events (fl_db (fleet_run (t # ts) fl)))"
    and "wired ((nd_wiring (fl_node fl k))\<lparr>wi_r2 := True\<rparr>) se cy"
    and "po_health (node_poller (fleet_run (t # ts) fl) k) \<noteq> None"
    and "publish_snapshot cfg cy ctx (node_poller (fleet_run (t # ts) fl) k) = (Returns True, p')"
  shows "\<exists>entries r. live_object (po_world p') = se_encode se (new_snapshot (cy_generated_at cy) (Areas cfg) entries) \<and>
    event_row_at (weather_events (fl_db (fleet_run (t # ts) fl))) (ID (Properties a)) = Some r \<and>
    (\<exists>s \<in> set entries.
       (if eventID (active_alert_of (se_read se) r) = '''' then s = active_alert_of (se_read se) r
        else same_warning (active_alert_of (se_read se) r) s) \<and>
       issuance_of (active_alert_of (se_read se) r) \<le> issuance_of s)"
proof -
  let ?p = "node_poller (fleet_run (t # ts) fl) k"
  have wf: "wf_events rs"
    by (rule reach_wf [OF batch_reaches [OF assms(5,4)]]) (use assms(2) in \<open>simp add: wf_db_def\<close>)
  obtain r where r: "r \<in> set rs" "er_nws_id r = ID (Properties a)" "er_event_type r = Event (Properties a)"
    "er_expires_at r = ex" "er_retired_at r = None"
    using clean_batch_row [OF assms(5,4,6,7,8)] by blast
  have row: "event_row_at rs (ID (Properties a)) = Some r" using r(1,2) by (simp add: event_row_at_in [OF wf])
  have reach: "fleet_reach pt ms (fetched_alerts (map snd (fleet_ops (t # ts) fl))) horizon rs (weather_events (db_of ?p))"
    using run_after_first_op [OF assms(1,3)] by (simp add: assms(5))
  have live: "horizon < er_expires_at r" using r(4) assms(9) by simp
  have un: "unchallenged pt (fetched_alerts (map snd (fleet_ops (t # ts) fl))) (ID (Properties a)) (er_event_type r) horizon"
    using assms(10) r(3) by simp
  have columns: "text_columns_ok (weather_events (db_of ?p))" using assms(13) by simp
  from unchallenged_stays_shown [OF wf row r(5) live reach un assms(11,12) columns assms(14-16)]
  show ?thesis by simp
qed

section \<open>A fleet of two\<close>

text \<open>A publisher and a regional ingester; the ingester stores the superseding warning.\<close>

definition sample_node :: "mode \<Rightarrow> node" where
  "sample_node m =
     \<lparr>nd_config = sample_config m, nd_wiring = sample_wiring, nd_poller = poller_new new_registry sample_system\<rparr>"

definition sample_fleet :: fleet where
  "sample_fleet =
     \<lparr>fl_db = sy_db sample_system,
      fl_node = (\<lambda>k. sample_node (if k = ''ord'' then ModePublish else ModeIngest))\<rparr>"

definition sample_turn :: "string \<Rightarrow> turn" where
  "sample_turn k = \<lparr>tu_node = k, tu_env = sample_live_env, tu_cycle = sample_live_cycle, tu_ctx = None\<rparr>"

lemma sample_turn_ok:
  "90 \<le> horizon \<Longrightarrow> turn_ok sample_parse_time (\<lambda>_. Some ''{}'') horizon sample_fleet (sample_turn k)"
  using sample_live_wired sample_live_facts(4)
  by (simp add: turn_ok_def sample_turn_def sample_fleet_def sample_node_def sample_wiring_def sample_live_env_def
      sample_sys_env_def)

lemma sample_fleet_wf: "wf_db (fl_db sample_fleet)"
  by (simp add: wf_db_def wf_events_def sample_fleet_def sample_system_def sample_table_def sample_event_row_def)

lemma sample_payload: "Fleet.payload wi sample_live_env ctx areas etags = Some [sample_superseding]"
  using sample_live_fetch [of wi ctx "join '','' areas" "sample_system\<lparr>sy_etags := etags\<rparr>"]
  by (simp add: payload_def sys_fetch_alerts_def split_beta sample_response_def)

lemma sample_turn_ops:
  "\<exists>reports. turn_ops (sample_turn k) (fl_node sample_fleet k) =
     (if k = ''ord'' then [] else [AlertBatch sample_batch_env [sample_superseding],
        ReportBatch sample_report_env reports, PurgeRows None 90])"
  by (auto simp: turn_ops_def cycle_ops_def Let_def sample_fleet_def sample_node_def sample_turn_def sample_payload)
    (simp_all add: sample_live_env_def sample_sys_env_def)

lemma sample_fetched:
  "\<forall>t \<in> set ts. tu_env t = sample_live_env \<Longrightarrow> fetched_alerts (map snd (fleet_ops ts fl)) \<subseteq> {sample_superseding}"
proof (induction ts arbitrary: fl)
  case (Cons t ts)
  then have "fetched_alerts (turn_ops t n) \<subseteq> {sample_superseding}" for n
    by (auto simp: turn_ops_def cycle_ops_def Let_def sample_payload fetched_alerts_def)
  with Cons show ?case by (simp add: fetched_alerts_append comp_def)
qed (simp add: fetched_alerts_def)

theorem nodes_share_only_the_database_witness:
  "let fl = fleet_run [sample_turn ''iad'', sample_turn ''ord''] sample_fleet
   in wf_db (fl_db fl) \<and> filter (\<lambda>e. fst e = ''ord'') (fleet_ops [sample_turn ''iad'', sample_turn ''ord''] sample_fleet) = []"
proof -
  let ?ts = "[sample_turn ''iad'', sample_turn ''ord'']"
  have "\<forall>t \<in> set ?ts. turn_ok sample_parse_time (\<lambda>_. Some ''{}'') 90 sample_fleet t" using sample_turn_ok by simp
  note nodes_share_only_the_database [OF this sample_fleet_wf]
  then have "wf_db (fl_db (fleet_run ?ts sample_fleet))"
    "filter (\<lambda>e. fst e = ''ord'') (fleet_ops ?ts sample_fleet) =
       fleet_ops (filter (\<lambda>t. tu_node t = ''ord'') ?ts) (sample_fleet\<lparr>fl_db := fl_db sample_fleet\<rparr>)"
    by blast+
  then show ?thesis using sample_turn_ops [of "''ord''"] by (auto simp: sample_turn_def Let_def)
qed

text \<open>The ingester's batch in its turn, on the table the fleet starts with.\<close>

lemma sample_fleet_batch:
  obtains reports res rs where
    "turn_ops (sample_turn ''iad'') (fl_node sample_fleet (tu_node (sample_turn ''iad''))) =
       AlertBatch sample_batch_env [sample_superseding] # [ReportBatch sample_report_env reports, PurgeRows None 90]"
    "upsert_alerts_batch sample_parse_time (\<lambda>_. Some ''{}'') sample_batch_env [sample_superseding]
       (weather_events (fl_db sample_fleet)) = (res, rs)"
    "\<not> br_degraded res" "br_err res = None" "map_option er_event_type (event_row_at rs ''n1'') = Some ''Tornado Warning''"
proof -
  obtain reports where ops: "turn_ops (sample_turn ''iad'') (fl_node sample_fleet (tu_node (sample_turn ''iad''))) =
      AlertBatch sample_batch_env [sample_superseding] # [ReportBatch sample_report_env reports, PurgeRows None 90]"
    using sample_turn_ops [of "''iad''"] by (auto simp: sample_turn_def)
  obtain res rs where b: "upsert_alerts_batch sample_parse_time (\<lambda>_. Some ''{}'') sample_batch_env [sample_superseding]
      (weather_events (fl_db sample_fleet)) = (res, rs)" by fastforce
  have "case upsert_alerts_batch sample_parse_time (\<lambda>_. Some ''{}'') sample_batch_env [sample_superseding]
      (weather_events (fl_db sample_fleet)) of (res, rs) \<Rightarrow> \<not> br_degraded res \<and> Option.is_none (br_err res) \<and>
      map_option er_event_type (event_row_at rs ''n1'') = Some ''Tornado Warning''" by code_simp
  with b have "\<not> br_degraded res" "br_err res = None" "map_option er_event_type (event_row_at rs ''n1'') = Some ''Tornado Warning''"
    by (simp_all add: Option.is_none_def)
  with ops b show thesis by (rule that)
qed

lemma sample_fleet_publishes:
  obtains p' where
    "publish_snapshot (sample_config ModePublish) sample_sys_cycle None
       (node_poller (fleet_run [sample_turn ''iad'', sample_turn ''sea''] sample_fleet) ''ord'') = (Returns True, p')"
    "po_health (node_poller (fleet_run [sample_turn ''iad'', sample_turn ''sea''] sample_fleet) ''ord'') \<noteq> None"
    "wired ((nd_wiring (fl_node sample_fleet ''ord''))\<lparr>wi_r2 := True\<rparr>) sample_sys_env sample_sys_cycle"
proof -
  let ?p = "node_poller (fleet_run [sample_turn ''iad'', sample_turn ''sea''] sample_fleet) ''ord''"
  have "fst (publish_snapshot (sample_config ModePublish) sample_sys_cycle None ?p) = Returns True \<and> po_health ?p \<noteq> None"
    by code_simp
  moreover have "wired ((nd_wiring (fl_node sample_fleet ''ord''))\<lparr>wi_r2 := True\<rparr>) sample_sys_env sample_sys_cycle"
    using sample_fleet_facts(1) by (simp add: sample_fleet_def sample_node_def)
  ultimately show thesis using that by (metis prod.collapse)
qed

lemma sample_fleet_fetched:
  "fetched_alerts (map snd (fleet_ops [sample_turn ''iad'', sample_turn ''sea''] sample_fleet)) \<subseteq> {sample_superseding}"
  by (rule sample_fetched) (simp add: sample_turn_def)


theorem fetched_by_one_published_by_all_witness:
  "\<exists>p' (entries :: active_alert list).
     publish_snapshot (sample_config ModePublish) sample_sys_cycle None
       (node_poller (fleet_run [sample_turn ''iad'', sample_turn ''sea''] sample_fleet) ''ord'') = (Returns True, p') \<and>
     live_object (po_world p') = Some ''{}'' \<and> entries \<noteq> []"
proof -
  let ?fl = "fleet_run [sample_turn ''iad'', sample_turn ''sea''] sample_fleet"
  obtain reports res rs where b: "turn_ops (sample_turn ''iad'') (fl_node sample_fleet (tu_node (sample_turn ''iad''))) =
      AlertBatch sample_batch_env [sample_superseding] # [ReportBatch sample_report_env reports, PurgeRows None 90]"
    "upsert_alerts_batch sample_parse_time (\<lambda>_. Some ''{}'') sample_batch_env [sample_superseding]
       (weather_events (fl_db sample_fleet)) = (res, rs)" "\<not> br_degraded res" "br_err res = None"
    by (rule sample_fleet_batch)
  have cur: "current_alert sample_parse_time [sample_superseding] (weather_events (fl_db sample_fleet)) sample_superseding 200"
    by (simp add: current_alert_def sample_fleet_def sample_system_def sample_table_def sample_event_row_def
        sample_superseding_def sample_parse_time_def refers_def blank_properties_def)
  have un: "unchallenged sample_parse_time
      (fetched_alerts (map snd (fleet_ops [sample_turn ''iad'', sample_turn ''sea''] sample_fleet)))
      (ID (Properties sample_superseding)) (Event (Properties sample_superseding)) 100"
    using sample_fleet_fetched
    by (fastforce simp: unchallenged_def refers_def sample_superseding_def sample_parse_time_def blank_properties_def)
  have turns: "\<forall>s \<in> set [sample_turn ''iad'', sample_turn ''sea''].
      turn_ok sample_parse_time (\<lambda>_. Some ''{}'') 100 sample_fleet s" using sample_turn_ok by simp
  have now: "rd_now (se_read sample_sys_env) \<le> (100 :: time)" by (simp add: sample_fleet_facts(4))
  have "list_all (\<lambda>r. CHR 0x00 \<notin> set (er_event_type r) \<and> CHR 0x00 \<notin> set (er_area_desc r)) (weather_events (fl_db ?fl))"
    by code_simp
  then have c: "text_columns_ok (weather_events (fl_db ?fl))" by (simp add: text_columns_ok_def list_all_iff)
  obtain p' where p': "publish_snapshot (sample_config ModePublish) sample_sys_cycle None (node_poller ?fl ''ord'') = (Returns True, p')"
    "po_health (node_poller ?fl ''ord'') \<noteq> None"
    "wired ((nd_wiring (fl_node sample_fleet ''ord''))\<lparr>wi_r2 := True\<rparr>) sample_sys_env sample_sys_cycle"
    by (rule sample_fleet_publishes)
  have "(100 :: time) < 200" by simp
  from fetched_by_one_published_by_all [OF turns sample_fleet_wf b(1) sample_env_ok b(2-4) cur this un now
      sample_fleet_facts(3) c p'(3,2,1)]
  obtain entries :: "active_alert list" where "live_object (po_world p') = Some ''{}''" "\<exists>s \<in> set entries. True"
    unfolding sample_fleet_facts(5) by blast
  with p'(1) show ?thesis by (metis list.set(1) empty_iff)
qed

end
