(* ===== verification/Replay.thy ===== *)
theory Replay
  imports Store
begin

text \<open>
  Several replicas store the same payload. What a cleanly stored payload leaves in
  \<open>weather_events\<close> is a state that no later run of \<open>UpsertAlertsBatch\<close> over these alerts moves,
  except for the column \<open>updated_at\<close>, which no reader selects.
\<close>

section \<open>Rows up to their update time\<close>

definition sans_update :: "event_row \<Rightarrow> event_row" where
  "sans_update r = r\<lparr>er_updated_at := 0\<rparr>"

lemma stable_fields [simp]:
  "er_nws_id (sans_update r) = er_nws_id r" "er_event_type (sans_update r) = er_event_type r"
  "er_effective_at (sans_update r) = er_effective_at r" "er_expires_at (sans_update r) = er_expires_at r"
  "er_retired_at (sans_update r) = er_retired_at r"
  by (simp_all add: sans_update_def)

lemma stable_conflict: "sans_update r = sans_update r' \<Longrightarrow> sans_update (conflict_row now x r) = sans_update (conflict_row now' x r')"
  by (cases r; cases r') (simp add: sans_update_def conflict_row_def)

lemma is_active_stable [simp]: "is_active now (sans_update r) = is_active now r"
  by (simp add: is_active_def)

lemma active_alert_stable [simp]: "active_alert_of env (sans_update r) = active_alert_of env r"
  by (simp add: active_alert_of_def sans_update_def)

lemma event_row_at_stable:
  assumes "map sans_update rs' = map sans_update rs" and "event_row_at rs' i = Some r'"
  shows "\<exists>r. event_row_at rs i = Some r \<and> sans_update r = sans_update r'"
proof -
  have "map_option sans_update (event_row_at rs' i) = map_option sans_update (event_row_at rs i)"
    using event_row_at_map [of sans_update rs' i] event_row_at_map [of sans_update rs i] assms(1) by simp
  with assms(2) show ?thesis by (cases "event_row_at rs i") auto
qed

section \<open>Settled payloads\<close>

text \<open>The row that an upsert of these arguments would leave as it is.\<close>

definition holds_args :: "alert_args \<Rightarrow> event_row list \<Rightarrow> bool" where
  "holds_args x rs \<longleftrightarrow> (\<exists>r. event_row_at rs (arg_id x) = Some r \<and> sans_update (conflict_row 0 x r) = sans_update r)"

text \<open>
  A table is settled for alerts when each that can be upserted is there with its fields, and what a
  readable one references under its type is retired.
\<close>

definition settled ::
  "(string \<Rightarrow> time option) \<Rightarrow> (alert_properties \<Rightarrow> string option) \<Rightarrow> alert set \<Rightarrow> event_row list \<Rightarrow> bool" where
  "settled pt ms alerts rs \<longleftrightarrow>
     (\<forall>a \<in> alerts. \<forall>t x. alert_upsert_args pt ms a t = Args x \<longrightarrow> holds_args x rs) \<and>
     (\<forall>a \<in> alerts. parseable pt a \<longrightarrow>
        (\<forall>r \<in> set rs. refers a (er_event_type r) (er_nws_id r) \<longrightarrow> er_retired_at r \<noteq> None))"

lemma upsert_held: "holds_args x rs \<Longrightarrow> map sans_update (upsert_event now x rs) = map sans_update rs"
proof (induction rs)
  case (Cons r rs)
  then show ?case
    using stable_conflict [of r r now x 0] by (cases "er_nws_id r = arg_id x") (auto simp: holds_args_def)
qed (simp add: holds_args_def)

lemma settled_stable:
  assumes "settled pt ms alerts rs" and "map sans_update rs' = map sans_update rs"
  shows "settled pt ms alerts rs'"
proof -
  have "holds_args x rs'" if held: "holds_args x rs" for x
  proof -
    obtain r where r: "event_row_at rs (arg_id x) = Some r" "sans_update (conflict_row 0 x r) = sans_update r"
      using held by (auto simp: holds_args_def)
    then obtain r' where r': "event_row_at rs' (arg_id x) = Some r'" "sans_update r' = sans_update r"
      using event_row_at_stable [OF assms(2) [symmetric]] by blast
    with r stable_conflict [OF r'(2), of 0 x 0] show ?thesis by (simp add: holds_args_def)
  qed
  moreover have "\<exists>r0 \<in> set rs. sans_update r0 = sans_update r" if "r \<in> set rs'" for r
  proof -
    have "sans_update r \<in> sans_update ` set rs" using that arg_cong [OF assms(2), of set] by force
    then show ?thesis by (auto simp: eq_commute)
  qed
  ultimately show ?thesis
    using assms(1) unfolding settled_def by (metis stable_fields(1,2,5))
qed

text \<open>Whatever a batch of settled alerts does on its way, it moves nothing but update times.\<close>

lemma settled_batch:
  "batch_reach pt ms alerts rs rs' \<Longrightarrow> set alerts \<subseteq> payload \<Longrightarrow> settled pt ms payload rs \<Longrightarrow>
     map sans_update rs' = map sans_update rs"
proof (induction rule: batch_reach.induct)
  case (upsert rs1 a t x now)
  then have eq: "map sans_update rs1 = map sans_update rs" by blast
  with upsert.prems(2) have "settled pt ms payload rs1" by (rule settled_stable)
  with upsert.hyps upsert.prems(1) have "holds_args x rs1" by (auto simp: settled_def)
  with eq show ?case by (simp add: upsert_held)
next
  case (retire rs1 p clock)
  then have eq: "map sans_update rs1 = map sans_update rs" by blast
  with retire.prems(2) have s: "settled pt ms payload rs1" by (rule settled_stable)
  have "retire_row clock p r = r" if "r \<in> set rs1" for r
  proof (cases "p (er_event_type r) (er_nws_id r)")
    case True
    from retire.hyps(2) [OF True] obtain a where "a \<in> set alerts" "refers a (er_event_type r) (er_nws_id r)" "parseable pt a"
      by (auto simp: landed_def parseable_def)
    with s that retire.prems(1) have "er_retired_at r \<noteq> None" unfolding settled_def by blast
    then show ?thesis by (simp add: retire_row_def)
  qed (simp add: retire_row_def)
  then have "map (retire_row clock p) rs1 = rs1" by (simp add: map_idI)
  with eq show ?case by simp
qed simp

section \<open>A clean batch settles its payload\<close>

text \<open>No two readable alerts of a payload share an id, except as copies of each other.\<close>

definition one_message_each :: "(string \<Rightarrow> time option) \<Rightarrow> alert list \<Rightarrow> bool" where
  "one_message_each pt alerts \<longleftrightarrow>
     (\<forall>a \<in> set alerts. \<forall>b \<in> set alerts.
        parseable pt a \<and> parseable pt b \<and> ID (Properties a) = ID (Properties b) \<longrightarrow> a = b)"

lemma inserted_holds: "sans_update (conflict_row now x (inserted_row now' x)) = sans_update (inserted_row now' x)"
  by (simp add: sans_update_def conflict_row_def inserted_row_def)

lemma conflict_holds: "sans_update (conflict_row now x (conflict_row now' x r)) = sans_update (conflict_row now' x r)"
  by (simp add: sans_update_def conflict_row_def)

lemma upsert_events_hold:
  "x \<in> set args \<Longrightarrow> \<forall>y \<in> set args. arg_id y = arg_id x \<longrightarrow> y = x \<Longrightarrow> holds_args x (upsert_events now args rs)"
proof (induction args rule: rev_induct)
  case (snoc y args)
  have step: "upsert_events now (args @ [y]) rs = upsert_event now y (upsert_events now args rs)"
    by (simp add: upsert_events_def)
  show ?case
  proof (cases "y = x")
    case True
    then show ?thesis
      unfolding step by (auto simp: holds_args_def upsert_event_at inserted_holds conflict_holds split: option.split)
  next
    case False
    with snoc have "holds_args x (upsert_events now args rs)" "arg_id y \<noteq> arg_id x" by auto
    then show ?thesis by (simp add: step holds_args_def upsert_event_at)
  qed
qed simp

lemma holds_args_retire: "holds_args x rs \<Longrightarrow> holds_args x (map (retire_row now p) rs)"
proof -
  have "sans_update (conflict_row 0 x (retire_row now p r)) = sans_update (retire_row now p r)"
    if held: "sans_update (conflict_row 0 x r) = sans_update r" for r
    using held by (cases r) (simp add: sans_update_def conflict_row_def retire_row_def)
  then show "holds_args x rs \<Longrightarrow> ?thesis" by (auto simp: holds_args_def event_row_at_map)
qed

text \<open>The arguments of an alert at another reading of the clock differ in the effective instant alone.\<close>

lemma holds_args_later:
  assumes "alert_upsert_args pt ms a t = Args x" and "alert_upsert_args pt ms a t' = Args x'" and "holds_args x rs"
  shows "holds_args x' rs"
proof -
  have "arg_id x' = arg_id x" "conflict_row now x' r = conflict_row now x r" for now r
    using assms(1,2) upsert_args_expires [OF assms(1)] upsert_args_expires [OF assms(2)]
    by (auto simp: alert_upsert_args_def conflict_row_def Let_def split: option.splits)
  with assms(3) show ?thesis by (simp add: holds_args_def)
qed

lemma clean_batch_settles:
  assumes "upsert_alerts_batch pt ms env alerts rs = (res, rs1)" and "env_ok env"
    and "\<not> br_degraded res" and "br_err res = None" and "one_message_each pt alerts"
  shows "settled pt ms (set alerts) rs1"
proof (cases "alerts = []")
  case False
  let ?t = "tx_received_at (be_tx env)" and ?now = "tx_now (be_tx env)"
  let ?readable = "filter (parseable pt) alerts"
  from batch_outcome [OF assms(1,2) False] assms(3,4) obtain args where
    args: "list_all2 (\<lambda>a x. alert_upsert_args pt ms a ?t = Args x) ?readable args"
    and rs1: "rs1 = map (retire_row (\<lambda>_. ?now) (\<lambda>et i. \<exists>a \<in> set ?readable. refers a et i)) (upsert_events ?now args rs)"
    by blast
  have "holds_args x' rs1" if a: "a \<in> set alerts" "alert_upsert_args pt ms a t = Args x'" for a t x'
  proof -
    have "a \<in> set ?readable" using a upsert_args_expires [OF a(2)] by (auto simp: parseable_def)
    then obtain x where x: "x \<in> set args" "alert_upsert_args pt ms a ?t = Args x"
      using list_all2_targets [OF args] by blast
    have "y = x" if y: "y \<in> set args" "arg_id y = arg_id x" for y
    proof -
      obtain b where b: "b \<in> set ?readable" "alert_upsert_args pt ms b ?t = Args y"
        using list_all2_sources [OF args y(1)] by blast
      with y(2) x(2) \<open>a \<in> set ?readable\<close> assms(5) have "b = a"
        using upsert_args_id [OF b(2)] upsert_args_id [OF x(2)] by (auto simp: one_message_each_def)
      with b(2) x(2) show ?thesis by simp
    qed
    with x(1) have "holds_args x (upsert_events ?now args rs)" by (intro upsert_events_hold) auto
    then show ?thesis unfolding rs1 by (intro holds_args_later [OF x(2) a(2)] holds_args_retire)
  qed
  moreover have "er_retired_at r \<noteq> None"
    if "a \<in> set alerts" "parseable pt a" "r \<in> set rs1" "refers a (er_event_type r) (er_nws_id r)" for a r
    using clean_batch_retires [OF assms(1-4) that(1,2,4,3)] .
  ultimately show ?thesis by (auto simp: settled_def)
qed (simp add: settled_def)

section \<open>Readers do not see update times\<close>

lemma active_alerts_mset:
  assumes "scan_ok env"
  shows "mset (map (active_alert_of env) (active_rows (rd_scan env) (rd_now env) rs)) =
    image_mset (active_alert_of env) (filter_mset (is_active (rd_now env)) (image_mset sans_update (mset rs)))"
  using assms
  by (simp add: active_rows_def scan_ok_def filter_mset_image_mset image_mset.compositionality comp_def mset_filter)

lemma active_alerts_distinct:
  assumes "scan_ok env" and "wf_events rs"
  shows "distinct (map NWSID (map (active_alert_of env) (active_rows (rd_scan env) (rd_now env) rs)))"
proof -
  have "mset (map er_nws_id (active_rows (rd_scan env) (rd_now env) rs)) = mset (map er_nws_id (filter (is_active (rd_now env)) rs))"
    using assms(1) by (simp add: active_rows_def scan_ok_def)
  moreover have "distinct (map er_nws_id (filter (is_active (rd_now env)) rs))"
    using assms(2) by (simp add: wf_events_def distinct_map_filter)
  ultimately show ?thesis by (metis (no_types, lifting) active_alert_fields(1) comp_apply list.map_comp map_eq_conv mset_eq_imp_distinct_iff)
qed

lemma snapshot_sans_update:
  assumes "map sans_update rs' = map sans_update rs" and "wf_events rs"
    and "get_active_alerts env rs = Inr as" and "scan_ok env"
    and "get_active_alerts (env\<lparr>rd_scan := scan\<rparr>) rs' = Inr as'" and "scan_ok (env\<lparr>rd_scan := scan\<rparr>)"
  shows "mset as' = mset as"
proof -
  let ?env' = "env\<lparr>rd_scan := scan\<rparr>"
  let ?xs = "map (active_alert_of env) (active_rows (rd_scan env) (rd_now env) rs)"
  let ?ys = "map (active_alert_of ?env') (active_rows (rd_scan ?env') (rd_now ?env') rs')"
  have "active_alert_of ?env' = active_alert_of env" by (simp add: fun_eq_iff active_alert_of_def)
  moreover have "image_mset sans_update (mset rs') = image_mset sans_update (mset rs)"
    using arg_cong [OF assms(1), of mset] by simp
  ultimately have "mset ?xs = mset ?ys"
    unfolding active_alerts_mset [OF assms(4)] active_alerts_mset [OF assms(6)] by simp
  from collapse_order [OF this active_alerts_distinct [OF assms(4,2)]]
  show ?thesis unfolding get_active_alerts_Inr(2) [OF assms(3)] get_active_alerts_Inr(2) [OF assms(5)] by simp
qed

section \<open>Replicas\<close>

text \<open>Batches one after another, each with what its node meets.\<close>

definition store_again ::
  "(string \<Rightarrow> time option) \<Rightarrow> (alert_properties \<Rightarrow> string option) \<Rightarrow> (batch_env \<times> alert list) list \<Rightarrow>
   event_row list \<Rightarrow> event_row list" where
  "store_again pt ms = fold (\<lambda>(env, alerts) rs. snd (upsert_alerts_batch pt ms env alerts rs))"

lemma store_again_settled:
  "settled pt ms payload rs \<Longrightarrow> \<forall>(env, part) \<in> set again. env_ok env \<and> set part \<subseteq> payload \<Longrightarrow>
     map sans_update (store_again pt ms again rs) = map sans_update rs"
proof (induction again arbitrary: rs)
  case (Cons e again)
  obtain env part where e: "e = (env, part)" by (cases e)
  let ?rs = "snd (upsert_alerts_batch pt ms env part rs)"
  have "batch_reach pt ms part rs ?rs" using Cons.prems(2) by (intro batch_reaches [OF prod.collapse [symmetric]]) (simp add: e)
  from settled_batch [OF this _ Cons.prems(1)] Cons.prems(2) have eq: "map sans_update ?rs = map sans_update rs"
    by (simp add: e)
  with Cons.IH [OF settled_stable [OF Cons.prems(1) eq]] Cons.prems(2) show ?case by (simp add: store_again_def e)
qed (simp add: store_again_def)

text \<open>
  C7: several replicas against one database are safe. Once one of them has stored a payload cleanly,
  every later run of the batch over these alerts, or over any part of them, by however many nodes, in
  whatever order, and whatever fails in it (rejected statements, deadlines, commits that report an
  error and take effect, the row by row fallback), changes no column but \<open>updated_at\<close>; and a read of
  the active alerts gives the same snapshot before and after, in whatever order the server returns
  the rows.
\<close>

theorem replicas_change_nothing:
  assumes "upsert_alerts_batch pt ms env alerts rs = (res, rs1)" and "env_ok env"
    and "\<not> br_degraded res" and "br_err res = None" and "one_message_each pt alerts"
    and "\<forall>(env', part) \<in> set again. env_ok env' \<and> set part \<subseteq> set alerts"
    and "wf_events rs" and "scan_ok renv" and "scan_ok (renv\<lparr>rd_scan := scan\<rparr>)"
    and "get_active_alerts renv rs1 = Inr before"
    and "get_active_alerts (renv\<lparr>rd_scan := scan\<rparr>) (store_again pt ms again rs1) = Inr after"
  shows "map sans_update (store_again pt ms again rs1) = map sans_update rs1 \<and> mset after = mset before"
proof -
  have "map sans_update (store_again pt ms again rs1) = map sans_update rs1"
    by (rule store_again_settled [OF clean_batch_settles [OF assms(1-5)] assms(6)])
  moreover from this have "mset after = mset before"
    by (rule snapshot_sans_update [OF _ reach_wf [OF batch_reaches [OF assms(1,2)] assms(7)] assms(10,8,11,9)])
  ultimately show ?thesis by blast
qed

text \<open>A second replica fails in its transaction and falls back; a third gets through.\<close>

definition sample_again :: "(batch_env \<times> alert list) list" where
  "sample_again =
     [(sample_batch_env\<lparr>be_tx := (be_tx sample_batch_env)\<lparr>tx_row_err := (\<lambda>_. Some (SqlErr ''rejected''))\<rparr>\<rparr>,
       [sample_superseding]),
      (sample_batch_env, [sample_superseding])]"

theorem replicas_change_nothing_witness:
  "\<exists>before after. get_active_alerts sample_read_env (snd sample_batch) = Inr before \<and>
     get_active_alerts (sample_read_env\<lparr>rd_scan := \<lambda>rs. rs\<rparr>)
       (store_again sample_parse_time (\<lambda>_. Some ''{}'') sample_again (snd sample_batch)) = Inr after \<and>
     map NWSID before = [''n3'', ''n2''] \<and> mset after = mset before"
proof -
  let ?alerts = "[sample_superseding, sample_superseding\<lparr>Properties := blank_properties\<lparr>ID := ''n2'', Expires := ''soon''\<rparr>\<rparr>]"
  let ?read = "\<lambda>env rs. case get_active_alerts env rs of Inl _ \<Rightarrow> None | Inr as \<Rightarrow> Some as"
  let ?again = "store_again sample_parse_time (\<lambda>_. Some ''{}'') sample_again (snd sample_batch)"
  let ?plain = "sample_read_env\<lparr>rd_scan := \<lambda>rs. rs\<rparr>"
  have clean: "\<not> br_degraded (fst sample_batch) \<and> Option.is_none (br_err (fst sample_batch))" by code_simp
  have "map_option (map NWSID) (?read sample_read_env (snd sample_batch)) = Some [''n3'', ''n2'']" by code_simp
  then obtain before where before: "get_active_alerts sample_read_env (snd sample_batch) = Inr before" "map NWSID before = [''n3'', ''n2'']"
    by (auto split: sum.splits)
  have "map_option (map NWSID) (?read ?plain ?again) = Some [''n3'', ''n2'']" by code_simp
  then obtain after where after: "get_active_alerts ?plain ?again = Inr after" by (auto split: sum.splits)
  have one: "one_message_each sample_parse_time ?alerts"
    by (simp add: one_message_each_def sample_superseding_def blank_properties_def parseable_def sample_parse_time_def)
  have again: "\<forall>(env', part) \<in> set sample_again. env_ok env' \<and> set part \<subseteq> set ?alerts"
    using sample_env_ok by (simp add: sample_again_def env_ok_def)
  have scan: "scan_ok sample_read_env" "scan_ok ?plain" by (simp_all add: scan_ok_def sample_read_env_def)
  have wf: "wf_events sample_table" by (simp add: wf_events_def sample_table_def sample_event_row_def)
  from replicas_change_nothing [OF sample_batch_eq sample_env_ok _ _ one again wf scan before(1) after] clean before after
  show ?thesis by (auto simp: Option.is_none_def)
qed

end
