(* ===== verification/Healthz.thy ===== *)
theory Healthz
  imports Fleet Ingest_Main
begin

text \<open>
  What \<open>/healthz\<close> says of a running service: the registry that the poller writes in its cycles, read by
  the handler that \<open>main.go\<close> sets up with the feeds and the age limit of the node's mode.
\<close>

section \<open>The feeds a cycle records\<close>

fun feed_fetch ::
  "('e, 'w) services \<Rightarrow> feed \<Rightarrow> time option \<Rightarrow> 'w \<Rightarrow> (storm_report list \<times> spc_error option) call \<times> 'w" where
  "feed_fetch sv FeedSPCTorn = sv_tornado sv"
| "feed_fetch sv FeedSPCHail = sv_hail sv"
| "feed_fetch sv _ = sv_wind sv"

text \<open>The feed answered in the cycle that starts in state \<open>p\<close>, or the merged snapshot went out.\<close>

definition answered :: "config \<Rightarrow> ('e, system) cycle \<Rightarrow> time option \<Rightarrow> system poller \<Rightarrow> feed \<Rightarrow> bool" where
  "answered cfg cy ctx p f =
     (let ctx' = with_timeout ctx (cy_fetch_start cy) (fetch_budget cfg)
      in case f of
           FeedAlerts \<Rightarrow> should_ingest (cfg_Mode cfg) \<and>
             (case fst (sv_alerts (cy_services cy) (fetch_ctx cy FeedAlerts AlertsFetchBudgetPercent ctx')
                     (join '','' (Areas cfg)) (po_world p)) of
                Returns (_, err) \<Rightarrow> err = None \<or> err = Some ErrNotModified
              | Panics _ \<Rightarrow> False)
         | FeedPublish \<Rightarrow> should_publish (cfg_Mode cfg) \<and>
             fst (publish_phase cfg cy ctx (publish_budget cfg) (snd (fetch_phase cfg cy ctx (fetch_budget cfg) p))) =
               Returns True
         | _ \<Rightarrow> should_ingest (cfg_Mode cfg) \<and>
             (case fst (feed_fetch (cy_services cy) f (fetch_ctx cy f SPCFetchBudgetPercent ctx') (po_world p)) of
                Returns (_, err) \<Rightarrow> err = None
              | Panics _ \<Rightarrow> False))"

text \<open>The instants at which a feed succeeded in a run, in order.\<close>

fun successes ::
  "config \<Rightarrow> (('e, system) cycle \<times> time option) list \<Rightarrow> system poller \<Rightarrow> feed \<Rightarrow> time list" where
  "successes cfg [] p f = []"
| "successes cfg ((cy, ctx) # cs) p f =
     (if answered cfg cy ctx p f then [cy_success cy f] else []) @ successes cfg cs (poll_safely cfg cy ctx p) f"

abbreviation ok_at :: "'w poller \<Rightarrow> feed \<Rightarrow> time option" where
  "ok_at p f \<equiv> last_success (po_health p) f"

abbreviation marked :: "bool \<Rightarrow> ('e, 'w) cycle \<Rightarrow> feed \<Rightarrow> 'w poller \<Rightarrow> time option" where
  "marked b cy f p \<equiv> (if b then Some (cy_success cy f) else ok_at p f)"

lemma record_success_Some: "\<exists>reg'. record_success f t (Some reg) = Some reg'"
  by (simp add: record_success_def)

lemma ok_at_record: "po_health p \<noteq> None \<Longrightarrow> ok_at (record_ok f cy p) g = (if g = f then Some (cy_success cy f) else ok_at p g)"
  by (simp add: record_ok_def reg_log.last_record)

lemma poll_alerts_ok_at:
  assumes "wired wi se cy" and "po_health p \<noteq> None"
  shows "ok_at (snd (poll_alerts cfg cy ctx p)) f =
      marked (f = FeedAlerts \<and> (case fst (sv_alerts (cy_services cy) (fetch_ctx cy FeedAlerts AlertsFetchBudgetPercent ctx)
          (join '','' (Areas cfg)) (po_world p)) of
        Returns (_, err) \<Rightarrow> err = None \<or> err = Some ErrNotModified | Panics _ \<Rightarrow> False)) cy f p \<and>
    po_health (snd (poll_alerts cfg cy ctx p)) \<noteq> None"
proof -
  let ?area = "join '','' (Areas cfg)" and ?ctx = "fetch_ctx cy FeedAlerts AlertsFetchBudgetPercent ctx"
  obtain resp err w where s: "sys_fetch_alerts wi se ?ctx ?area (po_world p) = (Returns (resp, err), w)"
    "resp = None \<longleftrightarrow> err \<noteq> None"
    using nws_fetcher.returns [of wi se ?ctx ?area "po_world p"] by (metis prod.collapse)
  show ?thesis
    using assms s
    by (auto simp: poll_alerts_def wired_def on_world_simp classify_alert_fetch_err_def Let_def
        ok_at_record sys_upsert_alerts_def split_beta record_ok_def reg_log.last_record
        record_success_Some split: option.splits)
qed


lemma poll_storm_reports_ok_at:
  assumes "wired wi se cy" and "po_health p \<noteq> None"
  shows "ok_at (snd (poll_storm_reports cy ctx p)) f =
      marked (f \<notin> {FeedAlerts, FeedPublish} \<and>
        (case fst (feed_fetch (cy_services cy) f (fetch_ctx cy f SPCFetchBudgetPercent ctx) w) of
           Returns (_, err) \<Rightarrow> err = None | Panics _ \<Rightarrow> False)) cy f p"
  using assms
  by (cases f) (auto simp: poll_storm_reports_def wired_def main_services_def fetch_feed_wired feed_answers_def on_world_simp
      sys_upsert_reports_def split_beta ok_at_record record_ok_health)

text \<open>The publish phase marks its own feed, whatever becomes of the per-state puts.\<close>

lemma publish_per_state_ok_at:
  assumes "h \<noteq> None"
  shows "last_success (fst (publish_per_state pub ctx areas alerts t sched (h, w))) f = last_success h f \<and>
    fst (publish_per_state pub ctx areas alerts t sched (h, w)) \<noteq> None"
proof -
  obtain h' w' where r: "publish_per_state pub ctx areas alerts t sched (h, w) = (h', w')" by fastforce
  then obtain st where "fan_reach pub (\<lambda>state. new_state_snapshot state (filter_alerts_by_state alerts state) t)
      ctx areas h w st" "h' = fan_health st"
    by (rule publish_per_state_reach)
  with fan_reach_counts assms r show ?thesis by (metis fst_conv)
qed


lemma publish_snapshot_ok_at:
  assumes "wired wi se cy" and "po_health p \<noteq> None"
  shows "ok_at (snd (publish_snapshot cfg cy ctx p)) f =
      marked (f = FeedPublish \<and> fst (publish_snapshot cfg cy ctx p) = Returns True) cy f p \<and>
    po_health (snd (publish_snapshot cfg cy ctx p)) \<noteq> None"
proof (cases "get_active_alerts (se_read se) (weather_events (sy_db (po_world p)))")
  case (Inl e)
  then show ?thesis using assms by (simp add: publish_snapshot_def wired_def on_world_simp)
next
  case (Inr alerts)
  let ?sn = "new_snapshot (cy_generated_at cy) (Areas cfg) alerts"
  obtain ok w where put: "publish_with_retry ctx (\<lambda>i c. sys_publish wi se i c ?sn) (cy_put cy) (po_world p) = (Returns ok, w)"
    using publish_with_retry_returns [of "\<lambda>i c. sys_publish wi se i c ?sn"] sys_returns(4) by (metis prod.collapse)
  define h where "h = (if ok then record_success FeedPublish (cy_success cy FeedPublish) (reset_publish_failures (po_health p))
    else reset_publish_failures (po_health p))"
  have live: "reset_publish_failures (po_health p) \<noteq> None" using assms(2) by (rule reg_log.live_reset)
  then have h: "h \<noteq> None" using reg_log.live_record [OF live] by (simp add: h_def)
  have last: "last_success h f = marked (f = FeedPublish \<and> ok) cy f p"
    using live by (simp add: h_def reg_log.last_record reg_log.last_reset)
  have "publish_snapshot cfg cy ctx p = (Returns ok,
      let r = publish_per_state (sys_publish_state wi se) ctx (Areas cfg) alerts (sn_GeneratedAt ?sn) (cy_sched cy) (h, w)
      in p\<lparr>po_health := fst r, po_world := snd r\<rparr>)"
    using assms(1)
    by (simp add: publish_snapshot_def wired_def on_world_simp Inr Let_def put split_beta record_ok_def h_def)
  with last show ?thesis by (simp add: Let_def publish_per_state_ok_at [OF h])
qed

lemma heartbeat_ok_at: "ok_at (heartbeat cfg a m p) f = ok_at p f"
  by (simp add: heartbeat_frame)

lemma poll_health:
  assumes "wired wi se cy"
  shows "po_health (poll_safely cfg cy ctx p) =
    po_health (snd (publish_phase cfg cy ctx (publish_budget cfg) (snd (fetch_phase cfg cy ctx (fetch_budget cfg) p))))"
proof -
  obtain a p1 m p2 where "fetch_phase cfg cy ctx (fetch_budget cfg) p = (Returns a, p1)"
    "publish_phase cfg cy ctx (publish_budget cfg) p1 = (Returns m, p2)"
    using fetch_phase_returns [OF assms] publish_snapshot_returns [OF assms]
    by (metis prod.collapse publish_phase_def)
  then show ?thesis by (simp add: poll_safely_snd poll_phases heartbeat_frame)
qed


lemma fetch_phase_ok_at:
  assumes "wired wi se cy" and "po_health p \<noteq> None"
  shows "ok_at (snd (fetch_phase cfg cy ctx (fetch_budget cfg) p)) f =
      marked (f \<noteq> FeedPublish \<and> answered cfg cy ctx p f) cy f p"
proof (cases "should_ingest (cfg_Mode cfg)")
  case False
  then show ?thesis by (cases f) (simp_all add: fetch_phase_def answered_def)
next
  case True
  let ?ctx = "with_timeout ctx (cy_fetch_start cy) (fetch_budget cfg)"
  obtain r q where a: "poll_alerts cfg cy ?ctx p = (Returns r, q)"
    using poll_alerts_returns [OF assms(1)] by (metis prod.collapse)
  obtain n q' where s: "poll_storm_reports cy ?ctx q = (Returns n, q')"
    using poll_storm_reports_db [OF assms(1)] by blast
  have "po_health (snd (fetch_phase cfg cy ctx (fetch_budget cfg) p)) = po_health q'"
    using True assms(1) by (simp add: fetch_phase_def Let_def a s split_beta wired_def on_world_simp sys_purge_def)
  with poll_alerts_ok_at [OF assms, of cfg ?ctx f] poll_storm_reports_ok_at [OF assms(1), of q ?ctx f "po_world p"] True
  show ?thesis by (cases f) (simp_all add: a s answered_def)
qed

lemma cycle_ok_at:
  assumes "wired wi se cy" and "po_health p \<noteq> None"
  shows "ok_at (poll_safely cfg cy ctx p) f = marked (answered cfg cy ctx p f) cy f p \<and>
    po_health (poll_safely cfg cy ctx p) \<noteq> None"
proof -
  let ?p1 = "snd (fetch_phase cfg cy ctx (fetch_budget cfg) p)"
  have h1: "po_health ?p1 \<noteq> None" using assms(2) by (simp add: fetch_phase_health)
  have "ok_at (snd (publish_phase cfg cy ctx (publish_budget cfg) ?p1)) f =
      marked (f = FeedPublish \<and> answered cfg cy ctx p f) cy f ?p1 \<and>
    po_health (snd (publish_phase cfg cy ctx (publish_budget cfg) ?p1)) \<noteq> None"
    using h1 publish_snapshot_ok_at [OF assms(1) h1]
    by (cases "f = FeedPublish") (simp_all add: publish_phase_def answered_def Let_def)
  then show ?thesis
    using fetch_phase_ok_at [OF assms, of cfg ctx f] by (simp add: poll_health [OF assms(1)])
qed


section \<open>Across the cycles of a run\<close>

lemma run_ok_at:
  "\<forall>(cy, ctx) \<in> set cs. \<exists>se. wired wi se cy \<Longrightarrow> po_health p \<noteq> None \<Longrightarrow>
     ok_at (run_cycles cfg cs p) f =
       (if successes cfg cs p f = [] then ok_at p f else Some (last (successes cfg cs p f)))"
proof (induction cs arbitrary: p)
  case (Cons c cs)
  obtain cy ctx where c: "c = (cy, ctx)" by (cases c)
  with Cons.prems(1) obtain se where w: "wired wi se cy" by auto
  note step = cycle_ok_at [OF w Cons.prems(2), of cfg ctx f]
  have "ok_at (run_cycles cfg cs (poll_safely cfg cy ctx p)) f =
      (if successes cfg cs (poll_safely cfg cy ctx p) f = [] then ok_at (poll_safely cfg cy ctx p) f
       else Some (last (successes cfg cs (poll_safely cfg cy ctx p) f)))"
    using Cons step by (intro Cons.IH) auto
  with step show ?case by (simp add: c)
qed simp

text \<open>The feeds of the phases that a node runs.\<close>

definition runs_feed :: "config \<Rightarrow> feed \<Rightarrow> bool" where
  "runs_feed cfg f = (if f = FeedPublish then should_publish (cfg_Mode cfg) else should_ingest (cfg_Mode cfg))"

lemma startup_feeds:
  assumes "startup env = Inr s"
  shows "f \<in> set (se_feeds s) \<longleftrightarrow> runs_feed (se_config s) f"
    and "se_max_age s = wrap64 (HealthStalenessMultiplier * PollInterval (se_config s))"
proof -
  obtain m r2 where "cfg_Mode (se_config s) = m" "se_feeds s = required_feeds (should_ingest m) (should_publish m)"
    using assms by (rule startup_cases)
  then show "f \<in> set (se_feeds s) \<longleftrightarrow> runs_feed (se_config s) f"
    by (cases f) (auto simp: required_feeds_def runs_feed_def Let_def)
  show "se_max_age s = wrap64 (HealthStalenessMultiplier * PollInterval (se_config s))"
    using assms unfolding startup_def Let_def by (auto split: if_splits option.splits sum.splits)
qed

text \<open>\<open>http.ServeMux\<close> with its one pattern; anything else is not found.\<close>

definition health_mux ::
  "service \<Rightarrow> (time \<Rightarrow> string) \<Rightarrow> registry option \<Rightarrow> string \<Rightarrow> time \<Rightarrow> nat \<times> health_response option" where
  "health_mux s fmt reg path now =
     (if path = ''/healthz''
      then map_prod id Some (new_handler fmt reg (se_feeds s) (se_max_age s) now)
      else (404, None))"

lemma health_mux_status:
  "fst (health_mux s fmt reg ''/healthz'' now) =
     (if \<forall>f \<in> set (se_feeds s). \<exists>t. last_success reg f = Some t \<and> now + wrap64 (- se_max_age s) \<le> t then 200 else 503)"
  by (simp add: health_mux_def new_handler_status)

text \<open>
  C10: the health check tells the truth about the feeds. Take a service as \<open>main.go\<close> starts it, with a
  poll interval whose age limit fits a duration, after any cycles, whatever failed in them. \<open>/healthz\<close>
  answers 200 exactly when every feed of the phases the node runs has succeeded in some cycle and its
  last success is at most the age limit old: an alerts or report fetch of an ingesting node that
  returned without an error, a 304 included, and a merged publish of a publishing one. Otherwise it
  answers 503, and before the first success of a feed always.
\<close>

theorem healthz_follows_cycles:
  assumes "startup env = Inr s" and "\<forall>(cy, ctx) \<in> set cs. \<exists>se. wired (se_wiring s) se cy"
    and "p = run_cycles (se_config s) cs (poller_new new_registry w)"
    and "0 \<le> PollInterval (se_config s)" and "HealthStalenessMultiplier * PollInterval (se_config s) < 2 ^ 63"
  shows "fst (health_mux s fmt (po_health p) ''/healthz'' now) =
    (if \<forall>f. runs_feed (se_config s) f \<longrightarrow>
         successes (se_config s) cs (poller_new new_registry w) f \<noteq> [] \<and>
         now \<le> last (successes (se_config s) cs (poller_new new_registry w) f) +
           HealthStalenessMultiplier * PollInterval (se_config s)
     then 200 else 503)"
proof -
  let ?max = "HealthStalenessMultiplier * PollInterval (se_config s)"
  let ?ss = "successes (se_config s) cs (poller_new new_registry w)"
  have max: "0 \<le> ?max" using assms(4) by (simp add: HealthStalenessMultiplier_def)
  have w: "wrap64 ?max = ?max" "wrap64 (- ?max) = - ?max"
    using max assms(5) by (auto intro!: wrap64_id simp: in_int64_def)
  have fresh: "po_health (poller_new new_registry w) \<noteq> None" "ok_at (poller_new new_registry w) f = None" for f
    by (simp_all add: poller_new_def new_registry_def last_success_def)
  have ok: "ok_at p f = (if ?ss f = [] then None else Some (last (?ss f)))" for f
    using run_ok_at [OF assms(2) fresh(1), of "se_config s" f] by (simp add: assms(3) fresh(2))
  have one: "(\<exists>t. ok_at p f = Some t \<and> now + - ?max \<le> t) \<longleftrightarrow> ?ss f \<noteq> [] \<and> now \<le> last (?ss f) + ?max" for f
    unfolding ok by (auto simp: algebra_simps)
  show ?thesis
    unfolding health_mux_status startup_feeds(2) [OF assms(1)] w one Ball_def startup_feeds(1) [OF assms(1)] ..
qed


text \<open>A publishing node right after a cycle that published, and 91 seconds later.\<close>

definition sample_service_cycle :: "service \<Rightarrow> (file_env \<times> put_outcome, system) cycle" where
  "sample_service_cycle s = sample_sys_cycle\<lparr>cy_services := main_services (se_wiring s) sample_sys_env\<rparr>"

definition sample_small_env :: startup_env where
  "sample_small_env =
     sample_startup_env\<lparr>st_getenv := \<lambda>name. if name = ''NWS_AREA'' then ''ok'' else st_getenv sample_startup_env name\<rparr>"

definition sample_node :: config where
  "sample_node =
     \<lparr>PollInterval = 30 * second, Areas = [''OK''], cfg_Mode = ''publish'',
      HealthPing = Some (pinger_new '''')\<rparr>"

definition sample_node_wiring :: wiring where
  "sample_node_wiring =
     \<lparr>wi_nws = new_client ''(seestorm.org, contact@seestorm.org)'', wi_spc = spc_new_client,
      wi_dir = ''./snapshots'', wi_r2 = True\<rparr>"

lemma sample_service_started:
  "case startup sample_small_env of Inl e \<Rightarrow> False
   | Inr s \<Rightarrow> se_config s = sample_node \<and> se_wiring s = sample_node_wiring"
  by code_simp

lemma sample_modes: "should_publish (cfg_Mode sample_node)" "\<not> should_ingest (cfg_Mode sample_node)"
  by code_simp+

lemma sample_service_publishes:
  "fst (publish_phase sample_node (sample_sys_cycle\<lparr>cy_services := main_services sample_node_wiring sample_sys_env\<rparr>)
     None (publish_budget sample_node) (poller_new new_registry sample_system)) = Returns True"
  by code_simp

lemma sample_service:
  "case startup sample_small_env of Inl e \<Rightarrow> False
   | Inr s \<Rightarrow> answered (se_config s) (sample_service_cycle s) None (poller_new new_registry sample_system) FeedPublish \<and>
       PollInterval (se_config s) = 30 * second \<and> should_publish (cfg_Mode (se_config s)) \<and>
       \<not> should_ingest (cfg_Mode (se_config s))"
proof -
  obtain s where s: "startup sample_small_env = Inr s" "se_config s = sample_node" "se_wiring s = sample_node_wiring"
    using sample_service_started by (auto split: sum.splits)
  have "PollInterval sample_node = 30 * second" by (simp add: sample_node_def)
  then show ?thesis
    using sample_service_publishes sample_modes
    by (simp add: s answered_def Let_def sample_service_cycle_def fetch_phase_def)
qed

theorem healthz_follows_cycles_witness:
  "\<exists>s p. startup sample_small_env = Inr s \<and>
     p = run_cycles (se_config s) [(sample_service_cycle s, None)] (poller_new new_registry sample_system) \<and>
     fst (health_mux s (\<lambda>_. '''') (po_health p) ''/healthz'' 2) = 200 \<and>
     fst (health_mux s (\<lambda>_. '''') (po_health p) ''/healthz'' (91 * second)) = 503"
proof -
  let ?p0 = "poller_new new_registry sample_system"
  obtain s where s: "startup sample_small_env = Inr s"
    "answered (se_config s) (sample_service_cycle s) None ?p0 FeedPublish"
    "PollInterval (se_config s) = 30 * second" "should_publish (cfg_Mode (se_config s))" "\<not> should_ingest (cfg_Mode (se_config s))"
    using sample_service by (auto split: sum.splits)
  have w: "\<forall>(cy, ctx) \<in> set [(sample_service_cycle s, None)]. \<exists>se. wired (se_wiring s) se cy"
    by (auto simp: wired_def sample_service_cycle_def)
  have succ: "successes (se_config s) [(sample_service_cycle s, None)] ?p0 FeedPublish = [1]"
    using s(2) by (simp add: sample_service_cycle_def sample_sys_cycle_def)
  have runs: "runs_feed (se_config s) f \<longleftrightarrow> f = FeedPublish" for f using s(4,5) by (simp add: runs_feed_def)
  have bounds: "0 \<le> PollInterval (se_config s)" "HealthStalenessMultiplier * PollInterval (se_config s) < 2 ^ 63"
    by (simp_all add: s(3) second_def HealthStalenessMultiplier_def)
  show ?thesis
    using s(1) healthz_follows_cycles [OF s(1) w refl bounds, of "\<lambda>_. ''''" sample_system]
    by (simp add: runs succ s(3) second_def HealthStalenessMultiplier_def del: successes.simps run_cycles.simps)
qed

end
