(* ===== verification/Process.thy ===== *)
theory Process
  imports Healthz
begin

text \<open>
  The life of the process, \<open>main\<close> and \<open>run\<close> of \<open>cmd/ingest/main.go\<close>: what it acquires on the way up,
  what its deferred calls release on every way out, and the exit code. The body of \<open>run\<close> is a list of statements with Go's \<open>defer\<close>.
\<close>

section \<open>Statements with deferred calls\<close>

datatype ('ev, 'err) stmt = Do 'ev | Defer 'ev | ReturnIf "'err option"

text \<open>The effects in order, the deferred ones last and in reverse, and the error returned.\<close>

fun exec :: "('ev, 'err) stmt list \<Rightarrow> 'ev list \<Rightarrow> 'ev list \<times> 'err option" where
  "exec [] deferred = (deferred, None)"
| "exec (Do e # ss) deferred = (case exec ss deferred of (tr, r) \<Rightarrow> (e # tr, r))"
| "exec (Defer e # ss) deferred = exec ss (e # deferred)"
| "exec (ReturnIf None # ss) deferred = exec ss deferred"
| "exec (ReturnIf (Some err) # ss) deferred = (deferred, Some err)"

lemma exec_Do: "exec (map Do es) deferred = (es @ deferred, None)"
  by (induction es) simp_all

section \<open>The statements of \<open>run\<close>\<close>

datatype resource = Signals | Pool | HealthServer nat   \<comment> \<open>on a port\<close>

datatype process_event =
    Acquire resource
  | Release resource
  | Migrated
  | Poll "time option"                  \<comment> \<open>the tick of a poll; the first one has none\<close>
  | Exit nat

text \<open>The check at which a start fails.\<close>

fun failing_check :: "startup_err \<Rightarrow> nat" where
  "failing_check NoDatabaseURL = 0"
| "failing_check NoAreas = 1"
| "failing_check (ModeErr e) = 2"
| "failing_check (ConnectErr e) = 3"
| "failing_check (MigrateErr e) = 4"
| "failing_check (R2Err e) = 5"

definition check_fails :: "startup_env \<Rightarrow> nat \<Rightarrow> startup_err option" where
  "check_fails env n =
     (case startup env of Inl e \<Rightarrow> if failing_check e = n then Some e else None | Inr s \<Rightarrow> None)"

text \<open>\<open>polls\<close> is what \<open>p.Run\<close> does before it returns; it returns no error.\<close>

definition run_statements :: "startup_env \<Rightarrow> time option list \<Rightarrow> (process_event, startup_err) stmt list" where
  "run_statements env polls =
     [ReturnIf (check_fails env 0), ReturnIf (check_fails env 1), ReturnIf (check_fails env 2),
      Do (Acquire Signals), Defer (Release Signals),
      ReturnIf (check_fails env 3),
      Do (Acquire Pool), Defer (Release Pool),
      ReturnIf (check_fails env 4),
      Do Migrated,
      ReturnIf (check_fails env 5),
      Do (Acquire (HealthServer HealthPort)), Defer (Release (HealthServer HealthPort))] @
     map Do (map Poll polls)"

definition main_exit :: "process_event list \<times> startup_err option \<Rightarrow> process_event list" where
  "main_exit r = fst r @ [Exit (if snd r = None then 0 else 1)]"

section \<open>The process\<close>

record run_env =
  ru_rand :: "int \<Rightarrow> int"
  ru_early :: bool                      \<comment> \<open>a signal arrives during the startup jitter\<close>
  ru_start :: time                      \<comment> \<open>the reading the schedule is anchored at\<close>
  ru_waits :: "wait_env list"

abbreviation jitter_of :: "service \<Rightarrow> run_env \<Rightarrow> duration" where
  "jitter_of s ru \<equiv> poller_startup_jitter None (ru_rand ru) (cfg_Mode (se_config s)) (PollInterval (se_config s))"

definition polls_of :: "bool \<Rightarrow> time list \<Rightarrow> time option list" where
  "polls_of in_jitter ts = (if in_jitter then [] else None # map Some ts)"

text \<open>
  The events of a process that ends, with the poller it leaves behind if it started one; \<open>None\<close> for a
  process that is still polling when its environment is used up, or never leaves the skip loop.
\<close>

definition main_process ::
  "startup_env \<Rightarrow> run_env \<Rightarrow> (('e, system) cycle \<times> time option) list \<Rightarrow> system \<Rightarrow>
   (process_event list \<times> system poller option) option" where
  "main_process env ru cs w =
     (case startup env of
        Inl e \<Rightarrow> Some (main_exit (exec (run_statements env []) []), None)
      | Inr s \<Rightarrow>
          (case poller_run (se_config s) (jitter_of s ru) (ru_early ru) (ru_start ru) (ru_waits ru)
                  (cs, poller_new new_registry w) of
             None \<Rightarrow> None
           | Some (ts, (cs', p), stopped) \<Rightarrow>
               if stopped
               then Some (main_exit (exec (run_statements env (polls_of (jitter_of s ru > 0 \<and> ru_early ru) ts)) []), Some p)
               else None))"

section \<open>Every way out releases what was acquired\<close>

lemma check_fails_Inr: "startup env = Inr s \<Longrightarrow> check_fails env n = None"
  by (simp add: check_fails_def)

lemma run_statements_started:
  "startup env = Inr s \<Longrightarrow> exec (run_statements env polls) [] =
     ([Acquire Signals, Acquire Pool, Migrated, Acquire (HealthServer HealthPort)] @ map Poll polls @
      [Release (HealthServer HealthPort), Release Pool, Release Signals], None)"
  by (simp add: run_statements_def check_fails_Inr exec_Do del: map_map)

definition acquired :: "process_event list \<Rightarrow> resource list" where
  "acquired tr = List.map_filter (\<lambda>e. case e of Acquire r \<Rightarrow> Some r | _ \<Rightarrow> None) tr"

definition released :: "process_event list \<Rightarrow> resource list" where
  "released tr = List.map_filter (\<lambda>e. case e of Release r \<Rightarrow> Some r | _ \<Rightarrow> None) tr"

lemma run_statements_failed:
  assumes "startup env = Inl e"
  shows "\<exists>tr. exec (run_statements env []) [] = (tr, Some e) \<and> released tr = rev (acquired tr) \<and>
    HealthServer HealthPort \<notin> set (acquired tr) \<and> (\<forall>t. Poll t \<notin> set tr)"
proof -
  have c: "check_fails env n = (if failing_check e = n then Some e else None)" for n
    by (simp add: check_fails_def assms)
  show ?thesis
    by (cases e) (simp_all add: run_statements_def c acquired_def released_def map_filter_simps)
qed


lemma process_fails:
  assumes "startup env = Inl e"
  shows "\<exists>tr. main_process env ru cs w = Some (tr @ [Exit 1], None) \<and> released tr = rev (acquired tr) \<and>
    HealthServer HealthPort \<notin> set (acquired tr) \<and> (\<forall>t. Poll t \<notin> set tr)"
proof -
  from run_statements_failed [OF assms] obtain tr where
    "exec (run_statements env []) [] = (tr, Some e)" "released tr = rev (acquired tr)"
    "HealthServer HealthPort \<notin> set (acquired tr)" "\<forall>t. Poll t \<notin> set tr" by blast
  with assms show ?thesis by (simp add: main_process_def main_exit_def)
qed

text \<open>A signal arrives during the jitter or some wait, on a clock that stays below \<open>B\<close>.\<close>

definition signalled :: "service \<Rightarrow> run_env \<Rightarrow> time \<Rightarrow> bool" where
  "signalled s ru B \<longleftrightarrow>
     (\<forall>wt \<in> set (ru_waits ru). bounded_clock (PollInterval (se_config s)) (ru_start ru) B (we_clock wt)) \<and>
     B - ru_start ru + (int (length (ru_waits ru)) + 1) * PollInterval (se_config s) < 2 ^ 63 \<and>
     ru_start ru \<le> B \<and>
     (0 < jitter_of s ru \<and> ru_early ru \<or> (\<exists>wt \<in> set (ru_waits ru). we_ctx_first wt))"

lemma process_stops:
  assumes "startup env = Inr s" and "0 < PollInterval (se_config s)" and "signalled s ru B"
  shows "\<exists>ts p. main_process env ru cs w = Some
      ([Acquire Signals, Acquire Pool, Migrated, Acquire (HealthServer HealthPort)] @
       map Poll (polls_of (0 < jitter_of s ru \<and> ru_early ru) ts) @
       [Release (HealthServer HealthPort), Release Pool, Release Signals, Exit 0], Some p) \<and>
    on_schedule (PollInterval (se_config s)) (ru_start ru) 1 ts \<and>
    p = run_cycles (se_config s) (take (length (polls_of (0 < jitter_of s ru \<and> ru_early ru) ts)) cs)
          (poller_new new_registry w)"
proof -
  let ?cfg = "se_config s" and ?early = "0 < jitter_of s ru \<and> ru_early ru"
  let ?s0 = "(cs, poller_new new_registry w)"
  have hyps: "0 < PollInterval ?cfg"
    "\<forall>wt \<in> set (ru_waits ru). bounded_clock (PollInterval ?cfg) (ru_start ru) B (we_clock wt)"
    "B - ru_start ru + (int (length (ru_waits ru)) + 1) * PollInterval ?cfg < 2 ^ 63"
    "ru_start ru \<le> B" "?early \<or> (\<exists>wt \<in> set (ru_waits ru). we_ctx_first wt)"
    using assms(2,3) unfolding signalled_def by blast+
  obtain ts s' stopped where r: "run (PollInterval ?cfg) (jitter_of s ru) (ru_early ru) (ru_start ru) (poll_next ?cfg) (ru_waits ru) ?s0 =
       Some (ts, s', stopped)"
    "on_schedule (PollInterval ?cfg) (ru_start ru) 1 ts"
    "if ?early then ts = [] \<and> s' = ?s0 \<and> stopped
     else list_all2 (\<lambda>t wt. \<exists>i. we_clock wt i \<le> t) ts (takeWhile (\<lambda>wt. \<not> we_ctx_first wt) (ru_waits ru)) \<and>
       s' = (poll_next ?cfg ^^ Suc (length ts)) ?s0 \<and> (stopped \<longleftrightarrow> (\<exists>wt \<in> set (ru_waits ru). we_ctx_first wt))"
    using run_schedule [OF hyps(1-4), of "jitter_of s ru" "ru_early ru" "poll_next ?cfg" ?s0] by blast
  have stopped: "stopped" using r(3) hyps(5) by (auto split: if_splits)
  have s': "s' = (poll_next ?cfg ^^ length (polls_of ?early ts)) ?s0"
    using r(3) by (auto simp: polls_of_def split: if_splits)
  obtain cs' p where p: "s' = (cs', p)" "p = run_cycles ?cfg (take (length (polls_of ?early ts)) cs) (poller_new new_registry w)"
    unfolding s' poll_next_cycles by blast
  have "main_process env ru cs w = Some
      ([Acquire Signals, Acquire Pool, Migrated, Acquire (HealthServer HealthPort)] @ map Poll (polls_of ?early ts) @
       [Release (HealthServer HealthPort), Release Pool, Release Signals, Exit 0], Some p)"
    using assms(1) r(1) stopped
    by (simp add: main_process_def poller_run_def p(1) run_statements_started main_exit_def)
  with r(2) p(2) show ?thesis by blast
qed

text \<open>
  C16: the process ends well. If its start fails, at whichever check, it ends with code 1 without a
  single poll and before the health server is up, and whatever it had acquired is released in reverse
  order, the connection pool included. If it starts with a positive interval and a signal arrives,
  during the startup jitter or during any wait, then, whatever the cycles do, it polls on schedule
  until that moment, then shuts the health server down, closes the pool and ends with code 0; the pool
  and the health server are there during every poll.
\<close>

theorem process_ends_clean:
  "case startup env of
     Inl e \<Rightarrow> \<exists>tr. main_process env ru cs w = Some (tr @ [Exit 1], None) \<and> released tr = rev (acquired tr) \<and>
       HealthServer HealthPort \<notin> set (acquired tr) \<and> (\<forall>t. Poll t \<notin> set tr)
   | Inr s \<Rightarrow> 0 < PollInterval (se_config s) \<and> signalled s ru B \<longrightarrow>
       (\<exists>ts p. main_process env ru cs w = Some
          ([Acquire Signals, Acquire Pool, Migrated, Acquire (HealthServer HealthPort)] @
           map Poll (polls_of (0 < jitter_of s ru \<and> ru_early ru) ts) @
           [Release (HealthServer HealthPort), Release Pool, Release Signals, Exit 0], Some p) \<and>
        on_schedule (PollInterval (se_config s)) (ru_start ru) 1 ts \<and>
        p = run_cycles (se_config s) (take (length (polls_of (0 < jitter_of s ru \<and> ru_early ru) ts)) cs)
              (poller_new new_registry w))"
proof (cases "startup env")
  case (Inl e)
  with process_fails [OF Inl] show ?thesis by simp
next
  case (Inr s)
  with process_stops [OF Inr] show ?thesis by (simp only: sum.case) blast
qed

definition sample_run_env :: run_env where
  "sample_run_env = \<lparr>ru_rand = (\<lambda>n. 0), ru_early = False, ru_start = 0, ru_waits = sample_waits\<rparr>"

lemma sample_startup_interval:
  "case startup sample_startup_env of Inl e \<Rightarrow> False | Inr s \<Rightarrow> PollInterval (se_config s) = 30 * second"
  by code_simp

theorem process_ends_clean_witness:
  "\<exists>ts p. main_process sample_startup_env sample_run_env [] sample_system = Some
     ([Acquire Signals, Acquire Pool, Migrated, Acquire (HealthServer HealthPort)] @ map Poll (None # map Some ts) @
      [Release (HealthServer HealthPort), Release Pool, Release Signals, Exit 0], Some p) \<and>
   on_schedule (30 * second) 0 1 ts"
proof -
  obtain s where s: "startup sample_startup_env = Inr s" "PollInterval (se_config s) = 30 * second"
    using sample_startup_interval by (auto split: sum.splits)
  have "signalled s sample_run_env (91 * second)"
    by (simp add: signalled_def s(2) sample_run_env_def sample_waits_def bounded_clock_def second_def)
  then show ?thesis
    using process_ends_clean [of sample_startup_env sample_run_env "[]" sample_system "91 * second"] s
    by (auto simp: polls_of_def sample_run_env_def second_def)
qed


section \<open>The clients' own timeout\<close>

lemma derive_cycle_timeout_range: "second \<le> derive_cycle_timeout i \<and> derive_cycle_timeout i \<le> 25 * second"
  by (simp add: derive_cycle_timeout_def Let_def config_defs)

lemma fetch_budget_le: "fetch_budget cfg \<le> 24 * second"
  using derive_cycle_timeout_range [of "PollInterval cfg"]
  by (simp add: fetch_budget_def split_cycle_budget_eq config_defs max_def min_def)

lemma with_budget_fraction_le: "with_budget_fraction (Some dl) now now' pct = Some d \<Longrightarrow> d \<le> dl"
  by (auto simp: with_budget_fraction_def with_timeout_def with_deadline_def Let_def split: if_splits)

text \<open>
  \<open>HTTPClientTimeoutSec\<close> is never the binding constraint: whatever the poll interval, a fetch of
  either client has a deadline that falls before the client's timeout runs out.
\<close>

lemma client_timeout_never_binds:
  assumes "fetch_ctx cy f pct (with_timeout ctx (cy_fetch_start cy) (fetch_budget cfg)) = Some d"
  shows "d < cy_fetch_start cy + nws_timeout (new_client ua) \<and> d < cy_fetch_start cy + spc_timeout spc_new_client"
proof -
  obtain dl where dl: "with_timeout ctx (cy_fetch_start cy) (fetch_budget cfg) = Some dl"
    "dl \<le> cy_fetch_start cy + fetch_budget cfg"
    by (cases ctx) (auto simp: with_timeout_def with_deadline_def)
  then have "d \<le> cy_fetch_start cy + 24 * second"
    using with_budget_fraction_le assms fetch_budget_le [of cfg] by (fastforce simp: fetch_ctx_def)
  then show ?thesis by (simp add: new_client_def spc_new_client_def config_defs)
qed

end
